(* ===== verification/Prelude.thy ===== *)
theory Prelude
  imports Complex_Main "HOL-Library.AList" "HOL-Library.Sublist"
    "HOL-Library.List_Lexorder" "HOL-Library.Char_ord"
begin

text \<open>
  Shared vocabulary of the development: Python dictionaries as insertion-ordered association
  lists, the truthiness idioms \<open>x or y\<close> of the source, results that are an error or a value,
  and the collections of simplification and introduction rules the component theories fill.
\<close>

section \<open>Collections of rules\<close>

named_theorems dict_simps \<open>reading a dictionary after a write\<close>
named_theorems frame_simps \<open>fields and keys an operation leaves alone\<close>
named_theorems inv_intros \<open>operations that keep a component's invariant\<close>
named_theorems py_eval \<open>equations that evaluate the modelled Python text operations\<close>

section \<open>Dictionaries\<close>

text \<open>
  A Python \<open>dict\<close> keeps its keys in insertion order, and overwriting a key keeps the key's place.
  That is an association list with distinct keys, read with \<open>map_of\<close> and written with the
  library's \<open>AList.update\<close> and \<open>AList.delete\<close>.
\<close>

type_synonym ('k, 'v) dict = "('k \<times> 'v) list"

abbreviation dget :: "('k, 'v) dict \<Rightarrow> 'k \<Rightarrow> 'v option" where
  "dget \<equiv> map_of"

abbreviation dset :: "'k \<Rightarrow> 'v \<Rightarrow> ('k, 'v) dict \<Rightarrow> ('k, 'v) dict" where
  "dset \<equiv> AList.update"

abbreviation dpop :: "'k \<Rightarrow> ('k, 'v) dict \<Rightarrow> ('k, 'v) dict" where
  "dpop \<equiv> AList.delete"

definition dget_or :: "('k, 'v) dict \<Rightarrow> 'k \<Rightarrow> 'v \<Rightarrow> 'v" where
  "dget_or d k v = (case dget d k of None \<Rightarrow> v | Some w \<Rightarrow> w)"

definition dkeys :: "('k, 'v) dict \<Rightarrow> 'k list" where
  "dkeys d = map fst d"

definition wf_dict :: "('k, 'v) dict \<Rightarrow> bool" where
  "wf_dict d \<longleftrightarrow> distinct (map fst d)"

lemma dget_dset [simp, dict_simps]: "dget (dset k v d) = (dget d)(k \<mapsto> v)"
  by (rule update_conv')

lemma dget_dpop [simp, dict_simps]: "dget (dpop k d) = (dget d)(k := None)"
  by (rule delete_conv')

lemma wf_dict_Nil [simp, inv_intros]: "wf_dict []"
  by (simp add: wf_dict_def)

lemma wf_dict_dset [simp, inv_intros]: "wf_dict d \<Longrightarrow> wf_dict (dset k v d)"
  by (simp add: wf_dict_def distinct_update)

lemma wf_dict_dpop [simp, inv_intros]: "wf_dict d \<Longrightarrow> wf_dict (dpop k d)"
  by (simp add: wf_dict_def distinct_delete)

lemma wf_dict_filter [simp, inv_intros]: "wf_dict d \<Longrightarrow> wf_dict (filter P d)"
  unfolding wf_dict_def by (induction d) auto

lemma dget_in_set: "wf_dict d \<Longrightarrow> dget d k = Some v \<longleftrightarrow> (k, v) \<in> set d"
  by (simp add: wf_dict_def)

lemma length_dset_new:
  "dget d k = None \<Longrightarrow> length (dset k v d) = Suc (length d)"
  by (induction d) auto

lemma length_dset_old:
  "dget d k \<noteq> None \<Longrightarrow> length (dset k v d) = length d"
  by (induction d) auto

lemma length_dpop_new: "dget d k = None \<Longrightarrow> dpop k d = d"
  by (induction d) (auto split: if_splits)

lemma length_dpop_old:
  "wf_dict d \<Longrightarrow> dget d k \<noteq> None \<Longrightarrow> Suc (length (dpop k d)) = length d"
proof (induction d)
  case (Cons p d)
  show ?case
  proof (cases "fst p = k")
    case True
    with Cons.prems have "dget d k = None"
      by (auto simp: wf_dict_def map_of_eq_None_iff)
    with True show ?thesis by (simp add: length_dpop_new)
  next
    case False
    with Cons show ?thesis by (cases p) (auto simp: wf_dict_def)
  qed
qed simp

lemma dget_filter_key:
  "wf_dict d \<Longrightarrow> dget (filter (\<lambda>(k, v). P k v) d) k =
     (case dget d k of None \<Rightarrow> None | Some v \<Rightarrow> if P k v then Some v else None)"
proof (induction d)
  case (Cons p d)
  then show ?case
    by (cases p) (auto simp: wf_dict_def map_of_eq_None_iff split: option.splits)
qed simp

lemma dget_or_simps [simp, dict_simps]:
  "dget d k = None \<Longrightarrow> dget_or d k v = v"
  "dget d k = Some w \<Longrightarrow> dget_or d k v = w"
  by (simp_all add: dget_or_def)

text \<open>\<open>dict(pairs)\<close> and \<open>d.update(e)\<close>: later pairs win, first positions stay.\<close>

definition dupdate :: "('k, 'v) dict \<Rightarrow> ('k \<times> 'v) list \<Rightarrow> ('k, 'v) dict" where
  "dupdate d ps = fold (\<lambda>(k, v). dset k v) ps d"

abbreviation dict_of :: "('k \<times> 'v) list \<Rightarrow> ('k, 'v) dict" where
  "dict_of \<equiv> dupdate []"

lemma dupdate_Nil [simp]: "dupdate d [] = d"
  by (simp add: dupdate_def)

lemma dupdate_Cons [simp]: "dupdate d ((k, v) # ps) = dupdate (dset k v d) ps"
  by (simp add: dupdate_def)

lemma wf_dupdate [simp, inv_intros]: "wf_dict d \<Longrightarrow> wf_dict (dupdate d ps)"
  by (induction ps arbitrary: d) auto

lemma dget_dupdate [dict_simps]: "dget (dupdate d ps) = dget d ++ map_of (rev ps)"
  by (induction ps arbitrary: d) (auto simp: map_add_def fun_eq_iff split: option.splits)

lemma map_of_rev_distinct: "distinct (map fst ps) \<Longrightarrow> map_of (rev ps) = map_of ps"
  by (rule map_of_inject_set [THEN iffD2]) (auto simp: rev_map [symmetric])

lemma dupdate_distinct: "distinct (map fst ps) \<Longrightarrow> dget (dupdate d ps) = dget d ++ map_of ps"
  by (simp add: dget_dupdate map_of_rev_distinct)

lemma dset_fresh: "dget d k = None \<Longrightarrow> dset k v d = d @ [(k, v)]"
  by (induction d) (auto split: if_splits)

lemma dupdate_fresh:
  "distinct (map fst (d @ ps)) \<Longrightarrow> dupdate d ps = d @ ps"
proof (induction ps arbitrary: d)
  case (Cons p ps)
  obtain k v where p: "p = (k, v)" by (cases p)
  with Cons.prems have "dget d k = None" by (auto simp: map_of_eq_None_iff)
  then have "dupdate d (p # ps) = dupdate (d @ [(k, v)]) ps" by (simp add: p dset_fresh)
  also have "\<dots> = (d @ [(k, v)]) @ ps" using Cons.prems by (intro Cons.IH) (simp add: p)
  finally show ?case by (simp add: p)
qed simp

lemma dict_of_distinct: "distinct (map fst ps) \<Longrightarrow> dict_of ps = ps"
  by (simp add: dupdate_fresh)

section \<open>Truthiness\<close>

text \<open>
  Python's \<open>x or y\<close> on an optional container: both \<open>None\<close> and the empty container are false.
\<close>

definition truthy_opt :: "'a list option \<Rightarrow> bool" where
  "truthy_opt x \<longleftrightarrow> (\<exists>y ys. x = Some (y # ys))"

definition opt_or :: "'a list option \<Rightarrow> 'a list \<Rightarrow> 'a list" where
  "opt_or x d = (case x of None \<Rightarrow> d | Some [] \<Rightarrow> d | Some (y # ys) \<Rightarrow> y # ys)"

lemma truthy_opt_simps [simp, code]:
  "truthy_opt None = False" "truthy_opt (Some xs) = (xs \<noteq> [])"
  by (auto simp: truthy_opt_def neq_Nil_conv)

lemma opt_or_simps [simp]:
  "opt_or None d = d" "opt_or (Some []) d = d" "xs \<noteq> [] \<Longrightarrow> opt_or (Some xs) d = xs"
  by (auto simp: opt_or_def split: list.splits)

text \<open>An optional number is false when it is \<open>None\<close> or zero.\<close>

definition truthy_num :: "'a::zero option \<Rightarrow> bool" where
  "truthy_num x \<longleftrightarrow> (case x of None \<Rightarrow> False | Some n \<Rightarrow> n \<noteq> 0)"

lemma truthy_num_simps [simp]: "truthy_num None = False" "truthy_num (Some n) = (n \<noteq> 0)"
  by (simp_all add: truthy_num_def)

text \<open>\<open>int(x)\<close> of a float truncates towards zero.\<close>

definition py_trunc :: "real \<Rightarrow> int" where
  "py_trunc x = (if 0 \<le> x then \<lfloor>x\<rfloor> else \<lceil>x\<rceil>)"

definition opt_default :: "'a option \<Rightarrow> 'a \<Rightarrow> 'a" where
  "opt_default x d = (case x of None \<Rightarrow> d | Some v \<Rightarrow> v)"

lemma opt_default_simps [simp]: "opt_default None d = d" "opt_default (Some v) d = v"
  by (simp_all add: opt_default_def)

section \<open>Results\<close>

text \<open>A computation that may raise is a sum: \<open>Inl\<close> the exception, \<open>Inr\<close> the value.\<close>

definition bind_res :: "'e + 'a \<Rightarrow> ('a \<Rightarrow> 'e + 'b) \<Rightarrow> 'e + 'b" where
  "bind_res r f = (case r of Inl e \<Rightarrow> Inl e | Inr x \<Rightarrow> f x)"

lemma bind_res_simps [simp]: "bind_res (Inl e) f = Inl e" "bind_res (Inr x) f = f x"
  by (simp_all add: bind_res_def)

lemma bind_res_Inr [elim]:
  assumes "bind_res r f = Inr y"
  obtains x where "r = Inr x" "f x = Inr y"
  using assms by (cases r) auto

section \<open>Lists\<close>

lemma dropWhile_le_length: "length (dropWhile P xs) \<le> length xs"
  by (rule length_dropWhile_le)

lemma sum_list_nonneg_map: "(\<And>x. x \<in> set xs \<Longrightarrow> 0 \<le> f x) \<Longrightarrow> 0 \<le> sum_list (map f xs)" for f :: "'a \<Rightarrow> int"
  by (induction xs) auto

lemma sum_list_filter_le:
  "(\<And>x. x \<in> set xs \<Longrightarrow> 0 \<le> f x) \<Longrightarrow> sum_list (map f (filter P xs)) \<le> sum_list (map f xs)" for f :: "'a \<Rightarrow> int"
proof (induction xs)
  case (Cons x xs)
  then have "sum_list (map f (filter P xs)) \<le> sum_list (map f xs)" "0 \<le> f x" by auto
  then show ?case by simp
qed simp

end
