(* ===== verification/Text.thy ===== *)
theory Text
  imports Prelude "HOL-Library.Word"
begin

text \<open>
  The Python text operations the program uses. A Python \<open>str\<close> is a \<open>string\<close> whose characters
  are the code points 0 to 255; every code point above 255, and U+FFFD, which the decoder writes
  for malformed input, is represented by the one character \<open>SUB\<close>. On code points up to 255 the
  operations below are exactly Python's.
\<close>

section \<open>Characters\<close>

type_synonym byte = "8 word"

definition SUB :: char where
  "SUB = CHR 0x1A"

abbreviation ord_c :: "char \<Rightarrow> nat" where
  "ord_c c \<equiv> of_char c"

definition py_isalnum :: "char \<Rightarrow> bool" where
  "py_isalnum c = (let n = ord_c c in
     (48 \<le> n \<and> n \<le> 57) \<or> (65 \<le> n \<and> n \<le> 90) \<or> (97 \<le> n \<and> n \<le> 122) \<or>
     n \<in> {170, 178, 179, 181, 185, 186, 188, 189, 190} \<or>
     (192 \<le> n \<and> n \<le> 255 \<and> n \<noteq> 215 \<and> n \<noteq> 247))"

definition py_lower_char :: "char \<Rightarrow> char" where
  "py_lower_char c = (let n = ord_c c in
     if (65 \<le> n \<and> n \<le> 90) \<or> (192 \<le> n \<and> n \<le> 222 \<and> n \<noteq> 215) then char_of (n + 32) else c)"

definition py_lower :: "string \<Rightarrow> string" where
  "py_lower s = map py_lower_char s"

definition py_isspace :: "char \<Rightarrow> bool" where
  "py_isspace c = (let n = ord_c c in (9 \<le> n \<and> n \<le> 13) \<or> (28 \<le> n \<and> n \<le> 32) \<or> n = 133 \<or> n = 160)"

definition py_strip :: "string \<Rightarrow> string" where
  "py_strip s = rev (dropWhile py_isspace (rev (dropWhile py_isspace s)))"

lemma ord_c_bound: "ord_c c < 256"
  by (metis of_char_mod_256 mod_less_divisor zero_less_numeral)

section \<open>Splitting and joining\<close>

fun py_split :: "char \<Rightarrow> string \<Rightarrow> string list" where
  "py_split c [] = [[]]"
| "py_split c (x # xs) =
     (if x = c then [] # py_split c xs
      else (case py_split c xs of [] \<Rightarrow> [[x]] | w # ws \<Rightarrow> (x # w) # ws))"

fun py_join :: "string \<Rightarrow> string list \<Rightarrow> string" where
  "py_join sep [] = []"
| "py_join sep [w] = w"
| "py_join sep (w # v # ws) = w @ sep @ py_join sep (v # ws)"

lemma py_split_ne [simp]: "py_split c s \<noteq> []"
  by (induction s) (auto split: list.splits)

lemma py_split_notin: "w \<in> set (py_split c s) \<Longrightarrow> c \<notin> set w"
proof (induction s arbitrary: w)
  case (Cons x s)
  then show ?case
    by (cases "py_split c s") (auto split: if_splits)
qed simp

lemma py_split_plain: "c \<notin> set s \<Longrightarrow> py_split c s = [s]"
  by (induction s) auto

lemma py_split_append: "c \<notin> set w \<Longrightarrow> py_split c (w @ c # s) = w # py_split c s"
  by (induction w) auto

lemma py_split_join:
  "ws \<noteq> [] \<Longrightarrow> (\<And>w. w \<in> set ws \<Longrightarrow> c \<notin> set w) \<Longrightarrow> py_split c (py_join [c] ws) = ws"
proof (induction "[c]" ws rule: py_join.induct)
  case (2 w)
  then show ?case by (simp add: py_split_plain)
next
  case (3 w v ws)
  then have "py_split c (py_join [c] (v # ws)) = v # ws" by simp
  then show ?case using 3(3) by (simp add: py_split_append)
qed simp

lemma py_join_split: "py_join [c] (py_split c s) = s"
proof (induction s)
  case (Cons x s)
  then show ?case
    by (cases "py_split c s" rule: list.exhaust; cases "tl (py_split c s)" rule: list.exhaust)
      (auto simp: py_split_ne)
qed simp

section \<open>Replacement and paths\<close>

text \<open>\<open>str.replace\<close>: left to right, occurrences do not overlap.\<close>

function py_replace :: "string \<Rightarrow> string \<Rightarrow> string \<Rightarrow> string" where
  "py_replace old new s =
     (if old = [] then new @ concat (map (\<lambda>c. c # new) s)
      else if s = [] then []
      else if prefix old s then new @ py_replace old new (drop (length old) s)
      else hd s # py_replace old new (tl s))"
  by pat_completeness auto
termination
  by (relation "measure (\<lambda>(old, new, s). length s)") auto

declare py_replace.simps [simp del]

lemma py_replace_Nil [py_eval]: "py_replace (o1 # os) new [] = []"
  by (simp add: py_replace.simps)

lemma py_replace_Cons [py_eval]:
  "py_replace (o1 # os) new (x # s) =
     (if prefix (o1 # os) (x # s) then new @ py_replace (o1 # os) new (drop (length os) s)
      else x # py_replace (o1 # os) new s)"
  by (subst py_replace.simps) simp

lemma py_replace_absent:
  "old \<noteq> [] \<Longrightarrow> \<not> sublist old s \<Longrightarrow> py_replace old new s = s"
proof (induction s)
  case (Cons x s)
  then have "\<not> prefix old (x # s)" "\<not> sublist old s"
    by (auto simp: sublist_Cons_right)
  with Cons show ?case by (subst py_replace.simps) simp
qed (simp add: py_replace.simps)

lemma py_replace_prefix:
  "old \<noteq> [] \<Longrightarrow> py_replace old new (old @ s) = new @ py_replace old new s"
  by (subst py_replace.simps) auto

text \<open>\<open>os.path.basename\<close> on POSIX: what follows the last slash.\<close>

definition py_basename :: "string \<Rightarrow> string" where
  "py_basename s = rev (takeWhile (\<lambda>c. c \<noteq> CHR ''/'') (rev s))"

lemma py_basename_no_slash: "CHR ''/'' \<notin> set (py_basename s)"
  by (auto simp: py_basename_def dest: set_takeWhileD)

lemma py_basename_id: "CHR ''/'' \<notin> set s \<Longrightarrow> py_basename s = s"
  unfolding py_basename_def
  by (subst takeWhile_eq_all_conv [THEN iffD2]) auto

section \<open>Numbers\<close>

fun show_nat :: "nat \<Rightarrow> string" where
  "show_nat n = (if n < 10 then [char_of (48 + n)] else show_nat (n div 10) @ [char_of (48 + n mod 10)])"

declare show_nat.simps [simp del]

definition show_int :: "int \<Rightarrow> string" where
  "show_int i = (if i < 0 then CHR ''-'' # show_nat (nat (- i)) else show_nat (nat i))"

text \<open>
  \<open>repr\<close> of a string, as error messages quote it: single quotes unless the text has a single
  quote and no double one; backslash, quote and unprintable characters escaped.
\<close>

definition hex_digit :: "nat \<Rightarrow> char" where
  "hex_digit n = (if n < 10 then char_of (48 + n) else char_of (87 + n))"

definition py_printable :: "char \<Rightarrow> bool" where
  "py_printable c = (let n = ord_c c in (32 \<le> n \<and> n < 127) \<or> (161 \<le> n \<and> n \<noteq> 173))"

definition repr_char :: "char \<Rightarrow> char \<Rightarrow> string" where
  "repr_char q c = (let bs = char_of (92::nat) in
     if c = q \<or> c = bs then [bs, c]
     else if c = char_of (9::nat) then [bs, CHR ''t'']
     else if c = char_of (10::nat) then [bs, CHR ''n'']
     else if c = char_of (13::nat) then [bs, CHR ''r'']
     else if py_printable c then [c]
     else [bs, CHR ''x'', hex_digit (ord_c c div 16), hex_digit (ord_c c mod 16)])"

definition py_repr :: "string \<Rightarrow> string" where
  "py_repr s = (let sq = char_of (39::nat); dq = char_of (34::nat);
      q = (if sq \<in> set s \<and> dq \<notin> set s then dq else sq)
    in q # concat (map (repr_char q) s) @ [q])"

section \<open>UTF-8\<close>

text \<open>
  \<open>str.encode\<close>: one byte below 128, two from 128 to 255. The error handlers the source passes
  concern surrogates, which are above 255, so on the modelled code points encoding never fails.
\<close>

definition utf8_char :: "char \<Rightarrow> byte list" where
  "utf8_char c = (let n = ord_c c in
     if n < 128 then [word_of_nat n] else [word_of_nat (192 + n div 64), word_of_nat (128 + n mod 64)])"

definition utf8_encode :: "string \<Rightarrow> byte list" where
  "utf8_encode s = concat (map utf8_char s)"

text \<open>
  \<open>bytes.decode(errors="replace")\<close>: a lead byte fixes the ranges of the bytes that may follow; a
  sequence is consumed as far as it stays in range, and a broken one yields one U+FFFD. Lead bytes
  from 196 on start code points above 255, so they too come out as \<open>SUB\<close>.
\<close>

fun drop_valid :: "(nat \<times> nat) list \<Rightarrow> byte list \<Rightarrow> byte list" where
  "drop_valid [] bs = bs"
| "drop_valid (r # rs) [] = []"
| "drop_valid (r # rs) (b # bs) =
     (if fst r \<le> unat b \<and> unat b \<le> snd r then drop_valid rs bs else b # bs)"

definition second_range :: "nat \<Rightarrow> nat \<times> nat" where
  "second_range n = (if n = 224 then (160, 191) else if n = 237 then (128, 159)
     else if n = 240 then (144, 191) else if n = 244 then (128, 143) else (128, 191))"

definition utf8_step :: "byte \<Rightarrow> byte list \<Rightarrow> char \<times> byte list" where
  "utf8_step b bs = (let n = unat b in
     if n < 128 then (char_of n, bs)
     else if 194 \<le> n \<and> n \<le> 223 then
       (case bs of [] \<Rightarrow> (SUB, [])
        | c # cs \<Rightarrow> if 128 \<le> unat c \<and> unat c \<le> 191
            then (if n \<le> 195 then char_of (64 * (n - 192) + (unat c - 128)) else SUB, cs)
            else (SUB, bs))
     else if 224 \<le> n \<and> n \<le> 239 then (SUB, drop_valid [second_range n, (128, 191)] bs)
     else if 240 \<le> n \<and> n \<le> 244 then (SUB, drop_valid [second_range n, (128, 191), (128, 191)] bs)
     else (SUB, bs))"

lemma length_drop_valid: "length (drop_valid rs bs) \<le> length bs"
  by (induction rs bs rule: drop_valid.induct) auto

lemma length_utf8_step: "length (snd (utf8_step b bs)) \<le> length bs"
  using length_drop_valid by (auto simp: utf8_step_def Let_def split: list.splits)

function utf8_decode :: "byte list \<Rightarrow> string" where
  "utf8_decode [] = []"
| "utf8_decode (b # bs) = fst (utf8_step b bs) # utf8_decode (snd (utf8_step b bs))"
  by pat_completeness auto
termination
  by (relation "measure length") (auto simp: le_imp_less_Suc length_utf8_step)

lemma utf8_step_char:
  "utf8_char c @ bs = b # bs' \<Longrightarrow> utf8_step b bs' = (c, bs)"
proof -
  assume a: "utf8_char c @ bs = b # bs'"
  have n: "ord_c c < 256" by (rule ord_c_bound)
  show ?thesis
  proof (cases "ord_c c < 128")
    case True
    with a have "b = word_of_nat (ord_c c)" "bs' = bs" by (auto simp: utf8_char_def)
    with True n show ?thesis by (simp add: utf8_step_def unat_of_nat Let_def)
  next
    case False
    with a have b: "b = word_of_nat (192 + ord_c c div 64)"
      and bs: "bs' = word_of_nat (128 + ord_c c mod 64) # bs" by (auto simp: utf8_char_def Let_def)
    from False have "2 \<le> ord_c c div 64" by simp
    moreover from n have "ord_c c div 64 < 4" by (simp only: div_less_iff_less_mult)
    ultimately have d: "2 \<le> ord_c c div 64" "ord_c c div 64 < 4" .
    then have ub: "unat b = 192 + ord_c c div 64"
      unfolding b by (subst unat_of_nat) simp
    have "unat (word_of_nat (128 + ord_c c mod 64) :: byte) = 128 + ord_c c mod 64"
      by (subst unat_of_nat) simp
    with ub bs d show ?thesis
      by (simp add: utf8_step_def Let_def)
  qed
qed

lemma utf8_char_ne [simp]: "utf8_char c \<noteq> []"
  by (simp add: utf8_char_def Let_def)

text \<open>The round trip of the codec: text written to a pipe or a file is read back unchanged.\<close>

lemma utf8_decode_encode: "utf8_decode (utf8_encode s) = s"
proof (induction s)
  case (Cons c s)
  obtain b bs' where b: "utf8_char c @ utf8_encode s = b # bs'"
    by (cases "utf8_char c @ utf8_encode s") auto
  then have "utf8_decode (utf8_encode (c # s)) = utf8_decode (b # bs')"
    by (simp add: utf8_encode_def)
  also have "\<dots> = c # utf8_decode (utf8_encode s)"
    using utf8_step_char [OF b] by simp
  finally show ?case using Cons.IH by simp
qed (simp add: utf8_encode_def)

lemma length_utf8_char: "length (utf8_char c) = (if ord_c c < 128 then 1 else 2)"
  by (simp add: utf8_char_def Let_def)

lemma length_utf8_encode_ge: "length s \<le> length (utf8_encode s)"
proof (induction s)
  case (Cons c s)
  have "utf8_encode (c # s) = utf8_char c @ utf8_encode s" by (simp add: utf8_encode_def)
  with Cons.IH show ?case by (simp add: length_utf8_char)
qed simp

lemma length_utf8_encode_le: "length (utf8_encode s) \<le> 2 * length s"
proof (induction s)
  case (Cons c s)
  have "utf8_encode (c # s) = utf8_char c @ utf8_encode s" by (simp add: utf8_encode_def)
  with Cons.IH show ?case by (simp add: length_utf8_char)
qed (simp add: utf8_encode_def)

end
