(* ===== verification/RunLimits.thy ===== *)
theory RunLimits
  imports Prelude
begin

text \<open>
  \<^verbatim>\<open>app/executor/limits.py\<close>: the resource limits of a run. Times are seconds as reals;
  counts and sizes are Python integers.
\<close>

record Limits =
  memory_max :: string
  memory_swap_max :: string
  pids_max :: int
  cpu_quota_pct :: int
  wall_timeout_s :: real
  compile_timeout_s :: real
  output_cap_bytes :: int
  source_cap_bytes :: int
  box_file_size_bytes :: int
  nofile :: int

definition DEFAULT_LIMITS :: Limits where
  "DEFAULT_LIMITS = \<lparr>
     memory_max = ''256M'',
     memory_swap_max = ''0'',
     pids_max = 64,
     cpu_quota_pct = 100,
     wall_timeout_s = 5,
     compile_timeout_s = 10,
     output_cap_bytes = 64 * 1024,
     source_cap_bytes = 256 * 1024,
     box_file_size_bytes = 32 * 1024 * 1024,
     nofile = 256 \<rparr>"

text \<open>
  The caps that bound what untrusted code can consume whatever its language: processes, CPU,
  swap, output, file sizes and descriptors.
\<close>

definition same_caps :: "Limits \<Rightarrow> Limits \<Rightarrow> bool" where
  "same_caps l m \<longleftrightarrow> memory_swap_max l = memory_swap_max m \<and> pids_max l = pids_max m \<and>
     cpu_quota_pct l = cpu_quota_pct m \<and> output_cap_bytes l = output_cap_bytes m \<and>
     source_cap_bytes l = source_cap_bytes m \<and> box_file_size_bytes l = box_file_size_bytes m \<and>
     nofile l = nofile m"

lemma same_caps_refl [simp]: "same_caps l l"
  by (simp add: same_caps_def)

lemma same_caps_updates [simp]:
  "same_caps (l\<lparr>memory_max := x\<rparr>) m = same_caps l m"
  "same_caps (l\<lparr>wall_timeout_s := t\<rparr>) m = same_caps l m"
  "same_caps (l\<lparr>compile_timeout_s := t\<rparr>) m = same_caps l m"
  by (simp_all add: same_caps_def)

end
