(* ===== verification/Registry.thy ===== *)
theory Registry
  imports Text RunLimits
begin

text \<open>
  \<^verbatim>\<open>app/languages/registry.py\<close>: the language table, its lookup, and \<open>resolve\<close>, which turns
  a language and the base limits into the argument vectors, limits and environments of a run.
\<close>

section \<open>The table\<close>

record LanguageDef =
  lang_name :: string
  lang_main_file :: string
  lang_run_args :: "string list"
  lang_compile_args :: "string list option"
  lang_run_memory :: "string option"
  lang_compile_memory :: string
  lang_compile_timeout_s :: "real option"
  lang_compile_cache :: "string option"
  lang_run_env :: "(string \<times> string) list"
  lang_compile_env :: "(string \<times> string) list"

text \<open>The dataclass with only its required fields given.\<close>

definition LanguageDef_default :: "string \<Rightarrow> string \<Rightarrow> string list \<Rightarrow> LanguageDef" where
  "LanguageDef_default n m args = \<lparr>
     lang_name = n, lang_main_file = m, lang_run_args = args, lang_compile_args = None,
     lang_run_memory = None, lang_compile_memory = ''512M'', lang_compile_timeout_s = None,
     lang_compile_cache = None, lang_run_env = [], lang_compile_env = [] \<rparr>"

definition LANGUAGES :: "(string, LanguageDef) dict" where
  "LANGUAGES = [
     (''python'', LanguageDef_default ''python'' ''main.py''
        [''/usr/bin/python3'', ''-E'', ''-s'', ''/src/{main}'']),
     (''javascript'', LanguageDef_default ''javascript'' ''main.js''
        [''/usr/bin/node'', ''/src/{main}'']),
     (''ruby'', LanguageDef_default ''ruby'' ''main.rb''
        [''/usr/bin/ruby'', ''/src/{main}'']),
     (''cpp'', (LanguageDef_default ''cpp'' ''main.cpp'' [''/out/prog''])
        \<lparr>lang_compile_args := Some [''/usr/bin/g++'', ''/src/{main}'', ''-O2'', ''-std=c++17'',
           ''-o'', ''/out/prog'']\<rparr>),
     (''rust'', (LanguageDef_default ''rust'' ''main.rs'' [''/out/prog''])
        \<lparr>lang_compile_args := Some [''/usr/bin/rustc'', ''/src/{main}'', ''-O'', ''-o'', ''/out/prog'']\<rparr>),
     (''go'', (LanguageDef_default ''go'' ''main.go'' [''/out/prog''])
        \<lparr>lang_compile_args := Some [''/usr/bin/go'', ''build'', ''-C'', ''/src'', ''-o'', ''/out/prog'', ''.''],
         lang_compile_memory := ''2G'',
         lang_compile_timeout_s := Some 30,
         lang_compile_cache := Some ''go'',
         lang_compile_env := [
           (''GOROOT'', ''/usr/lib/go-1.22''), (''GOCACHE'', ''/cache''),
           (''GOPATH'', ''/tmp/go''), (''GO111MODULE'', ''off''),
           (''CGO_ENABLED'', ''0''), (''GOTOOLCHAIN'', ''local''),
           (''GOMAXPROCS'', ''1''), (''GOFLAGS'', ''-p=1'')]\<rparr>)]"

text \<open>\<open>KeyError\<close>, with the rejected name and the available ones its message lists.\<close>

datatype registry_error = UnsupportedLanguage string "string list"

definition list_languages :: "string list" where
  "list_languages = sort (dkeys LANGUAGES)"

definition get_language :: "string \<Rightarrow> registry_error + LanguageDef" where
  "get_language n = (case dget LANGUAGES n of
     None \<Rightarrow> Inl (UnsupportedLanguage n list_languages)
   | Some l \<Rightarrow> Inr l)"

section \<open>Resolving a run\<close>

record Prepared =
  prep_run_args :: "string list"
  prep_compile_args :: "string list option"
  prep_run_limits :: Limits
  prep_compile_limits :: "Limits option"
  prep_run_env :: "(string, string) dict"
  prep_compile_env :: "(string, string) dict"
  prep_compile_cache :: "string option"

definition resolve :: "LanguageDef \<Rightarrow> Limits \<Rightarrow> string option \<Rightarrow> Prepared" where
  "resolve lang base entrypoint =
     (let ep = opt_or entrypoint (lang_main_file lang);
          run_args = map (py_replace ''{main}'' ep) (lang_run_args lang);
          run_limits = (if truthy_opt (lang_run_memory lang)
                        then base\<lparr>memory_max := the (lang_run_memory lang)\<rparr> else base)
      in if \<not> truthy_opt (lang_compile_args lang) then
           \<lparr>prep_run_args = run_args, prep_compile_args = None, prep_run_limits = run_limits,
            prep_compile_limits = None, prep_run_env = dict_of (lang_run_env lang),
            prep_compile_env = [], prep_compile_cache = None\<rparr>
         else
           (let compile_args = map (py_replace ''{main}'' ep) (the (lang_compile_args lang));
                overridden = base\<lparr>memory_max := lang_compile_memory lang\<rparr>;
                compile_limits = (if truthy_num (lang_compile_timeout_s lang)
                   then overridden\<lparr>compile_timeout_s := the (lang_compile_timeout_s lang)\<rparr> else overridden)
            in \<lparr>prep_run_args = run_args, prep_compile_args = Some compile_args,
                prep_run_limits = run_limits, prep_compile_limits = Some compile_limits,
                prep_run_env = dict_of (lang_run_env lang),
                prep_compile_env = dict_of (lang_compile_env lang),
                prep_compile_cache = lang_compile_cache lang\<rparr>))"

section \<open>The table is well formed\<close>

lemmas language_table = LANGUAGES_def LanguageDef_default_def

lemma wf_LANGUAGES: "wf_dict LANGUAGES"
  by (simp add: wf_dict_def language_table)

lemma set_list_languages: "set list_languages = dom (dget LANGUAGES)"
  by (simp add: list_languages_def dkeys_def dom_map_of_conv_image_fst)

lemma get_language_Inr: "get_language n = Inr l \<longleftrightarrow> (n, l) \<in> set LANGUAGES"
  by (simp add: get_language_def dget_in_set [OF wf_LANGUAGES, symmetric] split: option.splits)

lemma in_LANGUAGES_cases:
  assumes "(n, l) \<in> set LANGUAGES"
  obtains "n = ''python''" | "n = ''javascript''" | "n = ''ruby''" | "n = ''cpp''"
    | "n = ''rust''" | "n = ''go''"
  using assms by (auto simp: language_table)

text \<open>
  An argument of a command line as the user can influence it: it is the table's own, or it is the
  placeholder for the main file with the entry point's name put behind \<open>/src/\<close>.
\<close>

definition argv_from :: "string \<Rightarrow> string \<Rightarrow> string \<Rightarrow> bool" where
  "argv_from ep a b \<longleftrightarrow> b = a \<or> a = ''/src/{main}'' \<and> b = ''/src/'' @ ep"

lemma py_replace_main: "py_replace ''{main}'' ep ''/src/{main}'' = ''/src/'' @ ep"
  by (simp add: py_eval)

lemma argv_from_replace:
  "a = ''/src/{main}'' \<or> \<not> sublist ''{main}'' a \<Longrightarrow> argv_from ep a (py_replace ''{main}'' ep a)"
  by (auto simp: argv_from_def py_replace_main py_replace_absent)

lemma argv_from_map:
  "list_all (\<lambda>a. a = ''/src/{main}'' \<or> \<not> sublist ''{main}'' a) as \<Longrightarrow>
   list_all2 (argv_from ep) as (map (py_replace ''{main}'' ep) as)"
  by (induction as) (auto simp: argv_from_replace)

lemma table_args_plain:
  assumes "(n, l) \<in> set LANGUAGES"
  shows "list_all (\<lambda>a. a = ''/src/{main}'' \<or> \<not> sublist ''{main}'' a) (lang_run_args l)"
    and "lang_compile_args l = Some as \<Longrightarrow>
      list_all (\<lambda>a. a = ''/src/{main}'' \<or> \<not> sublist ''{main}'' a) as"
  using assms by (auto simp: language_table sublist_code)

lemma resolve_fields:
  "prep_run_args (resolve l base e) =
     map (py_replace ''{main}'' (opt_or e (lang_main_file l))) (lang_run_args l)"
  "prep_compile_args (resolve l base e) = (if truthy_opt (lang_compile_args l)
     then Some (map (py_replace ''{main}'' (opt_or e (lang_main_file l))) (the (lang_compile_args l)))
     else None)"
  "prep_run_env (resolve l base e) = dict_of (lang_run_env l)"
  "prep_compile_cache (resolve l base e) =
     (if truthy_opt (lang_compile_args l) then lang_compile_cache l else None)"
  by (auto simp: resolve_def Let_def)

section \<open>Properties\<close>

text \<open>
  The language whitelist. A name resolves to a language exactly when it is listed, the list
  is sorted and without duplicates, and any other name is rejected with the list of the available
  ones.
\<close>

theorem get_language_whitelist:
  "sorted list_languages \<and> distinct list_languages \<and>
   (get_language n = (if n \<in> set list_languages
      then Inr (the (dget LANGUAGES n)) else Inl (UnsupportedLanguage n list_languages)))"
  using wf_LANGUAGES set_list_languages
  by (auto simp: list_languages_def dkeys_def wf_dict_def get_language_def split: option.splits)

text \<open>
  C16. What a user controls of the command lines. For every language of the table, each argument of
  the run and of the compile command is the table's own, or it is \<open>/src/\<close> followed by the chosen
  entry point; the program run is the table's own, so an entry point is never an option or a
  program.
\<close>

theorem resolve_argv_safe:
  assumes "(n, l) \<in> set LANGUAGES"
  shows "list_all2 (argv_from (opt_or e (lang_main_file l)))
           (lang_run_args l) (prep_run_args (resolve l base e)) \<and>
         hd (prep_run_args (resolve l base e)) = hd (lang_run_args l) \<and>
         (case prep_compile_args (resolve l base e) of
            None \<Rightarrow> lang_compile_args l = None
          | Some cs \<Rightarrow> list_all2 (argv_from (opt_or e (lang_main_file l))) (the (lang_compile_args l)) cs \<and>
              hd cs = hd (the (lang_compile_args l)))"
proof -
  note plain = table_args_plain [OF assms]
  have "hd (prep_run_args (resolve l base e)) = hd (lang_run_args l)"
    using assms by (auto simp: language_table resolve_fields py_replace_absent sublist_code)
  moreover have "list_all2 (argv_from (opt_or e (lang_main_file l)))
      (lang_run_args l) (prep_run_args (resolve l base e))"
    unfolding resolve_fields by (rule argv_from_map [OF plain(1)])
  moreover have "case prep_compile_args (resolve l base e) of
      None \<Rightarrow> lang_compile_args l = None
    | Some cs \<Rightarrow> list_all2 (argv_from (opt_or e (lang_main_file l))) (the (lang_compile_args l)) cs \<and>
        hd cs = hd (the (lang_compile_args l))"
  proof (cases "lang_compile_args l")
    case (Some as)
    have "as \<noteq> [] \<and> \<not> sublist ''{main}'' (hd as)"
      using assms Some by (auto simp: language_table sublist_code)
    then show ?thesis
      using argv_from_map [OF plain(2) [OF Some]]
      by (auto simp: resolve_fields Some hd_map py_replace_absent)
  qed (simp add: resolve_fields)
  ultimately show ?thesis by blast
qed

theorem resolve_argv_safe_witness:
  "(''cpp'', the (dget LANGUAGES ''cpp'')) \<in> set LANGUAGES \<and>
   prep_compile_args (resolve (the (dget LANGUAGES ''cpp'')) DEFAULT_LIMITS (Some ''-o.cpp'')) =
     Some [''/usr/bin/g++'', ''/src/-o.cpp'', ''-O2'', ''-std=c++17'', ''-o'', ''/out/prog''] \<and>
   hd (prep_run_args (resolve (the (dget LANGUAGES ''cpp'')) DEFAULT_LIMITS (Some ''-o.cpp''))) = ''/out/prog''"
proof -
  have m: "(''cpp'', the (dget LANGUAGES ''cpp'')) \<in> set LANGUAGES" by (simp add: language_table)
  show ?thesis
    using resolve_argv_safe [OF m, of "Some ''-o.cpp''" DEFAULT_LIMITS] m
    by (simp add: language_table resolve_fields py_eval)
qed

text \<open>
  A language changes limits only where its table entry says so. Whatever the language, the
  run and compile steps keep the base caps on processes, CPU, swap, output, file size and
  descriptors; the run step keeps the base wall-clock limit, and the compile step's own limits are
  the table's memory and, where the table gives one, its timeout.
\<close>

theorem resolve_limits:
  "same_caps (prep_run_limits (resolve l base e)) base \<and>
   wall_timeout_s (prep_run_limits (resolve l base e)) = wall_timeout_s base \<and>
   memory_max (prep_run_limits (resolve l base e)) = opt_or (lang_run_memory l) (memory_max base) \<and>
   (prep_compile_limits (resolve l base e) = None) = (prep_compile_args (resolve l base e) = None) \<and>
   (case prep_compile_limits (resolve l base e) of
      None \<Rightarrow> prep_compile_cache (resolve l base e) = None
    | Some cl \<Rightarrow> same_caps cl base \<and> wall_timeout_s cl = wall_timeout_s base \<and>
        memory_max cl = lang_compile_memory l \<and>
        compile_timeout_s cl = (if truthy_num (lang_compile_timeout_s l)
          then the (lang_compile_timeout_s l) else compile_timeout_s base))"
  by (auto simp: resolve_def Let_def opt_or_def truthy_opt_def split: option.splits list.splits)

text \<open>
  The user's file name does reach the argument vector. For an interpreted language the entry
  point chosen in the request is, behind \<open>/src/\<close>, an element of the command line that is run.
\<close>

theorem entrypoint_reaches_argv:
  "''/src/'' @ opt_or e ''main.py'' \<in> set (prep_run_args (resolve (the (dget LANGUAGES ''python'')) base e))"
  by (simp add: language_table resolve_fields py_replace_main)

end
