(* ===== verification/Files.thy ===== *)
theory Files
  imports Text
begin

text \<open>
  Paths, the file operations the executor uses and the exceptions they raise. A path is the list
  of its segments below the root; a file system maps paths to nodes, the root being a directory.
  Faults of the host's disk (no space, I/O errors) are not modelled.
\<close>

section \<open>Paths\<close>

type_synonym path = "string list"

definition path_str :: "path \<Rightarrow> string" where
  "path_str p = (if p = [] then ''/'' else concat (map (\<lambda>s. CHR ''/'' # s) p))"

definition path_segs :: "string \<Rightarrow> string list" where
  "path_segs s = filter (\<lambda>w. w \<noteq> [] \<and> w \<noteq> ''.'') (py_split (CHR ''/'') s)"

text \<open>\<open>p / s\<close> of \<open>pathlib\<close>: an absolute \<open>s\<close> replaces \<open>p\<close>, empty and dot segments vanish.\<close>

definition path_join :: "path \<Rightarrow> string \<Rightarrow> path" where
  "path_join p s = (if prefix ''/'' s then path_segs s else p @ path_segs s)"

text \<open>\<open>p.with_name(n)\<close>, on the non-empty paths the source calls it with.\<close>

definition with_name :: "path \<Rightarrow> string \<Rightarrow> path" where
  "with_name p n = butlast p @ [n]"

definition plain_segment :: "string \<Rightarrow> bool" where
  "plain_segment s \<longleftrightarrow> s \<noteq> [] \<and> s \<noteq> ''.'' \<and> s \<noteq> ''..'' \<and> CHR ''/'' \<notin> set s"

lemma path_segs_plain: "plain_segment s \<Longrightarrow> path_segs s = [s]"
  by (simp add: plain_segment_def path_segs_def py_split_plain)

lemma path_join_plain: "plain_segment s \<Longrightarrow> path_join p s = p @ [s]"
  by (cases s) (auto simp: path_join_def path_segs_plain plain_segment_def)

lemma plain_segments [simp]:
  "plain_segment ''src''" "plain_segment ''out''" "plain_segment ''bundle''" "plain_segment ''state''"
  "plain_segment ''config.json''" "plain_segment ''compile''" "plain_segment ''run''" "plain_segment ''runs''"
  "plain_segment ''cache''" "plain_segment ''rootfs''"
  by (simp_all add: plain_segment_def)

lemma py_split_join_slash:
  "list_all (\<lambda>w. CHR ''/'' \<notin> set w) ws \<Longrightarrow>
     py_split (CHR ''/'') (concat (map (\<lambda>w. CHR ''/'' # w) ws)) = [] # ws"
proof (induction ws)
  case (Cons w ws)
  have "py_split (CHR ''/'') (w @ s) = (w @ hd (py_split (CHR ''/'') s)) # tl (py_split (CHR ''/'') s)"
    if "CHR ''/'' \<notin> set w" for s :: string and w
    using that by (induction w) (auto split: list.splits)
  with Cons show ?case by simp
qed simp

text \<open>Writing a path of plain segments and reading it back.\<close>

lemma path_segs_str:
  assumes "list_all plain_segment p"
  shows "path_segs (path_str p) = p"
proof (cases "p = []")
  case False
  have "filter (\<lambda>w. w \<noteq> [] \<and> w \<noteq> ''.'') p = p"
    using assms by (intro filter_True) (auto simp: list_all_iff plain_segment_def)
  moreover have "list_all (\<lambda>w. CHR ''/'' \<notin> set w) p"
    using assms by (auto simp: list_all_iff plain_segment_def)
  ultimately show ?thesis
    using False by (simp add: path_segs_def path_str_def py_split_join_slash)
qed (simp add: path_segs_def path_str_def)

section \<open>Exceptions\<close>

text \<open>An exception is its type's name and its message; the source reports them joined.\<close>

datatype exn = Exn (exn_type: string) (exn_msg: string)

definition exn_text :: "exn \<Rightarrow> string" where
  "exn_text e = exn_type e @ '': '' @ exn_msg e"

definition ValueError :: "string \<Rightarrow> exn" where
  "ValueError m = Exn ''ValueError'' m"

definition os_error :: "string \<Rightarrow> nat \<Rightarrow> string \<Rightarrow> path \<Rightarrow> exn" where
  "os_error t n m p = Exn t (''[Errno '' @ show_nat n @ ''] '' @ m @ '': '' @ py_repr (path_str p))"

lemma exn_text_ne [simp]: "exn_text e \<noteq> []"
  by (simp add: exn_text_def)

section \<open>File operations\<close>

datatype node = Dir | File "byte list"

type_synonym fs = "path \<Rightarrow> node option"

text \<open>\<open>d.mkdir(parents=True, exist_ok=ok)\<close>.\<close>

definition mkdir_parents :: "path \<Rightarrow> bool \<Rightarrow> fs \<Rightarrow> exn + fs" where
  "mkdir_parents d ok fs =
     (if \<exists>p \<in> set (prefixes (butlast d)). (case fs p of Some (File _) \<Rightarrow> True | _ \<Rightarrow> False)
      then Inl (os_error ''NotADirectoryError'' 20 ''Not a directory'' d)
      else if (case fs d of None \<Rightarrow> False | Some Dir \<Rightarrow> \<not> ok | Some (File _) \<Rightarrow> True)
      then Inl (os_error ''FileExistsError'' 17 ''File exists'' d)
      else Inr (\<lambda>p. if fs p = None \<and> prefix p d then Some Dir else fs p))"

text \<open>\<open>f.write_bytes(bs)\<close>.\<close>

definition write_bytes :: "path \<Rightarrow> byte list \<Rightarrow> fs \<Rightarrow> exn + fs" where
  "write_bytes f bs fs =
     (case fs f of
        Some Dir \<Rightarrow> Inl (os_error ''IsADirectoryError'' 21 ''Is a directory'' f)
      | _ \<Rightarrow> (case (if f = [] then None else fs (butlast f)) of
           Some Dir \<Rightarrow> Inr (fs(f \<mapsto> File bs))
         | Some (File _) \<Rightarrow> Inl (os_error ''NotADirectoryError'' 20 ''Not a directory'' f)
         | None \<Rightarrow> Inl (os_error ''FileNotFoundError'' 2 ''No such file or directory'' f)))"

text \<open>\<open>shutil.rmtree(d, ignore_errors=True)\<close>.\<close>

definition rmtree :: "path \<Rightarrow> fs \<Rightarrow> fs" where
  "rmtree d fs = (\<lambda>p. if prefix d p then None else fs p)"

text \<open>
  Two file systems that agree on every path neither below one of the given directories nor on the
  way to one.
\<close>

definition same_outside :: "path set \<Rightarrow> fs \<Rightarrow> fs \<Rightarrow> bool" where
  "same_outside ds f g \<longleftrightarrow> (\<forall>p. (\<forall>d \<in> ds. \<not> prefix d p \<and> \<not> prefix p d) \<longrightarrow> g p = f p)"

lemma same_outside_refl [simp]: "same_outside ds f f"
  by (simp add: same_outside_def)

lemma same_outside_trans [trans]:
  "same_outside ds f g \<Longrightarrow> same_outside ds g h \<Longrightarrow> same_outside ds f h"
  by (simp add: same_outside_def)

lemma same_outside_mono: "same_outside ds f g \<Longrightarrow> ds \<subseteq> es \<Longrightarrow> same_outside es f g"
  by (auto simp: same_outside_def)

lemma mkdir_parents_same:
  "mkdir_parents d ok fs = Inr fs' \<Longrightarrow> r \<in> ds \<Longrightarrow> prefix r d \<Longrightarrow> same_outside ds fs fs'"
  by (auto simp: mkdir_parents_def same_outside_def split: if_splits)
    (metis prefix_order.trans prefix_same_cases)+

lemma write_bytes_same:
  "write_bytes f bs fs = Inr fs' \<Longrightarrow> r \<in> ds \<Longrightarrow> prefix r f \<Longrightarrow> same_outside ds fs fs'"
  by (auto simp: write_bytes_def same_outside_def split: option.splits node.splits if_splits)

lemma rmtree_same: "r \<in> ds \<Longrightarrow> prefix r d \<Longrightarrow> same_outside ds fs (rmtree d fs)"
  by (auto simp: rmtree_def same_outside_def dest: prefix_order.trans)

lemma rmtree_gone: "prefix d p \<Longrightarrow> rmtree d fs p = None"
  by (simp add: rmtree_def)

lemma rmtree_other: "\<not> prefix d p \<Longrightarrow> rmtree d fs p = fs p"
  by (simp add: rmtree_def)

lemma mkdir_parents_Dir: "mkdir_parents d ok fs = Inr fs' \<Longrightarrow> fs' d = Some Dir"
  by (auto simp: mkdir_parents_def split: if_splits option.splits node.splits)

lemma write_bytes_Inr:
  "f \<noteq> [] \<Longrightarrow> fs (butlast f) = Some Dir \<Longrightarrow> fs f \<noteq> Some Dir \<Longrightarrow> write_bytes f bs fs = Inr (fs(f \<mapsto> File bs))"
  by (auto simp: write_bytes_def split: option.splits node.splits)

end
