(* ===== verification/Json.thy ===== *)
theory Json
  imports Text
begin

text \<open>
  The part of Python's \<open>json\<close> module the program uses: \<open>dumps\<close>, compact and indented, of values
  made of \<open>None\<close>, booleans, integers, strings, lists and dictionaries, and \<open>loads\<close>, which gives
  \<open>None\<close> on malformed text. A number with a fraction or an exponent is kept as it is written: the
  program writes none, and what it makes of one it reads is said where it reads it. An escape above
  \<open>\u00ff\<close> reads as \<open>SUB\<close>.
\<close>

datatype json = JNull | JBool bool | JInt int | JFloat string | JStr string | JList "json list"
  | JObj "(string \<times> json) list"

section \<open>Writing\<close>

definition hex4 :: "nat \<Rightarrow> string" where
  "hex4 n = [CHR ''0'', CHR ''0'', hex_digit (n div 16), hex_digit (n mod 16)]"

definition esc_char :: "char \<Rightarrow> string" where
  "esc_char c = (let n = ord_c c; bs = char_of (92::nat) in
     if n = 34 \<or> n = 92 then [bs, c]
     else if n = 10 then [bs, CHR ''n'']
     else if n = 13 then [bs, CHR ''r'']
     else if n = 9 then [bs, CHR ''t'']
     else if n = 12 then [bs, CHR ''f'']
     else if n = 8 then [bs, CHR ''b'']
     else if 32 \<le> n \<and> n \<le> 126 then [c]
     else bs # CHR ''u'' # hex4 n)"

definition quote :: "string \<Rightarrow> string" where
  "quote s = char_of (34::nat) # concat (map esc_char s) @ [char_of (34::nat)]"

fun dumps :: "json \<Rightarrow> string" where
  "dumps JNull = ''null''"
| "dumps (JBool b) = (if b then ''true'' else ''false'')"
| "dumps (JInt i) = show_int i"
| "dumps (JFloat s) = s"
| "dumps (JStr s) = quote s"
| "dumps (JList xs) = ''['' @ py_join '', '' (map dumps xs) @ '']''"
| "dumps (JObj kvs) = ''{'' @ py_join '', '' (map (\<lambda>(k, v). quote k @ '': '' @ dumps v) kvs) @ ''}''"

text \<open>\<open>dumps(obj, indent=ind)\<close>, at nesting depth \<open>lvl\<close>.\<close>

definition newline :: "nat \<Rightarrow> nat \<Rightarrow> string" where
  "newline ind lvl = char_of (10::nat) # replicate (ind * lvl) (CHR '' '')"

fun dumps_ind :: "nat \<Rightarrow> nat \<Rightarrow> json \<Rightarrow> string" where
  "dumps_ind ind lvl (JList xs) =
     (if xs = [] then ''[]''
      else ''['' @ newline ind (lvl + 1) @
        py_join ('','' @ newline ind (lvl + 1)) (map (dumps_ind ind (lvl + 1)) xs) @ newline ind lvl @ '']'')"
| "dumps_ind ind lvl (JObj kvs) =
     (if kvs = [] then ''{}''
      else ''{'' @ newline ind (lvl + 1) @
        py_join ('','' @ newline ind (lvl + 1))
          (map (\<lambda>(k, v). quote k @ '': '' @ dumps_ind ind (lvl + 1) v) kvs) @ newline ind lvl @ ''}'')"
| "dumps_ind ind lvl j = dumps j"

section \<open>Reading\<close>

definition skip_ws :: "string \<Rightarrow> string" where
  "skip_ws s = dropWhile (\<lambda>c. ord_c c \<in> {9, 10, 13, 32}) s"

definition is_digit :: "char \<Rightarrow> bool" where
  "is_digit c \<longleftrightarrow> 48 \<le> ord_c c \<and> ord_c c \<le> 57"

definition digits_val :: "string \<Rightarrow> nat" where
  "digits_val ds = foldl (\<lambda>a c. 10 * a + (ord_c c - 48)) 0 ds"

definition hex_val :: "char \<Rightarrow> nat option" where
  "hex_val c = (let n = ord_c c in
     if 48 \<le> n \<and> n \<le> 57 then Some (n - 48)
     else if 97 \<le> n \<and> n \<le> 102 then Some (n - 87)
     else if 65 \<le> n \<and> n \<le> 70 then Some (n - 55) else None)"

definition unhex4 :: "string \<Rightarrow> char option" where
  "unhex4 s = (case map hex_val s of
     [Some a, Some b, Some c, Some d] \<Rightarrow> Some (if a = 0 \<and> b = 0 then char_of (16 * c + d) else SUB)
   | _ \<Rightarrow> None)"

definition unesc :: "char \<Rightarrow> char option" where
  "unesc e = (if ord_c e \<in> {34, 92, 47} then Some e
     else if e = CHR ''n'' then Some (char_of (10::nat))
     else if e = CHR ''r'' then Some (char_of (13::nat))
     else if e = CHR ''t'' then Some (char_of (9::nat))
     else if e = CHR ''f'' then Some (char_of (12::nat))
     else if e = CHR ''b'' then Some (char_of (8::nat)) else None)"

definition cons_fst :: "'a \<Rightarrow> ('a list \<times> 'b) option \<Rightarrow> ('a list \<times> 'b) option" where
  "cons_fst x r = map_option (\<lambda>(xs, q). (x # xs, q)) r"

text \<open>The body of a string, up to its closing quote.\<close>

function str_body :: "string \<Rightarrow> (string \<times> string) option" where
  "str_body s = (case s of [] \<Rightarrow> None
    | c # cs \<Rightarrow>
      if ord_c c = 34 then Some ([], cs)
      else if ord_c c < 32 then None
      else if ord_c c \<noteq> 92 then cons_fst c (str_body cs)
      else (case cs of [] \<Rightarrow> None
        | e # es \<Rightarrow>
          if e = CHR ''u'' then
            (case unhex4 (take 4 es) of None \<Rightarrow> None | Some x \<Rightarrow> cons_fst x (str_body (drop 4 es)))
          else (case unesc e of None \<Rightarrow> None | Some x \<Rightarrow> cons_fst x (str_body es))))"
  by pat_completeness auto
termination
  by (relation "measure length") auto

declare str_body.simps [simp del]

text \<open>A number: an optional sign, then \<open>0\<close> or digits without a leading zero.\<close>

definition num_digits :: "string \<Rightarrow> string" where
  "num_digits t = (if t \<noteq> [] \<and> hd t = CHR ''0'' then ''0'' else takeWhile is_digit t)"

text \<open>A fraction and an exponent, each with at least one digit, or nothing.\<close>

definition frac_part :: "string \<Rightarrow> string" where
  "frac_part r = (if r \<noteq> [] \<and> hd r = CHR ''.'' \<and> takeWhile is_digit (tl r) \<noteq> []
     then CHR ''.'' # takeWhile is_digit (tl r) else [])"

definition exp_part :: "string \<Rightarrow> string" where
  "exp_part r = (if r \<noteq> [] \<and> hd r \<in> {CHR ''e'', CHR ''E''} then
       (let sg = takeWhile (\<lambda>c. c \<in> {CHR ''+'', CHR ''-''}) (take 1 (tl r));
            ds = takeWhile is_digit (drop (length sg) (tl r))
        in if ds = [] then [] else hd r # sg @ ds)
     else [])"

definition jnumber :: "string \<Rightarrow> (json \<times> string) option" where
  "jnumber s = (let neg = (s \<noteq> [] \<and> hd s = CHR ''-''); t = (if neg then tl s else s);
      ds = num_digits t;
      r = drop (length ds) t;
      fr = frac_part r;
      ex = exp_part (drop (length fr) r)
    in if ds = [] then None
       else if fr = [] \<and> ex = [] then Some (JInt (if neg then - int (digits_val ds) else int (digits_val ds)), r)
       else Some (JFloat ((if neg then ''-'' else []) @ ds @ fr @ ex), drop (length fr + length ex) r))"

definition jword :: "string \<Rightarrow> (json \<times> string) option" where
  "jword s = (if prefix ''null'' s then Some (JNull, drop 4 s)
     else if prefix ''true'' s then Some (JBool True, drop 4 s)
     else if prefix ''false'' s then Some (JBool False, drop 5 s)
     else if prefix ''NaN'' s then Some (JFloat ''NaN'', drop 3 s)
     else if prefix ''Infinity'' s then Some (JFloat ''Infinity'', drop 8 s)
     else if prefix ''-Infinity'' s then Some (JFloat ''-Infinity'', drop 9 s)
     else jnumber s)"

text \<open>
  The recursive descent, on fuel: \<open>jelems\<close> and \<open>jmembers\<close> read the rest of a non-empty list or
  dictionary.
\<close>

fun jval :: "nat \<Rightarrow> string \<Rightarrow> (json \<times> string) option"
  and jelems :: "nat \<Rightarrow> string \<Rightarrow> (json list \<times> string) option"
  and jmembers :: "nat \<Rightarrow> string \<Rightarrow> ((string \<times> json) list \<times> string) option" where
  "jval 0 s = None"
| "jval (Suc n) s = (case skip_ws s of [] \<Rightarrow> None
    | c # cs \<Rightarrow>
      if ord_c c = 34 then map_option (\<lambda>(x, r). (JStr x, r)) (str_body cs)
      else if c = CHR ''['' then
        (if prefix '']'' (skip_ws cs) then Some (JList [], tl (skip_ws cs))
         else map_option (\<lambda>(xs, r). (JList xs, r)) (jelems n cs))
      else if c = CHR ''{'' then
        (if prefix ''}'' (skip_ws cs) then Some (JObj [], tl (skip_ws cs))
         else map_option (\<lambda>(ps, r). (JObj (dict_of ps), r)) (jmembers n cs))
      else jword (c # cs))"
| "jelems 0 s = None"
| "jelems (Suc n) s = (case jval n s of None \<Rightarrow> None
    | Some (x, r) \<Rightarrow> (case skip_ws r of [] \<Rightarrow> None
      | c # cs \<Rightarrow> if c = CHR '']'' then Some ([x], cs)
          else if c = CHR '','' then cons_fst x (jelems n cs) else None))"
| "jmembers 0 s = None"
| "jmembers (Suc n) s = (case skip_ws s of [] \<Rightarrow> None
    | q # qs \<Rightarrow> if ord_c q \<noteq> 34 then None else
      (case str_body qs of None \<Rightarrow> None
       | Some (k, r) \<Rightarrow> (case skip_ws r of [] \<Rightarrow> None
         | d # ds \<Rightarrow> if d \<noteq> CHR '':'' then None else
           (case jval n ds of None \<Rightarrow> None
            | Some (v, t) \<Rightarrow> (case skip_ws t of [] \<Rightarrow> None
              | c # cs \<Rightarrow> if c = CHR ''}'' then Some ([(k, v)], cs)
                  else if c = CHR '','' then cons_fst (k, v) (jmembers n cs) else None)))))"

definition loads :: "string \<Rightarrow> json option" where
  "loads s = (case jval (Suc (length s)) s of None \<Rightarrow> None
     | Some (j, r) \<Rightarrow> if skip_ws r = [] then Some j else None)"

section \<open>Round trip\<close>

fun wf_json :: "json \<Rightarrow> bool" where
  "wf_json (JList xs) = list_all wf_json xs"
| "wf_json (JObj kvs) = (distinct (map fst kvs) \<and> list_all (\<lambda>(k, v). wf_json v) kvs)"
| "wf_json (JFloat s) = False"
| "wf_json _ = True"


lemma ord_char_of [simp]: "n < 256 \<Longrightarrow> ord_c (char_of n) = n"
  by simp

lemma hex_val_digit: "k < 16 \<Longrightarrow> hex_val (hex_digit k) = Some k"
  by (auto simp: hex_digit_def hex_val_def Let_def)

lemma hex_val_0: "hex_val (CHR ''0'') = Some 0"
  by (simp add: hex_val_def)

lemma unhex4_hex4: "n < 256 \<Longrightarrow> unhex4 (hex4 n) = Some (char_of n)"
  by (simp add: unhex4_def hex4_def hex_val_0 hex_val_digit mult.commute [of 16])

lemma char_of_eq: "ord_c c = n \<Longrightarrow> c = char_of n"
  by auto

lemma str_body_plain:
  "ord_c c \<noteq> 34 \<Longrightarrow> ord_c c \<noteq> 92 \<Longrightarrow> 32 \<le> ord_c c \<Longrightarrow> str_body (c # cs) = cons_fst c (str_body cs)"
  by (subst str_body.simps) simp

lemma str_body_end: "str_body (char_of (34::nat) # cs) = Some ([], cs)"
  by (subst str_body.simps) simp

lemma str_body_bs:
  "str_body (char_of (92::nat) # e # es) =
     (if e = CHR ''u'' then
        (case unhex4 (take 4 es) of None \<Rightarrow> None | Some x \<Rightarrow> cons_fst x (str_body (drop 4 es)))
      else (case unesc e of None \<Rightarrow> None | Some x \<Rightarrow> cons_fst x (str_body es)))"
  by (subst str_body.simps) simp

lemma esc_char_cases:
  obtains "esc_char c = [c]" "ord_c c \<noteq> 34" "ord_c c \<noteq> 92" "32 \<le> ord_c c"
  | e where "esc_char c = [char_of (92::nat), e]" "e \<noteq> CHR ''u''" "unesc e = Some c"
  | "esc_char c = char_of (92::nat) # CHR ''u'' # hex4 (ord_c c)"
proof (cases "ord_c c \<in> {34, 92}")
  case True
  then have "esc_char c = [char_of (92::nat), c]" "c \<noteq> CHR ''u''" "unesc c = Some c"
    by (auto simp: esc_char_def unesc_def Let_def)
  then show thesis by (rule that(2))
next
  case q: False
  show thesis
  proof (cases "ord_c c \<in> {10, 13, 9, 12, 8}")
    case True
    then have "c = char_of (10::nat) \<or> c = char_of (13::nat) \<or> c = char_of (9::nat)
        \<or> c = char_of (12::nat) \<or> c = char_of (8::nat)" by (auto dest!: char_of_eq)
    then obtain n :: nat where n: "n \<in> {10, 13, 9, 12, 8}" and c: "c = char_of n" by blast
    have "\<exists>e. esc_char (char_of n) = [char_of (92::nat), e] \<and> e \<noteq> CHR ''u'' \<and> unesc e = Some (char_of n)"
      using n by (elim insertE emptyE; hypsubst) (simp add: esc_char_def unesc_def)+
    with c that(2) show thesis by blast
  next
    case False
    with q have "esc_char c = (if 32 \<le> ord_c c \<and> ord_c c \<le> 126 then [c]
        else char_of (92::nat) # CHR ''u'' # hex4 (ord_c c))"
      by (simp add: esc_char_def Let_def)
    with q that(1,3) show thesis by (auto split: if_splits)
  qed
qed

lemma str_body_esc: "str_body (esc_char c @ t) = cons_fst c (str_body t)"
proof (cases c rule: esc_char_cases)
  case 3
  have "unhex4 (take 4 (hex4 (ord_c c) @ t)) = Some c" "drop 4 (hex4 (ord_c c) @ t) = t"
    using unhex4_hex4 [OF ord_c_bound [of c]] by (simp_all add: hex4_def)
  with 3 show ?thesis by (simp add: str_body_bs)
qed (simp_all add: str_body_plain str_body_bs)

lemma str_body_quote: "str_body (concat (map esc_char s) @ char_of (34::nat) # r) = Some (s, r)"
proof (induction s)
  case Nil
  then show ?case by (simp add: str_body_end)
next
  case (Cons c s)
  then show ?case by (simp add: str_body_esc cons_fst_def)
qed

text \<open>Numbers.\<close>

lemma digits_val_snoc: "digits_val (ds @ [c]) = 10 * digits_val ds + (ord_c c - 48)"
  by (simp add: digits_val_def)

lemma digits_val_show: "digits_val (show_nat n) = n"
proof (induction n rule: show_nat.induct)
  case (1 n)
  then show ?case
    by (subst show_nat.simps) (simp add: digits_val_snoc, simp add: digits_val_def)
qed

lemma show_nat_digits: "list_all is_digit (show_nat n)"
proof (induction n rule: show_nat.induct)
  case (1 n)
  have "is_digit (char_of (48 + k))" if "k < 10" for k :: nat
    using that by (simp add: is_digit_def)
  with 1 show ?case by (auto simp: show_nat.simps [of n])
qed

lemma show_nat_ne [simp]: "show_nat n \<noteq> []"
  by (subst show_nat.simps) simp

lemma char_48: "char_of (48::nat) = CHR ''0''"
  by (rule char_of_eq [symmetric]) simp

lemma show_nat_head: "hd (show_nat n) = CHR ''0'' \<longleftrightarrow> n = 0"
proof (induction n rule: show_nat.induct)
  case (1 n)
  show ?case
  proof (cases "n < 10")
    case True
    have "char_of (48 + n) = CHR ''0'' \<longleftrightarrow> ord_c (char_of (48 + n)) = ord_c (CHR ''0'')"
      by (simp only: of_char_eq_iff)
    with True show ?thesis by (simp add: show_nat.simps [of n])
  next
    case False
    with 1 show ?thesis by (simp add: show_nat.simps [of n])
  qed
qed

lemma show_nat_0: "show_nat 0 = ''0''"
  by (subst show_nat.simps) (simp add: char_48)

definition ends :: "string \<Rightarrow> bool" where
  "ends r \<longleftrightarrow> r = [] \<or> hd r \<in> {CHR '','', CHR '']'', CHR ''}'', CHR 0x0A}"

lemma ends_simps [simp]: "ends []" "ends (CHR '','' # r)" "ends (CHR '']'' # r)" "ends (CHR ''}'' # r)"
  by (simp_all add: ends_def)

lemma takeWhile_digits: "ends r \<Longrightarrow> takeWhile is_digit (show_nat n @ r) = show_nat n"
  using show_nat_digits [of n]
  by (subst takeWhile_append2) (auto simp: list_all_iff ends_def takeWhile_eq_Nil_iff is_digit_def)

lemma ends_not_frac: "ends r \<Longrightarrow> frac_part r = [] \<and> exp_part r = []"
  by (auto simp: ends_def frac_part_def exp_part_def)

lemma num_digits_show: "ends r \<Longrightarrow> num_digits (show_nat n @ r) = show_nat n"
  by (auto simp: num_digits_def takeWhile_digits show_nat_head show_nat_0)

lemma show_nat_head_digit: "is_digit (hd (show_nat n))"
  using show_nat_digits [of n] by (cases "show_nat n") auto

lemma jnumber_show: "ends r \<Longrightarrow> jnumber (show_int i @ r) = Some (JInt i, r)"
proof -
  assume r: "ends r"
  note nd = num_digits_show [OF r] ends_not_frac [OF r]
  show ?thesis
  proof (cases "i < 0")
    case True
    then have "show_int i @ r = CHR ''-'' # show_nat (nat (- i)) @ r" by (simp add: show_int_def)
    with nd True show ?thesis by (auto simp: jnumber_def Let_def digits_val_show)
  next
    case False
    then have i: "show_int i = show_nat (nat i)" by (simp add: show_int_def)
    have "hd (show_nat (nat i) @ r) \<noteq> CHR ''-''"
      using show_nat_head_digit [of "nat i"] by (auto simp: is_digit_def)
    with nd False show ?thesis by (auto simp: jnumber_def Let_def i digits_val_show)
  qed
qed

text \<open>Values.\<close>

lemma skip_ws_space [simp]: "skip_ws (CHR '' '' # s) = skip_ws s"
  by (simp add: skip_ws_def)

lemma jval_space: "jval n (CHR '' '' # s) = jval n s"
  by (cases n) simp_all

lemma jelems_space: "jelems n (CHR '' '' # s) = jelems n s"
  by (cases n) (simp_all add: jval_space)

lemma jmembers_space: "jmembers n (CHR '' '' # s) = jmembers n s"
  by (cases n) simp_all

text \<open>The first character of a written value: never white space and never a closing bracket.\<close>

definition opens :: "char \<Rightarrow> bool" where
  "opens c \<longleftrightarrow> ord_c c \<notin> {9, 10, 13, 32} \<and> c \<noteq> CHR '']''"

lemma skip_ws_opens: "opens c \<Longrightarrow> skip_ws (c # s) = c # s"
  by (simp add: opens_def skip_ws_def)

lemma skip_ws_closers [simp]:
  "skip_ws (CHR '']'' # s) = CHR '']'' # s" "skip_ws (CHR ''}'' # s) = CHR ''}'' # s"
  "skip_ws (CHR '','' # s) = CHR '','' # s" "skip_ws (CHR '':'' # s) = CHR '':'' # s"
  "skip_ws (char_of (34::nat) # s) = char_of (34::nat) # s"
  by (simp_all add: skip_ws_def)

lemma show_int_head: "\<exists>c cs. show_int i = c # cs \<and> (is_digit c \<or> c = CHR ''-'')"
  using show_nat_head_digit [of "nat i"]
  by (cases "show_nat (nat i)") (auto simp: show_int_def)

lemma char_34_iff: "(char_of (34::nat) = c) = (ord_c c = 34)"
  by (auto intro: char_of_eq [symmetric])

lemma char_34_ne: "CHR ''}'' \<noteq> char_of (34::nat)"
  using char_34_iff [of "CHR ''}''"] by auto

lemma opens_literals:
  "opens (char_of (34::nat))" "opens (CHR ''['')" "opens (CHR ''{'')" "opens (CHR ''n'')" "opens (CHR ''t'')"
  "opens (CHR ''f'')"
  by (simp_all add: opens_def char_34_iff)

lemma dumps_head: "wf_json j \<Longrightarrow> \<exists>c cs. dumps j = c # cs \<and> opens c"
proof (cases j)
  case (JInt i)
  with show_int_head [of i] show ?thesis by (auto simp: opens_def is_digit_def)
qed (auto simp: quote_def opens_literals)

lemma digit_not_bracket:
  "is_digit c \<or> c = CHR ''-'' \<Longrightarrow> opens c \<and> ord_c c \<noteq> 34 \<and> c \<noteq> CHR ''['' \<and> c \<noteq> CHR ''{'' \<and>
     c \<noteq> CHR ''n'' \<and> c \<noteq> CHR ''t'' \<and> c \<noteq> CHR ''f'' \<and> c \<noteq> CHR ''N'' \<and> c \<noteq> CHR ''I''"
  by (auto simp: is_digit_def opens_def)

lemma show_int_finite: "\<not> prefix ''-Infinity'' (show_int i @ r)"
proof (cases "i < 0")
  case True
  then have "show_int i @ r = CHR ''-'' # show_nat (nat (- i)) @ r" by (simp add: show_int_def)
  with show_nat_head_digit [of "nat (- i)"] show ?thesis
    by (cases "show_nat (nat (- i))") (auto simp: is_digit_def)
next
  case False
  with show_nat_head_digit [of "nat i"] show ?thesis
    by (cases "show_nat (nat i)") (auto simp: is_digit_def show_int_def)
qed

lemma jword_number:
  assumes "is_digit c \<or> c = CHR ''-''" "\<not> prefix ''-Infinity'' (c # s)"
  shows "jword (c # s) = jnumber (c # s)"
proof -
  have "CHR ''n'' \<noteq> c" "CHR ''t'' \<noteq> c" "CHR ''f'' \<noteq> c" "CHR ''N'' \<noteq> c" "CHR ''I'' \<noteq> c"
    using digit_not_bracket [OF assms(1)] by auto
  with assms(2) show ?thesis by (auto simp: jword_def)
qed

lemma jval_int: "ends r \<Longrightarrow> jval (Suc n) (show_int i @ r) = Some (JInt i, r)"
proof -
  assume r: "ends r"
  obtain c cs where c: "show_int i = c # cs" "is_digit c \<or> c = CHR ''-''"
    using show_int_head by blast
  have "jword (c # cs @ r) = Some (JInt i, r)"
    using jword_number [OF c(2), of "cs @ r"] show_int_finite [of i r] jnumber_show [OF r, of i] c(1) by simp
  with digit_not_bracket [OF c(2)] c(1) show ?thesis
    by (simp add: skip_ws_opens)
qed

lemma jval_str: "jval (Suc n) (quote s @ r) = Some (JStr s, r)"
  by (simp add: quote_def str_body_quote)

lemma jelems_join:
  assumes "xs \<noteq> []" "size_list size xs < n"
    and "\<And>x m q. x \<in> set xs \<Longrightarrow> size x < m \<Longrightarrow> ends q \<Longrightarrow> jval m (dumps x @ q) = Some (x, q)"
  shows "jelems n (py_join '', '' (map dumps xs) @ CHR '']'' # r) = Some (xs, r)"
  using assms
proof (induction xs arbitrary: n)
  case (Cons x xs)
  from Cons.prems(2) obtain m where n: "n = Suc m" "size x < m" "size_list size xs < m"
    by (cases n) auto
  note x = Cons.prems(3) [of x m, OF _ n(2)]
  show ?case
  proof (cases xs)
    case Nil
    with x [of "CHR '']'' # r"] n(1) show ?thesis by simp
  next
    case (Cons y ys)
    with Cons.IH [OF _ n(3) Cons.prems(3)]
    have "jelems m (py_join '', '' (map dumps xs) @ CHR '']'' # r) = Some (xs, r)" by simp
    with x n(1) Cons show ?thesis by (simp add: jelems_space cons_fst_def)
  qed
qed simp

lemma jmembers_join:
  assumes "kvs \<noteq> []" "size_list (size_prod (\<lambda>_. 0) size) kvs < n"
    and "\<And>k x m q. (k, x) \<in> set kvs \<Longrightarrow> size x < m \<Longrightarrow> ends q \<Longrightarrow> jval m (dumps x @ q) = Some (x, q)"
  shows "jmembers n (py_join '', '' (map (\<lambda>(k, v). quote k @ '': '' @ dumps v) kvs) @ CHR ''}'' # r) =
    Some (kvs, r)"
  using assms
proof (induction kvs arbitrary: n)
  case (Cons p kvs)
  obtain k x where p: "p = (k, x)" by (cases p)
  from Cons.prems(2) p obtain m where n: "n = Suc m" "size x < m"
    "size_list (size_prod (\<lambda>_. 0) size) kvs < m"
    by (cases n) auto
  have x: "jval m (dumps x @ q) = Some (x, q)" if "ends q" for q
    using Cons.prems(3) [of k x m q] p n(2) that by simp
  show ?case
  proof (cases kvs)
    case Nil
    with x [of "CHR ''}'' # r"] n(1) p show ?thesis
      by (simp add: quote_def str_body_quote jval_space)
  next
    case (Cons y ys)
    have "jmembers m (py_join '', '' (map (\<lambda>(k, v). quote k @ '': '' @ dumps v) kvs) @ CHR ''}'' # r) =
      Some (kvs, r)"
      by (rule Cons.IH) (use Cons n(3) in simp, use n(3) in simp, rule Cons.prems(3), auto)
    with x n(1) Cons p show ?thesis
      by (simp add: quote_def str_body_quote jval_space jmembers_space cons_fst_def)
  qed
qed simp

lemma jval_dumps:
  "wf_json j \<Longrightarrow> size j < n \<Longrightarrow> ends r \<Longrightarrow> jval n (dumps j @ r) = Some (j, r)"
proof (induction j arbitrary: n r)
  case (JInt i)
  then show ?case by (cases n) (simp_all add: jval_int del: jval.simps)
next
  case (JStr s)
  then show ?case by (cases n) (simp_all add: jval_str del: jval.simps)
next
  case (JList xs)
  obtain m where n: "n = Suc m" "size_list size xs < m" using JList.prems(2) by (cases n) auto
  show ?case
  proof (cases "xs = []")
    case False
    have "jelems m (py_join '', '' (map dumps xs) @ CHR '']'' # r) = Some (xs, r)"
      using JList n(2) False by (intro jelems_join) (auto simp: list_all_iff)
    moreover obtain c cs where "py_join '', '' (map dumps xs) = c # cs" "opens c"
      using False dumps_head [of "hd xs"] JList.prems(1) by (cases xs; cases "tl xs") auto
    ultimately show ?thesis
      using n(1) by (simp add: skip_ws_opens skip_ws_def [of "CHR ''['' # _"]) (auto simp: opens_def)
  qed (simp add: n(1) skip_ws_def)
next
  case (JObj kvs)
  obtain m where n: "n = Suc m" "size_list (size_prod (\<lambda>_. 0) size) kvs < m"
    using JObj.prems(2) by (cases n) auto
  show ?case
  proof (cases "kvs = []")
    case False
    have "jmembers m (py_join '', '' (map (\<lambda>(k, v). quote k @ '': '' @ dumps v) kvs) @ CHR ''}'' # r) =
      Some (kvs, r)"
      using JObj n(2) False by (intro jmembers_join) (force simp: list_all_iff)+
    moreover obtain cs where "py_join '', '' (map (\<lambda>(k, v). quote k @ '': '' @ dumps v) kvs) =
        char_of (34::nat) # cs"
      using False by (cases kvs; cases "tl kvs") (auto simp: quote_def)
    moreover have "dict_of kvs = kvs" using JObj.prems(1) by (simp add: dict_of_distinct)
    ultimately show ?thesis
      using n(1) by (simp add: skip_ws_def [of "CHR ''{'' # _"]) (simp add: char_34_ne)
  qed (simp add: n(1) skip_ws_def)
qed (auto simp: jword_def skip_ws_def gr0_conv_Suc)

text \<open>The fuel of \<open>loads\<close>, one more than the text's length, is enough.\<close>

lemma length_join_ge:
  "list_all (\<lambda>w. f w \<le> length (g w)) ws \<Longrightarrow>
     sum_list (map f ws) + length ws \<le> length (py_join '', '' (map g ws)) + 1"
proof (induction ws)
  case (Cons w ws)
  then show ?case by (cases ws) auto
qed simp

lemma size_dumps: "size j \<le> length (dumps j)"
proof (induction j)
  case (JList xs)
  then have "list_all (\<lambda>x. size x \<le> length (dumps x)) xs" by (simp add: list_all_iff)
  from length_join_ge [OF this] show ?case by (simp add: size_list_conv_sum_list)
next
  case (JObj kvs)
  then have "list_all (\<lambda>p. size_prod (\<lambda>_. 0) size p \<le> length ((\<lambda>(k, v). quote k @ '': '' @ dumps v) p)) kvs"
    by (fastforce simp: list_all_iff quote_def)
  from length_join_ge [OF this] show ?case by (simp add: size_list_conv_sum_list)
qed simp_all

lemma loads_dumps: "wf_json j \<Longrightarrow> loads (dumps j) = Some j"
  using jval_dumps [of j "Suc (length (dumps j))" "[]"] size_dumps [of j]
  by (simp add: loads_def skip_ws_def)

end
