(* ===== verification/Oci.thy ===== *)
theory Oci
  imports Files RunLimits Json
begin

text \<open>
  \<^verbatim>\<open>app/executor/oci.py\<close>: the OCI configuration of a container, as records with the JSON
  document's members, and what every configuration the builder makes guarantees.
\<close>

section \<open>The configuration document\<close>

record mount =
  destination :: string
  mount_type :: string
  mount_source :: string
  mount_options :: "string list option"

record rlimit =
  rlimit_type :: string
  rlimit_hard :: int
  rlimit_soft :: int

record capability_sets =
  bounding :: "string list"
  effective :: "string list"
  inheritable :: "string list"
  permitted :: "string list"
  ambient :: "string list"

record oci_process =
  proc_terminal :: bool
  proc_uid :: int
  proc_gid :: int
  proc_args :: "string list"
  proc_env :: "string list"
  proc_cwd :: string
  proc_capabilities :: capability_sets
  noNewPrivileges :: bool
  proc_rlimits :: "rlimit list"

record seccomp_rule =
  syscall_names :: "string list"
  syscall_action :: string
  errnoRet :: int

record seccomp_profile =
  defaultAction :: string
  architectures :: "string list"
  syscalls :: "seccomp_rule list"

record oci_linux =
  namespaces :: "string list"
  maskedPaths :: "string list"
  readonlyPaths :: "string list"
  linux_seccomp :: seccomp_profile

record oci_config =
  ociVersion :: string
  oci_process :: oci_process
  root_path :: string
  root_readonly :: bool
  oci_hostname :: string
  mounts :: "mount list"
  oci_linux :: oci_linux

definition MASKED :: "string list" where
  "MASKED = [
     ''/proc/kcore'', ''/proc/keys'', ''/proc/latency_stats'', ''/proc/timer_list'',
     ''/proc/timer_stats'', ''/proc/sched_debug'', ''/proc/scsi'', ''/sys/firmware'']"

definition READONLY :: "string list" where
  "READONLY = [''/proc/bus'', ''/proc/fs'', ''/proc/irq'', ''/proc/sys'', ''/proc/sysrq-trigger'']"

definition SECCOMP_DENY :: "string list" where
  "SECCOMP_DENY = [
     ''ptrace'', ''process_vm_readv'', ''process_vm_writev'',
     ''mount'', ''umount'', ''umount2'', ''pivot_root'', ''chroot'', ''move_mount'',
     ''open_tree'', ''fsopen'', ''fsconfig'', ''fsmount'',
     ''init_module'', ''finit_module'', ''delete_module'', ''create_module'',
     ''kexec_load'', ''kexec_file_load'', ''reboot'',
     ''keyctl'', ''add_key'', ''request_key'',
     ''bpf'', ''perf_event_open'', ''userfaultfd'', ''ioperm'', ''iopl'',
     ''swapon'', ''swapoff'', ''acct'', ''quotactl'', ''nfsservctl'',
     ''settimeofday'', ''clock_settime'', ''adjtimex'', ''clock_adjtime'',
     ''setns'', ''unshare'']"

definition build_seccomp :: seccomp_profile where
  "build_seccomp = \<lparr>
     defaultAction = ''SCMP_ACT_ALLOW'',
     architectures = [''SCMP_ARCH_X86_64'', ''SCMP_ARCH_X86'', ''SCMP_ARCH_X32''],
     syscalls = [\<lparr>syscall_names = sort SECCOMP_DENY, syscall_action = ''SCMP_ACT_ERRNO'', errnoRet = 1\<rparr>]\<rparr>"

definition box_size_mb :: "Limits \<Rightarrow> int" where
  "box_size_mb l = max 1 (box_file_size_bytes l div (1024 * 1024))"

section \<open>The builder\<close>

definition base_env :: "(string, string) dict" where
  "base_env = [(''PATH'', ''/usr/local/bin:/usr/bin''), (''HOME'', ''/box''), (''LANG'', ''C.UTF-8'')]"

definition base_mounts :: "path \<Rightarrow> Limits \<Rightarrow> mount list" where
  "base_mounts src_dir limits = [
     \<lparr>destination = ''/proc'', mount_type = ''proc'', mount_source = ''proc'', mount_options = None\<rparr>,
     \<lparr>destination = ''/dev'', mount_type = ''tmpfs'', mount_source = ''tmpfs'',
      mount_options = Some [''nosuid'', ''noexec'', ''mode=755'', ''size=4m'']\<rparr>,
     \<lparr>destination = ''/dev/pts'', mount_type = ''devpts'', mount_source = ''devpts'',
      mount_options = Some [''nosuid'', ''noexec'', ''newinstance'', ''ptmxmode=0666'', ''mode=0620'']\<rparr>,
     \<lparr>destination = ''/dev/shm'', mount_type = ''tmpfs'', mount_source = ''shm'',
      mount_options = Some [''nosuid'', ''noexec'', ''nodev'', ''mode=1777'', ''size=16m'']\<rparr>,
     \<lparr>destination = ''/src'', mount_type = ''bind'', mount_source = path_str src_dir,
      mount_options = Some [''bind'', ''ro'', ''nosuid'', ''nodev'', ''noexec'']\<rparr>,
     \<lparr>destination = ''/box'', mount_type = ''tmpfs'', mount_source = ''tmpfs'',
      mount_options = Some [''nosuid'', ''nodev'',
        ''size='' @ show_int (box_size_mb limits) @ ''m'', ''mode=1777'']\<rparr>,
     \<lparr>destination = ''/tmp'', mount_type = ''tmpfs'', mount_source = ''tmpfs'',
      mount_options = Some [''nosuid'', ''nodev'', ''size=1024m'']\<rparr>]"

definition out_mount :: "path \<Rightarrow> bool \<Rightarrow> mount" where
  "out_mount out_dir out_rw = \<lparr>destination = ''/out'', mount_type = ''bind'',
     mount_source = path_str out_dir,
     mount_options = Some [''bind'', if out_rw then ''rw'' else ''ro'', ''nosuid'', ''nodev'']\<rparr>"

definition cache_mount :: "path \<Rightarrow> mount" where
  "cache_mount cache_dir = \<lparr>destination = ''/cache'', mount_type = ''bind'',
     mount_source = path_str cache_dir,
     mount_options = Some [''bind'', ''rw'', ''nosuid'', ''nodev'', ''noexec'']\<rparr>"

definition build_config ::
  "string list \<Rightarrow> path \<Rightarrow> Limits \<Rightarrow> path \<Rightarrow> (string, string) dict option \<Rightarrow> int \<Rightarrow> int \<Rightarrow>
   path option \<Rightarrow> bool \<Rightarrow> path option \<Rightarrow> bool \<Rightarrow> string \<Rightarrow> oci_config" where
  "build_config args src_dir limits rootfs env uid gid out_dir out_rw cache_dir terminal cwd =
     (let penv = (if truthy_opt env then dupdate base_env (the env) else base_env);
          ms = base_mounts src_dir limits
            @ (case out_dir of None \<Rightarrow> [] | Some d \<Rightarrow> [out_mount d out_rw])
            @ (case cache_dir of None \<Rightarrow> [] | Some d \<Rightarrow> [cache_mount d])
      in \<lparr>ociVersion = ''1.1.0'',
          oci_process = \<lparr>
            proc_terminal = terminal, proc_uid = uid, proc_gid = gid, proc_args = args,
            proc_env = map (\<lambda>(k, v). k @ ''='' @ v) penv, proc_cwd = cwd,
            proc_capabilities = \<lparr>bounding = [], effective = [], inheritable = [],
              permitted = [], ambient = []\<rparr>,
            noNewPrivileges = True,
            proc_rlimits = [
              \<lparr>rlimit_type = ''RLIMIT_NOFILE'', rlimit_hard = nofile limits, rlimit_soft = nofile limits\<rparr>,
              \<lparr>rlimit_type = ''RLIMIT_FSIZE'', rlimit_hard = box_file_size_bytes limits,
               rlimit_soft = box_file_size_bytes limits\<rparr>,
              \<lparr>rlimit_type = ''RLIMIT_CORE'', rlimit_hard = 0, rlimit_soft = 0\<rparr>]\<rparr>,
          root_path = path_str rootfs, root_readonly = True,
          oci_hostname = ''sandbox'',
          mounts = ms,
          oci_linux = \<lparr>
            namespaces = [''pid'', ''network'', ''ipc'', ''uts'', ''mount''],
            maskedPaths = MASKED, readonlyPaths = READONLY, linux_seccomp = build_seccomp\<rparr>\<rparr>)"

text \<open>The keyword defaults of \<open>build_config\<close>: a non-root run without \<open>/out\<close> and \<open>/cache\<close>.\<close>

abbreviation sandbox_uid :: int where
  "sandbox_uid \<equiv> 65534"

section \<open>Writing the bundle\<close>

text \<open>The document's JSON value, member by member in the source's order.\<close>

definition json_strs :: "string list \<Rightarrow> json" where
  "json_strs ss = JList (map JStr ss)"

definition mount_json :: "mount \<Rightarrow> json" where
  "mount_json m = JObj ([(''destination'', JStr (destination m)), (''type'', JStr (mount_type m)),
     (''source'', JStr (mount_source m))] @
     (case mount_options m of None \<Rightarrow> [] | Some os \<Rightarrow> [(''options'', json_strs os)]))"

definition rlimit_json :: "rlimit \<Rightarrow> json" where
  "rlimit_json r = JObj [(''type'', JStr (rlimit_type r)), (''hard'', JInt (rlimit_hard r)),
     (''soft'', JInt (rlimit_soft r))]"

definition capabilities_json :: "capability_sets \<Rightarrow> json" where
  "capabilities_json c = JObj [(''bounding'', json_strs (bounding c)), (''effective'', json_strs (effective c)),
     (''inheritable'', json_strs (inheritable c)), (''permitted'', json_strs (permitted c)),
     (''ambient'', json_strs (ambient c))]"

definition process_json :: "oci_process \<Rightarrow> json" where
  "process_json p = JObj [(''terminal'', JBool (proc_terminal p)),
     (''user'', JObj [(''uid'', JInt (proc_uid p)), (''gid'', JInt (proc_gid p))]),
     (''args'', json_strs (proc_args p)), (''env'', json_strs (proc_env p)), (''cwd'', JStr (proc_cwd p)),
     (''capabilities'', capabilities_json (proc_capabilities p)),
     (''noNewPrivileges'', JBool (noNewPrivileges p)),
     (''rlimits'', JList (map rlimit_json (proc_rlimits p)))]"

definition seccomp_json :: "seccomp_profile \<Rightarrow> json" where
  "seccomp_json s = JObj [(''defaultAction'', JStr (defaultAction s)),
     (''architectures'', json_strs (architectures s)),
     (''syscalls'', JList (map (\<lambda>r. JObj [(''names'', json_strs (syscall_names r)),
        (''action'', JStr (syscall_action r)), (''errnoRet'', JInt (errnoRet r))]) (syscalls s)))]"

definition config_json :: "oci_config \<Rightarrow> json" where
  "config_json c = JObj [(''ociVersion'', JStr (ociVersion c)), (''process'', process_json (oci_process c)),
     (''root'', JObj [(''path'', JStr (root_path c)), (''readonly'', JBool (root_readonly c))]),
     (''hostname'', JStr (oci_hostname c)), (''mounts'', JList (map mount_json (mounts c))),
     (''linux'', JObj [
        (''namespaces'', JList (map (\<lambda>t. JObj [(''type'', JStr t)]) (namespaces (oci_linux c)))),
        (''maskedPaths'', json_strs (maskedPaths (oci_linux c))),
        (''readonlyPaths'', json_strs (readonlyPaths (oci_linux c))),
        (''seccomp'', seccomp_json (linux_seccomp (oci_linux c)))])]"

definition write_bundle :: "path \<Rightarrow> oci_config \<Rightarrow> fs \<Rightarrow> exn + fs" where
  "write_bundle d cfg fs =
     write_bytes (path_join d ''config.json'') (utf8_encode (dumps_ind 1 0 (config_json cfg))) fs"

section \<open>What a configuration lets a container reach\<close>

definition has_option :: "string \<Rightarrow> mount \<Rightarrow> bool" where
  "has_option opt m \<longleftrightarrow> (case mount_options m of None \<Rightarrow> False | Some os \<Rightarrow> opt \<in> set os)"

definition is_bind :: "mount \<Rightarrow> bool" where
  "is_bind m \<longleftrightarrow> mount_type m = ''bind''"

text \<open>The host paths a container can write: the sources of the bind mounts that are not read-only.\<close>

definition writable_sources :: "oci_config \<Rightarrow> string list" where
  "writable_sources cfg = map mount_source (filter (\<lambda>m. is_bind m \<and> \<not> has_option ''ro'' m) (mounts cfg))"

definition bind_sources :: "oci_config \<Rightarrow> string list" where
  "bind_sources cfg = map mount_source (filter is_bind (mounts cfg))"

definition opt_list :: "'a option \<Rightarrow> 'a list" where
  "opt_list x = (case x of None \<Rightarrow> [] | Some y \<Rightarrow> [y])"

lemma opt_list_simps: "opt_list None = []" "opt_list (Some x) = [x]"
  by (simp_all add: opt_list_def)

text \<open>The hardening every container must have.\<close>

definition hardened :: "oci_config \<Rightarrow> bool" where
  "hardened cfg \<longleftrightarrow>
     root_readonly cfg \<and> noNewPrivileges (oci_process cfg) \<and>
     proc_capabilities (oci_process cfg) =
       \<lparr>bounding = [], effective = [], inheritable = [], permitted = [], ambient = []\<rparr> \<and>
     {''pid'', ''network'', ''ipc'', ''uts'', ''mount''} \<subseteq> set (namespaces (oci_linux cfg)) \<and>
     \<lparr>rlimit_type = ''RLIMIT_CORE'', rlimit_hard = 0, rlimit_soft = 0\<rparr> \<in> set (proc_rlimits (oci_process cfg)) \<and>
     linux_seccomp (oci_linux cfg) = build_seccomp \<and>
     distinct (map destination (mounts cfg)) \<and>
     list_all (\<lambda>m. mount_type m \<noteq> ''proc'' \<longrightarrow> has_option ''nosuid'' m) (mounts cfg) \<and>
     list_all (\<lambda>m. is_bind m \<longrightarrow> has_option ''nodev'' m) (mounts cfg) \<and>
     list_all (\<lambda>m. is_bind m \<and> destination m \<noteq> ''/out'' \<longrightarrow> has_option ''noexec'' m) (mounts cfg) \<and>
     list_all (\<lambda>m. destination m = ''/src'' \<longrightarrow> has_option ''ro'' m) (mounts cfg)"

lemmas mount_defs = base_mounts_def out_mount_def cache_mount_def has_option_def is_bind_def

lemma mounts_build_config [simp]:
  "mounts (build_config args src limits rootfs env uid gid out rw cache terminal cwd) =
     base_mounts src limits @ (case out of None \<Rightarrow> [] | Some d \<Rightarrow> [out_mount d rw])
       @ (case cache of None \<Rightarrow> [] | Some d \<Rightarrow> [cache_mount d])"
  by (simp add: build_config_def Let_def)

lemma build_config_hardening_fields:
  "root_readonly (build_config args src limits rootfs env uid gid out rw cache terminal cwd)"
  "oci_linux (build_config args src limits rootfs env uid gid out rw cache terminal cwd) =
     \<lparr>namespaces = [''pid'', ''network'', ''ipc'', ''uts'', ''mount''],
      maskedPaths = MASKED, readonlyPaths = READONLY, linux_seccomp = build_seccomp\<rparr>"
  "noNewPrivileges (oci_process (build_config args src limits rootfs env uid gid out rw cache terminal cwd))"
  "proc_capabilities (oci_process (build_config args src limits rootfs env uid gid out rw cache terminal cwd)) =
     \<lparr>bounding = [], effective = [], inheritable = [], permitted = [], ambient = []\<rparr>"
  "proc_uid (oci_process (build_config args src limits rootfs env uid gid out rw cache terminal cwd)) = uid"
  "proc_args (oci_process (build_config args src limits rootfs env uid gid out rw cache terminal cwd)) = args"
  by (simp_all add: build_config_def Let_def)

lemma bind_sources_build_config:
  "bind_sources (build_config args src limits rootfs env uid gid out rw cache terminal cwd) =
     map path_str ([src] @ opt_list out @ opt_list cache)"
  by (cases out; cases cache) (simp_all add: bind_sources_def opt_list_def mount_defs)

lemma writable_sources_build_config:
  "writable_sources (build_config args src limits rootfs env uid gid out rw cache terminal cwd) =
     map path_str ((if rw then opt_list out else []) @ opt_list cache)"
  by (cases out; cases cache; cases rw) (simp_all add: writable_sources_def opt_list_def mount_defs)

lemma hardened_build_config:
  "hardened (build_config args src limits rootfs env uid gid out rw cache terminal cwd)"
proof -
  let ?cfg = "build_config args src limits rootfs env uid gid out rw cache terminal cwd"
  have "distinct (map destination (mounts ?cfg))"
    by (cases out; cases cache) (simp_all add: mount_defs)
  moreover have "list_all (\<lambda>m. mount_type m \<noteq> ''proc'' \<longrightarrow> has_option ''nosuid'' m) (mounts ?cfg)"
    by (cases out; cases cache) (simp_all add: mount_defs)
  moreover have "list_all (\<lambda>m. is_bind m \<longrightarrow> has_option ''nodev'' m) (mounts ?cfg)"
    by (cases out; cases cache) (simp_all add: mount_defs)
  moreover have "list_all (\<lambda>m. is_bind m \<and> destination m \<noteq> ''/out'' \<longrightarrow> has_option ''noexec'' m) (mounts ?cfg)"
    by (cases out; cases cache) (simp_all add: mount_defs)
  moreover have "list_all (\<lambda>m. destination m = ''/src'' \<longrightarrow> has_option ''ro'' m) (mounts ?cfg)"
    by (cases out; cases cache) (simp_all add: mount_defs)
  moreover have "\<lparr>rlimit_type = ''RLIMIT_CORE'', rlimit_hard = 0, rlimit_soft = 0\<rparr>
      \<in> set (proc_rlimits (oci_process ?cfg))"
    by (simp add: build_config_def Let_def)
  ultimately show ?thesis
    by (simp add: hardened_def build_config_hardening_fields del: mounts_build_config)
qed

section \<open>Properties\<close>

text \<open>
  Every configuration is hardened, whatever the request: read-only root, no capabilities, no
  new privileges, its own pid, network, ipc, uts and mount namespaces, no core dumps, the guest
  seccomp profile, distinct mount points, \<open>nosuid\<close> on every mount but \<open>/proc\<close>, \<open>nodev\<close> on every
  bind mount, \<open>noexec\<close> on every bind mount but \<open>/out\<close>, and \<open>/src\<close> read-only.
\<close>

theorem build_config_hardened:
  "hardened (build_config args src limits rootfs env uid gid out rw cache terminal cwd)"
  by (rule hardened_build_config)

text \<open>
  Nothing user-controlled reaches a mount source. The host paths bound into a container are
  the staging directory, the output directory and the cache directory it was given, and of these
  only the cache and, when asked for, the output directory can be written from inside.
\<close>

theorem build_config_sources:
  "bind_sources (build_config args src limits rootfs env uid gid out rw cache terminal cwd) =
     map path_str ([src] @ opt_list out @ opt_list cache) \<and>
   writable_sources (build_config args src limits rootfs env uid gid out rw cache terminal cwd) =
     map path_str ((if rw then opt_list out else []) @ opt_list cache)"
  by (simp add: bind_sources_build_config writable_sources_build_config)

text \<open>
  The environment of the container's process is the base environment overridden by the
  language's: each variable once, the language's value where it gives one, the base value
  otherwise.
\<close>

theorem build_config_env:
  assumes "wf_dict env"
  shows "\<exists>d. proc_env (oci_process (build_config args src limits rootfs (Some env) uid gid out rw cache terminal cwd)) =
           map (\<lambda>(k, v). k @ ''='' @ v) d \<and>
         wf_dict d \<and> dget d = dget base_env ++ dget env"
proof (intro exI conjI)
  show "proc_env (oci_process (build_config args src limits rootfs (Some env) uid gid out rw cache terminal cwd)) =
      map (\<lambda>(k, v). k @ ''='' @ v) (dupdate base_env env)"
    by (simp add: build_config_def Let_def)
  show "wf_dict (dupdate base_env env)"
    by (intro wf_dupdate) (simp add: base_env_def wf_dict_def)
  show "dget (dupdate base_env env) = dget base_env ++ dget env"
    using assms by (intro dupdate_distinct) (simp add: wf_dict_def)
qed

theorem build_config_env_witness:
  "wf_dict [(''HOME'', ''/box''), (''GOCACHE'', ''/cache'')] \<and>
   (\<exists>d. proc_env (oci_process (build_config [''p''] [''s''] DEFAULT_LIMITS [''r'']
          (Some [(''HOME'', ''/box''), (''GOCACHE'', ''/cache'')]) 0 0 None False None False ''/box'')) =
        map (\<lambda>(k, v). k @ ''='' @ v) d \<and> wf_dict d \<and>
        dget d = dget base_env ++ dget [(''HOME'', ''/box''), (''GOCACHE'', ''/cache'')])"
proof -
  have w: "wf_dict [(''HOME'', ''/box''), (''GOCACHE'', ''/cache'')]" by (simp add: wf_dict_def)
  show ?thesis
    using build_config_env [OF w, of "[''p'']" "[''s'']" DEFAULT_LIMITS "[''r'']" 0 0 None False None False "''/box''"] w
    by blast
qed

end
