(* ===== verification/Window.thy ===== *)
theory Window
  imports Prelude
begin

text \<open>
  The interface both per-identity trackers rest on: a queue of time-stamped events, oldest first,
  whose expired head is popped. A locale states what the popping loop promises; its lemmas say
  that on a queue in time order popping keeps exactly the events of the window.
\<close>

section \<open>Event queues\<close>

locale sliding_window =
  fixes stamp :: "'e \<Rightarrow> real"
    and span :: real
    and prune :: "real \<Rightarrow> 'e list \<Rightarrow> 'e list"
  assumes prune_suffix: "\<exists>ds. evs = ds @ prune now evs \<and> (\<forall>d \<in> set ds. span \<le> now - stamp d)"
    and prune_head: "prune now evs = e # es \<Longrightarrow> now - stamp e < span"
begin

definition in_order :: "'e list \<Rightarrow> bool" where
  "in_order evs \<longleftrightarrow> sorted (map stamp evs)"

definition fresh :: "real \<Rightarrow> 'e \<Rightarrow> bool" where
  "fresh now e \<longleftrightarrow> now - stamp e < span"

lemma prune_subset: "set (prune now evs) \<subseteq> set evs"
  using prune_suffix [of evs now] by (metis Un_iff set_append subsetI)

lemma prune_in_order: "in_order evs \<Longrightarrow> in_order (prune now evs)"
  using prune_suffix [of evs now] unfolding in_order_def
  by (metis map_append sorted_append)

lemma prune_all_fresh:
  assumes "in_order evs" "e \<in> set (prune now evs)"
  shows "fresh now e"
proof (cases "prune now evs")
  case (Cons x xs)
  have "in_order (x # xs)" using prune_in_order [OF assms(1)] Cons by metis
  then have "stamp x \<le> stamp e" using assms(2) Cons by (auto simp: in_order_def)
  with prune_head [OF Cons] show ?thesis by (simp add: fresh_def)
qed (use assms(2) in simp)

lemma prune_filter:
  assumes "in_order evs"
  shows "prune now evs = filter (fresh now) evs"
proof -
  obtain ds where ds: "evs = ds @ prune now evs" "\<forall>d \<in> set ds. span \<le> now - stamp d"
    using prune_suffix by blast
  have "filter (fresh now) ds = []"
    using ds(2) by (auto simp: fresh_def filter_empty_conv)
  moreover have "filter (fresh now) (prune now evs) = prune now evs"
    using prune_all_fresh [OF assms] by (simp add: filter_id_conv)
  ultimately show ?thesis by (metis append_Nil ds(1) filter_append)
qed

lemma prune_prune:
  assumes "in_order evs" "now \<le> later"
  shows "prune later (prune now evs) = prune later evs"
  using assms prune_in_order
  by (auto simp: prune_filter fresh_def intro!: filter_cong)

lemma prune_gone:
  assumes "in_order evs" "\<And>e. e \<in> set evs \<Longrightarrow> stamp e + span \<le> now"
  shows "prune now evs = []"
proof -
  have "\<not> fresh now e" if "e \<in> set evs" for e
    using assms(2) [OF that] by (simp add: fresh_def)
  with assms(1) show ?thesis by (simp add: prune_filter filter_empty_conv)
qed

lemma in_order_snoc:
  "in_order evs \<Longrightarrow> (\<And>e. e \<in> set evs \<Longrightarrow> stamp e \<le> stamp x) \<Longrightarrow> in_order (evs @ [x])"
  by (auto simp: in_order_def sorted_append)

text \<open>
  A queue \<open>w\<close> tracks the full history \<open>h\<close> of its events at clock \<open>c\<close> when the history is in time
  order, not in the future, and \<open>w\<close> is what is left of it after an expired prefix was dropped.
\<close>

definition tracks :: "real \<Rightarrow> 'e list \<Rightarrow> 'e list \<Rightarrow> bool" where
  "tracks c h w \<longleftrightarrow> in_order h \<and> (\<forall>e \<in> set h. stamp e \<le> c) \<and>
     (\<exists>ds. h = ds @ w \<and> (\<forall>d \<in> set ds. span \<le> c - stamp d))"

lemma tracks_Nil [simp]: "tracks c [] []"
  by (simp add: tracks_def in_order_def)

lemma tracks_later: "tracks c h w \<Longrightarrow> c \<le> c' \<Longrightarrow> tracks c' h w"
  unfolding tracks_def by force

lemma tracks_in_order: "tracks c h w \<Longrightarrow> in_order w"
  by (auto simp: tracks_def in_order_def sorted_append)

lemma tracks_prune:
  assumes "tracks c h w" "c \<le> now"
  shows "tracks now h (prune now w)"
proof -
  obtain ds where ds: "h = ds @ w" "\<forall>d \<in> set ds. span \<le> c - stamp d"
    using assms(1) by (auto simp: tracks_def)
  obtain es where es: "w = es @ prune now w" "\<forall>d \<in> set es. span \<le> now - stamp d"
    using prune_suffix by blast
  have "h = (ds @ es) @ prune now w" using ds(1) es(1) by simp
  moreover have "\<forall>d \<in> set (ds @ es). span \<le> now - stamp d"
    using ds(2) es(2) assms(2) by force
  moreover have "in_order h" "\<forall>e \<in> set h. stamp e \<le> now"
    using assms by (force simp: tracks_def)+
  ultimately show ?thesis unfolding tracks_def by blast
qed

lemma tracks_fresh:
  assumes "tracks c h w" "c \<le> now"
  shows "prune now w = filter (fresh now) h"
proof -
  obtain ds where ds: "h = ds @ prune now w" "\<forall>d \<in> set ds. span \<le> now - stamp d"
    using tracks_prune [OF assms] by (auto simp: tracks_def)
  have "filter (fresh now) ds = []"
    using ds(2) by (auto simp: fresh_def filter_empty_conv)
  moreover have "filter (fresh now) (prune now w) = prune now w"
    using prune_all_fresh [OF tracks_in_order [OF assms(1)]] by (simp add: filter_id_conv)
  ultimately show ?thesis by (metis append_Nil ds(1) filter_append)
qed

lemma tracks_snoc:
  assumes "tracks c h w" "c \<le> stamp x"
  shows "tracks (stamp x) (h @ [x]) (w @ [x])"
  using tracks_later [OF assms] assms(2) unfolding tracks_def
  by (auto intro: in_order_snoc)

end

end
