(* ===== verification/Ratelimit.thy ===== *)
theory Ratelimit
  imports Window
begin

text \<open>
  \<^verbatim>\<open>app/api/ratelimit.py\<close>: the in-memory per-identity rate limiter. Its two maps are
  \<open>defaultdict\<close>s, so a read by subscript creates the key; the model writes the key where the
  source reads it. The clock is an argument of \<open>acquire\<close>. An operation that raises still returns
  the state, because the window has been pruned by then.
\<close>

section \<open>State and operations\<close>

definition WINDOW_S :: real where
  "WINDOW_S = 60"

datatype RateLimited = RateLimited (retry_after: int) (reason: string)

record RateLimiter =
  per_min :: int
  max_inflight :: int
  events :: "string \<Rightarrow> real list option"
  inflight :: "string \<Rightarrow> int option"

definition new_limiter :: "int \<Rightarrow> int \<Rightarrow> RateLimiter" where
  "new_limiter p m = \<lparr>per_min = p, max_inflight = m, events = (\<lambda>_. None), inflight = (\<lambda>_. None)\<rparr>"

lemma new_limiter_fields [simp]:
  "per_min (new_limiter p m) = p" "max_inflight (new_limiter p m) = m"
  "events (new_limiter p m) = (\<lambda>_. None)" "inflight (new_limiter p m) = (\<lambda>_. None)"
  by (simp_all add: new_limiter_def)

definition limiter_enabled :: "RateLimiter \<Rightarrow> bool" where
  "limiter_enabled l \<longleftrightarrow> per_min l > 0 \<or> max_inflight l > 0"

definition events_of :: "RateLimiter \<Rightarrow> string \<Rightarrow> real list" where
  "events_of l i = (case events l i of None \<Rightarrow> [] | Some w \<Rightarrow> w)"

definition inflight_of :: "RateLimiter \<Rightarrow> string \<Rightarrow> int" where
  "inflight_of l i = (case inflight l i of None \<Rightarrow> 0 | Some n \<Rightarrow> n)"

text \<open>\<open>while window and now - window[0] >= WINDOW_S: window.popleft()\<close>.\<close>

fun pop_expired :: "real \<Rightarrow> real list \<Rightarrow> real list" where
  "pop_expired now [] = []"
| "pop_expired now (t # w) = (if now - t \<ge> WINDOW_S then pop_expired now w else t # w)"

definition acquire :: "RateLimiter \<Rightarrow> string \<Rightarrow> real \<Rightarrow> (RateLimited + unit) \<times> RateLimiter" where
  "acquire l i now =
     (let w = pop_expired now (events_of l i);
          l1 = (if per_min l > 0 then l\<lparr>events := (events l)(i \<mapsto> w)\<rparr> else l);
          l2 = (if max_inflight l > 0 then l1\<lparr>inflight := (inflight l1)(i \<mapsto> inflight_of l1 i)\<rparr> else l1);
          l3 = (if per_min l > 0 then l2\<lparr>events := (events l2)(i \<mapsto> events_of l2 i @ [now])\<rparr> else l2);
          l4 = l3\<lparr>inflight := (inflight l3)(i \<mapsto> inflight_of l3 i + 1)\<rparr>
      in if per_min l > 0 \<and> int (length w) \<ge> per_min l
         then (Inl (RateLimited (max 1 (py_trunc (WINDOW_S - (now - hd w)))) ''request rate limit exceeded''), l1)
         else if max_inflight l > 0 \<and> inflight_of l1 i \<ge> max_inflight l
         then (Inl (RateLimited 1 ''too many concurrent runs''), l2)
         else (Inr (), l4))"

definition limiter_gc :: "RateLimiter \<Rightarrow> string \<Rightarrow> RateLimiter" where
  "limiter_gc l i =
     (if inflight_of l i \<le> 0 then
        (let l1 = l\<lparr>inflight := (inflight l)(i := None)\<rparr>
         in if events_of l1 i = [] then l1\<lparr>events := (events l1)(i := None)\<rparr> else l1)
      else l)"

definition release :: "RateLimiter \<Rightarrow> string \<Rightarrow> RateLimiter" where
  "release l i =
     limiter_gc (if inflight_of l i > 0 then l\<lparr>inflight := (inflight l)(i \<mapsto> inflight_of l i - 1)\<rparr> else l) i"

record limiter_stats =
  rl_enabled :: bool
  rl_per_min :: int
  rl_max_inflight :: int

definition limiter_stats :: "RateLimiter \<Rightarrow> limiter_stats" where
  "limiter_stats l = \<lparr>rl_enabled = limiter_enabled l, rl_per_min = per_min l, rl_max_inflight = max_inflight l\<rparr>"

lemma new_limiter_reads [simp]:
  "events_of (new_limiter p m) i = []" "inflight_of (new_limiter p m) i = 0"
  by (simp_all add: events_of_def inflight_of_def)

section \<open>The event window\<close>

lemma pop_expired_suffix:
  "\<exists>ds. w = ds @ pop_expired now w \<and> (\<forall>d \<in> set ds. WINDOW_S \<le> now - d)"
proof (induction w)
  case (Cons t w)
  then obtain ds where "w = ds @ pop_expired now w" "\<forall>d \<in> set ds. WINDOW_S \<le> now - d" by blast
  then show ?case
    by (cases "now - t \<ge> WINDOW_S") (simp_all add: exI [of _ "t # ds"])
qed simp

lemma pop_expired_head: "pop_expired now w = t # ts \<Longrightarrow> now - t < WINDOW_S"
  by (induction w) (auto split: if_splits)

interpretation rlw: sliding_window "\<lambda>t. t" WINDOW_S pop_expired
  by unfold_locales (rule pop_expired_suffix, erule pop_expired_head)

section \<open>Reading the state after an operation\<close>

lemma acquire_config [simp, frame_simps]:
  "per_min (snd (acquire l i now)) = per_min l"
  "max_inflight (snd (acquire l i now)) = max_inflight l"
  by (simp_all add: acquire_def Let_def)

lemma release_config [simp, frame_simps]:
  "per_min (release l i) = per_min l" "max_inflight (release l i) = max_inflight l"
  by (simp_all add: release_def limiter_gc_def Let_def)

lemma reads_of_updates [simp, frame_simps]:
  "inflight_of (l\<lparr>events := e\<rparr>) i = inflight_of l i"
  "events_of (l\<lparr>inflight := f\<rparr>) i = events_of l i"
  by (simp_all add: inflight_of_def events_of_def)

lemma acquire_ok_iff:
  "fst (acquire l i now) = Inr () \<longleftrightarrow>
     (per_min l > 0 \<longrightarrow> int (length (pop_expired now (events_of l i))) < per_min l) \<and>
     (max_inflight l > 0 \<longrightarrow> inflight_of l i < max_inflight l)"
  by (auto simp: acquire_def Let_def inflight_of_def)

lemma acquire_inflight:
  "inflight_of (snd (acquire l i now)) j =
     inflight_of l j + (if j = i \<and> fst (acquire l i now) = Inr () then 1 else 0)"
  by (auto simp: acquire_def Let_def inflight_of_def)

lemma acquire_events:
  "events_of (snd (acquire l i now)) j =
     (if j = i \<and> per_min l > 0
      then pop_expired now (events_of l i) @ (if fst (acquire l i now) = Inr () then [now] else [])
      else events_of l j)"
  by (auto simp: acquire_def Let_def events_of_def)

lemma release_inflight:
  "inflight_of (release l i) j =
     (if j = i then max 0 (inflight_of l i - 1) else inflight_of l j)"
  by (auto simp: release_def limiter_gc_def Let_def inflight_of_def split: option.splits)

lemma release_events [simp]: "events_of (release l i) j = events_of l j"
  by (auto simp: release_def limiter_gc_def Let_def events_of_def inflight_of_def)

section \<open>The contract of a limiter\<close>

text \<open>
  What the request handlers rely on. \<open>held\<close> is the number of slots an identity holds: a granted
  \<open>acquire\<close> takes one, a refused one takes none, \<open>release\<close> gives one back, and no operation
  touches another identity.
\<close>

locale slot_limiter =
  fixes take :: "'s \<Rightarrow> string \<Rightarrow> real \<Rightarrow> (RateLimited + unit) \<times> 's"
    and give :: "'s \<Rightarrow> string \<Rightarrow> 's"
    and held :: "'s \<Rightarrow> string \<Rightarrow> int"
  assumes take_held: "held (snd (take s i now)) j = held s j + (if j = i \<and> fst (take s i now) = Inr () then 1 else 0)"
    and give_held: "held (give s i) j = (if j = i then max 0 (held s i - 1) else held s j)"
begin

lemma take_refused: "fst (take s i now) = Inl e \<Longrightarrow> held (snd (take s i now)) = held s"
  by (rule ext) (simp add: take_held)

lemma take_give:
  assumes "0 \<le> held s i" "fst (take s i now) = Inr ()"
  shows "held (give (snd (take s i now)) i) = held s"
  by (rule ext) (simp add: take_held give_held assms)

text \<open>A handler that takes a slot, does work that leaves the slots alone, and gives the slot back.\<close>

lemma bracket:
  assumes "0 \<le> held s i" "fst (take s i now) = Inr ()" "held s' = held (snd (take s i now))"
  shows "held (give s' i) = held s"
proof
  fix j
  show "held (give s' i) j = held s j"
    using fun_cong [OF assms(3), of i] fun_cong [OF assms(3), of j] assms(1,2)
    by (simp add: take_held give_held)
qed

lemma held_nonneg_take: "(\<And>j. 0 \<le> held s j) \<Longrightarrow> 0 \<le> held (snd (take s i now)) j"
  by (simp add: take_held)

lemma held_nonneg_give: "(\<And>j. 0 \<le> held s j) \<Longrightarrow> 0 \<le> held (give s i) j"
  by (simp add: give_held)

end

text \<open>A limiter with a cap on the slots of one identity; a cap of zero or less is none.\<close>

locale capped_limiter = slot_limiter +
  fixes cap :: "'s \<Rightarrow> int"
  assumes take_below: "fst (take s i now) = Inr () \<Longrightarrow> 0 < cap s \<Longrightarrow> held s i < cap s"
    and cap_take: "cap (snd (take s i now)) = cap s"
    and cap_give: "cap (give s i) = cap s"
begin

definition caps_hold :: "'s \<Rightarrow> bool" where
  "caps_hold s \<longleftrightarrow> (\<forall>j. 0 \<le> held s j \<and> (0 < cap s \<longrightarrow> held s j \<le> cap s))"

lemma caps_hold_take: "caps_hold s \<Longrightarrow> caps_hold (snd (take s i now))"
  using take_below [of s i now] by (auto simp: caps_hold_def take_held cap_take)

lemma caps_hold_give: "caps_hold s \<Longrightarrow> caps_hold (give s i)"
  by (auto simp: caps_hold_def give_held cap_give intro: order_trans [of _ "held s i"])

end

interpretation rl: capped_limiter acquire release inflight_of max_inflight
  by unfold_locales (auto simp: acquire_inflight release_inflight acquire_ok_iff)

section \<open>Runs of the limiter\<close>

text \<open>
  A run is a list of operations with the times the clock showed. Its log holds the admitted
  requests, latest last.
\<close>

datatype rl_op = Acquire string | Release string

fun rl_step :: "RateLimiter \<Rightarrow> real \<times> rl_op \<Rightarrow> RateLimiter" where
  "rl_step l (t, Acquire i) = snd (acquire l i t)"
| "rl_step l (t, Release i) = release l i"

fun rl_admits :: "RateLimiter \<Rightarrow> real \<times> rl_op \<Rightarrow> (real \<times> string) list" where
  "rl_admits l (t, Acquire i) = (if fst (acquire l i t) = Inr () then [(t, i)] else [])"
| "rl_admits l (t, Release i) = []"

fun rl_run :: "RateLimiter \<Rightarrow> (real \<times> rl_op) list \<Rightarrow> RateLimiter" where
  "rl_run l [] = l"
| "rl_run l (x # xs) = rl_run (rl_step l x) xs"

fun rl_log :: "RateLimiter \<Rightarrow> (real \<times> rl_op) list \<Rightarrow> (real \<times> string) list" where
  "rl_log l [] = []"
| "rl_log l (x # xs) = rl_admits l x @ rl_log (rl_step l x) xs"

lemma rl_run_append: "rl_run l (xs @ ys) = rl_run (rl_run l xs) ys"
  by (induction xs arbitrary: l) auto

lemma rl_log_append: "rl_log l (xs @ ys) = rl_log l xs @ rl_log (rl_run l xs) ys"
  by (induction xs arbitrary: l) auto

lemma rl_step_config [simp, frame_simps]:
  "per_min (rl_step l x) = per_min l" "max_inflight (rl_step l x) = max_inflight l"
  by (cases "(l, x)" rule: rl_step.cases; simp)+

lemma rl_run_config [simp, frame_simps]:
  "per_min (rl_run l xs) = per_min l" "max_inflight (rl_run l xs) = max_inflight l"
  by (induction xs arbitrary: l) auto

lemma rl_step_within: "rl.caps_hold l \<Longrightarrow> rl.caps_hold (rl_step l x)"
  by (cases "(l, x)" rule: rl_step.cases) (auto intro: rl.caps_hold_take rl.caps_hold_give)

lemma rl_run_within: "rl.caps_hold l \<Longrightarrow> rl.caps_hold (rl_run l xs)"
  by (induction xs arbitrary: l) (auto intro: rl_step_within)

text \<open>The times at which an identity was admitted.\<close>

definition admitted_at :: "string \<Rightarrow> (real \<times> string) list \<Rightarrow> real list" where
  "admitted_at i lg = map fst (filter (\<lambda>(t, j). j = i) lg)"

lemma admitted_at_append: "admitted_at i (a @ b) = admitted_at i a @ admitted_at i b"
  by (simp add: admitted_at_def)

lemma admitted_at_simps [simp]:
  "admitted_at i [] = []" "admitted_at i [(t, j)] = (if j = i then [t] else [])"
  by (simp_all add: admitted_at_def)

definition in_window :: "real \<Rightarrow> real list \<Rightarrow> real list" where
  "in_window T ts = filter (\<lambda>t. T - WINDOW_S < t \<and> t \<le> T) ts"

text \<open>
  The invariant that ties the state to the log at clock \<open>c\<close>: an identity's window tracks its
  admissions, and no window of the log has more than \<open>per_min\<close> of them.
\<close>

definition rl_tied :: "RateLimiter \<Rightarrow> (real \<times> string) list \<Rightarrow> real \<Rightarrow> string \<Rightarrow> bool" where
  "rl_tied l lg c i \<longleftrightarrow> rlw.tracks c (admitted_at i lg) (events_of l i) \<and>
     (\<forall>T. int (length (in_window T (admitted_at i lg))) \<le> per_min l)"

lemma rl_tied_later: "rl_tied l lg c i \<Longrightarrow> c \<le> c' \<Longrightarrow> rl_tied l lg c' i"
  unfolding rl_tied_def using rlw.tracks_later by blast

lemma in_window_snoc:
  assumes "\<And>T. int (length (in_window T ts)) \<le> p"
    and "int (length (filter (rlw.fresh now) ts)) < p"
  shows "int (length (in_window T (ts @ [now]))) \<le> p"
proof (cases "T - WINDOW_S < now \<and> now \<le> T")
  case True
  have "length (in_window T ts) \<le> length (filter (rlw.fresh now) ts)"
    unfolding in_window_def using True by (induction ts) (auto simp: rlw.fresh_def)
  with True assms(2) show ?thesis by (simp add: in_window_def)
qed (use assms(1) in \<open>auto simp: in_window_def\<close>)

lemma rl_tied_acquire:
  assumes tied: "rl_tied l lg c i" and pos: "0 < per_min l" and now: "c \<le> now"
  shows "rl_tied (snd (acquire l j now)) (lg @ rl_admits l (now, Acquire j)) now i"
proof (cases "j = i")
  case False
  with rl_tied_later [OF tied now] show ?thesis
    by (simp add: rl_tied_def acquire_events admitted_at_append)
next
  case True
  have tr: "rlw.tracks c (admitted_at i lg) (events_of l i)"
    and cap: "\<And>T. int (length (in_window T (admitted_at i lg))) \<le> per_min l"
    using tied by (auto simp: rl_tied_def)
  note popped = rlw.tracks_prune [OF tr now]
  show ?thesis
  proof (cases "fst (acquire l i now) = Inr ()")
    case admitted: True
    then have "int (length (filter (rlw.fresh now) (admitted_at i lg))) < per_min l"
      using pos rlw.tracks_fresh [OF tr now] by (simp add: acquire_ok_iff)
    then have "int (length (in_window T (admitted_at i lg @ [now]))) \<le> per_min l" for T
      by (rule in_window_snoc [OF cap])
    with True admitted pos rlw.tracks_snoc [OF popped, of now] show ?thesis
      by (simp add: rl_tied_def acquire_events admitted_at_append)
  next
    case False
    with True pos cap popped show ?thesis
      by (simp add: rl_tied_def acquire_events admitted_at_append)
  qed
qed

lemma rl_tied_step:
  assumes "rl_tied l lg c i" "0 < per_min l" "c \<le> fst x"
  shows "rl_tied (rl_step l x) (lg @ rl_admits l x) (fst x) i"
proof (cases "(l, x)" rule: rl_step.cases)
  case (1 l' t j)
  then show ?thesis using rl_tied_acquire [OF assms(1,2)] assms(3) by simp
next
  case (2 l' t j)
  then show ?thesis using rl_tied_later [OF assms(1,3)] by (simp add: rl_tied_def)
qed

lemma rl_tied_run:
  assumes "rl_tied l lg c i" "0 < per_min l" "sorted (map fst xs)" "\<forall>x \<in> set xs. c \<le> fst x"
  shows "rl_tied (rl_run l xs) (lg @ rl_log l xs) (fold (\<lambda>x _. fst x) xs c) i"
  using assms
proof (induction xs arbitrary: l lg c)
  case (Cons x xs)
  then have "rl_tied (rl_step l x) (lg @ rl_admits l x) (fst x) i"
    by (intro rl_tied_step) auto
  from Cons.IH [OF this] Cons.prems show ?case by simp
qed simp

lemma rl_tied_new: "0 \<le> p \<Longrightarrow> rl_tied (new_limiter p m) [] c i"
  by (simp add: rl_tied_def in_window_def)

section \<open>Properties\<close>

text \<open>
  C11. The request-rate cap. Over any run with a clock that does not go back, and for any identity
  and any instant, the limiter admitted at most \<open>per_min\<close> requests of that identity in the sixty
  seconds that end there.
\<close>

theorem rate_cap:
  assumes "0 < p" and "sorted (map fst ops)"
  shows "int (length (in_window T (admitted_at i (rl_log (new_limiter p m) ops)))) \<le> p"
proof -
  define c where "c = (case ops of [] \<Rightarrow> 0 | x # _ \<Rightarrow> fst x)"
  have "\<forall>x \<in> set ops. c \<le> fst x"
    using assms(2) by (cases ops) (force simp: c_def)+
  moreover have pm: "per_min (new_limiter p m) = p" by (simp add: new_limiter_def)
  ultimately have "rl_tied (rl_run (new_limiter p m) ops) ([] @ rl_log (new_limiter p m) ops)
      (fold (\<lambda>x _. fst x) ops c) i"
    using assms by (intro rl_tied_run rl_tied_new) auto
  then show ?thesis by (simp add: rl_tied_def pm)
qed

theorem rate_cap_witness:
  "int (length (in_window 2 (admitted_at ''a'' (rl_log (new_limiter 1 0)
     [(0, Acquire ''a''), (1, Acquire ''a''), (2, Acquire ''b'')])))) \<le> 1"
  by (rule rate_cap) simp_all

text \<open>
  C12. The concurrency cap. Over any run of a fresh limiter an identity holds at least zero and, when
  \<open>max_inflight\<close> is positive, at most \<open>max_inflight\<close> slots.
\<close>

theorem inflight_cap:
  "0 \<le> inflight_of (rl_run (new_limiter p m) ops) i \<and>
   inflight_of (rl_run (new_limiter p m) ops) i \<le> (if 0 < m then m else inflight_of (rl_run (new_limiter p m) ops) i)"
proof -
  have "rl.caps_hold (new_limiter p m)"
    by (simp add: rl.caps_hold_def new_limiter_def inflight_of_def)
  then have "rl.caps_hold (rl_run (new_limiter p m) ops)" by (rule rl_run_within)
  then show ?thesis by (auto simp: rl.caps_hold_def)
qed

text \<open>
  A refusal. \<open>acquire\<close> refuses exactly when the pruned window is full or the identity is at its
  concurrency cap; the refusal names the right reason, asks to wait between 1 and 60 seconds, and
  leaves every identity's slots and every unexpired event as they were.
\<close>

theorem acquire_refusal:
  assumes "rlw.in_order (events_of l i)" and "\<forall>t \<in> set (events_of l i). t \<le> now"
  shows "(case fst (acquire l i now) of
      Inr _ \<Rightarrow> \<not> (0 < per_min l \<and> per_min l \<le> int (length (filter (rlw.fresh now) (events_of l i)))) \<and>
               \<not> (0 < max_inflight l \<and> max_inflight l \<le> inflight_of l i)
    | Inl e \<Rightarrow> 1 \<le> retry_after e \<and> retry_after e \<le> 60 \<and>
        inflight_of (snd (acquire l i now)) = inflight_of l \<and>
        events_of (snd (acquire l i now)) i =
          (if 0 < per_min l then filter (rlw.fresh now) (events_of l i) else events_of l i) \<and>
        (if 0 < per_min l \<and> per_min l \<le> int (length (filter (rlw.fresh now) (events_of l i)))
         then reason e = ''request rate limit exceeded''
         else max_inflight l \<le> inflight_of l i \<and> 0 < max_inflight l \<and>
           reason e = ''too many concurrent runs'' \<and> retry_after e = 1))"
proof -
  let ?w = "pop_expired now (events_of l i)"
  have w: "?w = filter (rlw.fresh now) (events_of l i)"
    by (rule rlw.prune_filter [OF assms(1)])
  have hd: "0 \<le> now - hd ?w \<and> now - hd ?w < WINDOW_S" if "?w \<noteq> []"
    using that assms(2) rlw.prune_subset [of now "events_of l i"] pop_expired_head [of now "events_of l i"]
    by (cases ?w) auto
  have r: "1 \<le> max 1 (py_trunc (WINDOW_S - (now - hd ?w))) \<and> max 1 (py_trunc (WINDOW_S - (now - hd ?w))) \<le> 60"
    if "?w \<noteq> []"
    using hd [OF that] by (auto simp: py_trunc_def WINDOW_S_def floor_le_iff)
  show ?thesis
  proof (cases "0 < per_min l \<and> per_min l \<le> int (length ?w)")
    case True
    then have "fst (acquire l i now) =
        Inl (RateLimited (max 1 (py_trunc (WINDOW_S - (now - hd ?w)))) ''request rate limit exceeded'')"
      and "?w \<noteq> []"
      by (auto simp: acquire_def Let_def)
    with True r show ?thesis
      by (simp add: w [symmetric] rl.take_refused acquire_events)
  next
    case False
    then have "fst (acquire l i now) = (if 0 < max_inflight l \<and> max_inflight l \<le> inflight_of l i
        then Inl (RateLimited 1 ''too many concurrent runs'') else Inr ())"
      by (auto simp: acquire_def Let_def)
    with False show ?thesis
      by (auto simp: w [symmetric] acquire_events rl.take_refused)
  qed
qed

definition full_limiter :: RateLimiter where
  "full_limiter = (new_limiter 1 0)\<lparr>events := [''a'' \<mapsto> [1 / 2]]\<rparr>"

theorem acquire_refusal_witness:
  "retry_after (projl (fst (acquire full_limiter ''a'' (586 / 10)))) = 1 \<and>
   reason (projl (fst (acquire full_limiter ''a'' (586 / 10)))) = ''request rate limit exceeded'' \<and>
   inflight_of (snd (acquire full_limiter ''a'' (586 / 10))) = inflight_of full_limiter"
proof -
  have e: "events_of full_limiter ''a'' = [1 / 2]" by (simp add: full_limiter_def events_of_def)
  have a: "fst (acquire full_limiter ''a'' (586 / 10)) = Inl (RateLimited 1 ''request rate limit exceeded'')"
    by (simp add: acquire_def Let_def e WINDOW_S_def py_trunc_def) (simp add: full_limiter_def)
  show ?thesis
    using acquire_refusal [of full_limiter "''a''" "586 / 10"] a
    by (simp add: e rlw.in_order_def)
qed

text \<open>
  The advertised wait can be too short. There is a limiter a client can bring about that
  refuses a request with a retry time, and refuses the same client again after exactly that time:
  the remaining time is truncated, not rounded up.
\<close>

theorem retry_after_too_short:
  "\<exists>ops now e. sorted (map fst ops) \<and>
     fst (acquire (rl_run (new_limiter 1 0) ops) ''a'' now) = Inl e \<and>
     fst (acquire (snd (acquire (rl_run (new_limiter 1 0) ops) ''a'' now)) ''a''
            (now + of_int (retry_after e))) \<noteq> Inr ()"
proof (intro exI conjI)
  let ?l = "rl_run (new_limiter 1 0) [(1 / 2, Acquire ''a''), (1, Release ''a'')]"
  have e: "events_of ?l ''a'' = [1 / 2]"
    by (simp add: acquire_events acquire_ok_iff)
  show a: "fst (acquire ?l ''a'' (586 / 10)) = Inl (RateLimited 1 ''request rate limit exceeded'')"
    by (simp add: acquire_def Let_def e WINDOW_S_def py_trunc_def del: rl_run.simps)
  show "fst (acquire (snd (acquire ?l ''a'' (586 / 10))) ''a''
      (586 / 10 + of_int (retry_after (RateLimited 1 ''request rate limit exceeded'')))) \<noteq> Inr ()"
    by (simp add: acquire_ok_iff acquire_events e a WINDOW_S_def del: rl_run.simps)
qed simp

lemma events_of_ne: "events_of l i \<noteq> [] \<Longrightarrow> events l i \<noteq> None"
  by (auto simp: events_of_def split: option.splits)

lemma events_other [simp]:
  "j \<noteq> i \<Longrightarrow> events (snd (acquire l i t)) j = events l j"
  "j \<noteq> i \<Longrightarrow> events (release l i) j = events l j"
  by (auto simp: acquire_def release_def limiter_gc_def Let_def)

text \<open>Every entry of the window map is non-empty and no run is in flight.\<close>

definition idle_live :: "RateLimiter \<Rightarrow> bool" where
  "idle_live l \<longleftrightarrow> 0 < per_min l \<and>
     (\<forall>j. (events l j \<noteq> None \<longrightarrow> events_of l j \<noteq> []) \<and> inflight_of l j = 0)"

lemma one_request_events:
  assumes "idle_live l"
  shows "idle_live (release (snd (acquire l i t)) i) \<and>
    dom (events (release (snd (acquire l i t)) i)) = insert i (dom (events l))"
proof -
  let ?l = "release (snd (acquire l i t)) i"
  have idle: "inflight_of l j = 0" and pos: "0 < per_min l" for j
    using assms by (auto simp: idle_live_def)
  have ne: "events_of ?l i \<noteq> []"
    using pos by (auto simp: acquire_events acquire_ok_iff idle)
  have other: "events ?l j = events l j" "events_of ?l j = events_of l j" if "j \<noteq> i" for j
    using that by (simp_all add: acquire_events)
  have "dom (events ?l) = insert i (dom (events l))"
  proof (rule set_eqI)
    fix j
    show "j \<in> dom (events ?l) \<longleftrightarrow> j \<in> insert i (dom (events l))"
      using events_of_ne [OF ne] other(1) [of j] by (cases "j = i") (simp_all add: domIff)
  qed
  moreover have "idle_live ?l"
    unfolding idle_live_def
  proof (intro conjI allI impI)
    fix j
    assume "events ?l j \<noteq> None"
    then show "events_of ?l j \<noteq> []"
      using ne other assms unfolding idle_live_def by (cases "j = i") metis+
  next
    fix j
    show "inflight_of ?l j = 0" by (simp add: release_inflight acquire_inflight idle)
  qed (use pos in simp)
  ultimately show ?thesis by blast
qed

definition one_request_each :: "real \<Rightarrow> string list \<Rightarrow> (real \<times> rl_op) list" where
  "one_request_each t ids = concat (map (\<lambda>i. [(t, Acquire i), (t, Release i)]) ids)"

lemma one_request_each_events:
  "idle_live l \<Longrightarrow> dom (events (rl_run l (one_request_each t ids))) = dom (events l) \<union> set ids"
proof (induction ids arbitrary: l)
  case (Cons i ids)
  let ?l = "release (snd (acquire l i t)) i"
  have "rl_run l (one_request_each t (i # ids)) = rl_run ?l (one_request_each t ids)"
    by (simp add: one_request_each_def)
  with one_request_events [OF Cons.prems, of i t] Cons.IH [of ?l] show ?case by auto
qed (simp add: one_request_each_def)

text \<open>
  The window map keeps one entry for every caller there ever was. After each of a list of
  identities made one request that finished, every one of them still has its entry, although no run
  is in flight and however long ago it was: \<open>_gc\<close> drops an entry only when its window is empty,
  and it does not expire events.
\<close>

theorem window_map_grows:
  assumes "0 < p"
  shows "dom (events (rl_run (new_limiter p m) (one_request_each t ids))) = set ids"
proof -
  have "idle_live (new_limiter p m)" using assms by (simp add: idle_live_def)
  from one_request_each_events [OF this] show ?thesis by simp
qed

theorem window_map_grows_witness:
  "dom (events (rl_run (new_limiter 5 0) (one_request_each 0 [''a'', ''b'', ''c'']))) = {''a'', ''b'', ''c''}"
  using window_map_grows [of 5 0 0 "[''a'', ''b'', ''c'']"] by simp

end
