(* ===== verification/Results.thy ===== *)
theory Results
  imports Files RunLimits
begin

text \<open>
  The two data classes of \<^verbatim>\<open>app/executor/runner.py\<close> that the other components exchange: what
  a run is asked for and what it produced.
\<close>

record ExecutionResult =
  stdout :: string
  stderr :: string
  exit_code :: "int option"
  timed_out :: bool
  truncated_stdout :: bool
  truncated_stderr :: bool
  wall_time_ms :: int
  error :: "string option"
  stage :: string

definition new_result :: ExecutionResult where
  "new_result = \<lparr>stdout = [], stderr = [], exit_code = None, timed_out = False,
     truncated_stdout = False, truncated_stderr = False, wall_time_ms = 0, error = None,
     stage = ''run''\<rparr>"

record ExecutionRequest =
  x_args :: "string list"
  x_files :: "(string, string) dict"
  x_stdin :: string
  x_limits :: Limits
  x_timeout_s :: "real option"
  x_compile_args :: "string list option"
  x_compile_limits :: "Limits option"
  x_env :: "(string, string) dict option"
  x_compile_env :: "(string, string) dict option"
  x_compile_cache :: "string option"
  x_identity :: string

text \<open>The data class with only its required field given.\<close>

definition new_request :: "string list \<Rightarrow> ExecutionRequest" where
  "new_request args = \<lparr>x_args = args, x_files = [], x_stdin = [], x_limits = DEFAULT_LIMITS,
     x_timeout_s = None, x_compile_args = None, x_compile_limits = None, x_env = None,
     x_compile_env = None, x_compile_cache = None, x_identity = ''local''\<rparr>"

lemma new_result_fields [simp]:
  "stdout new_result = []" "stderr new_result = []" "exit_code new_result = None"
  "timed_out new_result = False" "truncated_stdout new_result = False"
  "truncated_stderr new_result = False" "wall_time_ms new_result = 0"
  "error new_result = None" "stage new_result = ''run''"
  by (simp_all add: new_result_def)

end
