(* ===== verification/Abuse.thy ===== *)
theory Abuse
  imports Results Window
begin

text \<open>
  \<^verbatim>\<open>app/abuse.py\<close>: the classifier of finished runs and the rolling per-identity score. Reads of
  the clock are arguments. A Python \<open>deque\<close> that becomes empty is deleted with its key.
\<close>

section \<open>Classification\<close>

definition NETWORK_MARKERS :: "string list" where
  "NETWORK_MARKERS = [
     ''network is unreachable'', ''enetunreach'', ''errno 101'', ''getaddrinfo'',
     ''no route to host'', ''econnrefused'', ''connection refused'',
     ''temporary failure in name resolution'']"

definition MEMORY_MARKERS :: "string list" where
  "MEMORY_MARKERS = [
     ''memoryerror'', ''cannot allocate memory'', ''std::bad_alloc'',
     ''out of memory'', ''enomem'']"

definition WEIGHTS :: "(string, int) dict" where
  "WEIGHTS = [(''timeout'', 2), (''network_probe'', 3), (''memory_abuse'', 2), (''orchestration'', 1)]"

record Verdict =
  suspicious :: bool
  flags :: "string list"
  weight :: int

definition any_marker :: "string list \<Rightarrow> string \<Rightarrow> bool" where
  "any_marker ms s \<longleftrightarrow> list_ex (\<lambda>m. sublist m s) ms"

definition classify :: "ExecutionResult \<Rightarrow> Verdict" where
  "classify r =
     (let f1 = (if timed_out r then [''timeout''] else []);
          err = py_lower (stderr r);
          f2 = (if any_marker NETWORK_MARKERS err then f1 @ [''network_probe''] else f1);
          f3 = (if any_marker MEMORY_MARKERS err then f2 @ [''memory_abuse''] else f2);
          f4 = (if truthy_opt (error r) then f3 @ [''orchestration''] else f3)
      in \<lparr>suspicious = (f4 \<noteq> []), flags = f4,
          weight = sum_list (map (\<lambda>f. dget_or WEIGHTS f 1) f4)\<rparr>)"

section \<open>The tracker\<close>

type_synonym abuse_event = "real \<times> int \<times> string list"

record AbuseTracker =
  threshold :: int
  window_s :: real
  ab_events :: "(string, abuse_event list) dict"

definition new_tracker :: "int \<Rightarrow> real \<Rightarrow> AbuseTracker" where
  "new_tracker th w = \<lparr>threshold = th, window_s = w, ab_events = []\<rparr>"

definition abuse_window :: "AbuseTracker \<Rightarrow> string \<Rightarrow> abuse_event list" where
  "abuse_window t i = dget_or (ab_events t) i []"

text \<open>\<open>while window and now - window[0][0] >= self.window_s: window.popleft()\<close>.\<close>

fun pop_old :: "real \<Rightarrow> real \<Rightarrow> abuse_event list \<Rightarrow> abuse_event list" where
  "pop_old sp now [] = []"
| "pop_old sp now (e # w) = (if now - fst e \<ge> sp then pop_old sp now w else e # w)"

definition abuse_prune :: "AbuseTracker \<Rightarrow> string \<Rightarrow> real \<Rightarrow> AbuseTracker" where
  "abuse_prune t i now =
     (case dget (ab_events t) i of
        None \<Rightarrow> t
      | Some w \<Rightarrow> (let w' = pop_old (window_s t) now w
          in if w' = [] then t\<lparr>ab_events := dpop i (ab_events t)\<rparr>
             else t\<lparr>ab_events := dset i w' (ab_events t)\<rparr>))"

definition window_weight :: "abuse_event list \<Rightarrow> int" where
  "window_weight w = sum_list (map (fst \<circ> snd) w)"

definition abuse_record :: "AbuseTracker \<Rightarrow> string \<Rightarrow> Verdict \<Rightarrow> real \<Rightarrow> int \<times> AbuseTracker" where
  "abuse_record t i v now =
     (let t1 = abuse_prune t i now;
          t2 = (if suspicious v
            then t1\<lparr>ab_events := dset i (abuse_window t1 i @ [(now, weight v, flags v)]) (ab_events t1)\<rparr>
            else t1)
      in (window_weight (abuse_window t2 i), t2))"

definition abuse_score :: "AbuseTracker \<Rightarrow> string \<Rightarrow> real \<Rightarrow> int \<times> AbuseTracker" where
  "abuse_score t i now =
     (let t1 = abuse_prune t i now in (window_weight (abuse_window t1 i), t1))"

definition is_quarantined :: "AbuseTracker \<Rightarrow> string \<Rightarrow> real \<Rightarrow> bool \<times> AbuseTracker" where
  "is_quarantined t i now =
     (if threshold t > 0
      then (let (s, t') = abuse_score t i now in (s \<ge> threshold t, t')) else (False, t))"

text \<open>
  The report. Each identity is pruned at the time the report began, and its quarantine state is
  asked for again at a later reading of the clock, \<open>later i\<close>.
\<close>

record identity_report =
  rep_score :: int
  rep_events :: int
  rep_flags :: "(string, int) dict"
  rep_quarantined :: bool

record abuse_report =
  rep_threshold :: int
  rep_window_s :: real
  rep_identities :: "(string, identity_report) dict"

definition count_flags :: "abuse_event list \<Rightarrow> (string, int) dict" where
  "count_flags w = fold (\<lambda>f d. dset f (dget_or d f 0 + 1) d) (concat (map (snd \<circ> snd) w)) []"

fun report_loop :: "AbuseTracker \<Rightarrow> real \<Rightarrow> (string \<Rightarrow> real) \<Rightarrow> string list \<Rightarrow>
    (string, identity_report) dict \<Rightarrow> (string, identity_report) dict \<times> AbuseTracker" where
  "report_loop t now later [] out = (out, t)"
| "report_loop t now later (i # ids) out =
     (let t1 = abuse_prune t i now; w = abuse_window t1 i
      in if w = [] then report_loop t1 now later ids out
         else (let (q, t2) = is_quarantined t1 i (later i)
           in report_loop t2 now later ids
                (dset i \<lparr>rep_score = window_weight w, rep_events = int (length w),
                         rep_flags = count_flags w, rep_quarantined = q\<rparr> out)))"

definition report :: "AbuseTracker \<Rightarrow> real \<Rightarrow> (string \<Rightarrow> real) \<Rightarrow> abuse_report \<times> AbuseTracker" where
  "report t now later =
     (let (out, t') = report_loop t now later (dkeys (ab_events t)) []
      in (\<lparr>rep_threshold = threshold t', rep_window_s = window_s t', rep_identities = out\<rparr>, t'))"

section \<open>Windows\<close>

lemma pop_old_suffix:
  "\<exists>ds. w = ds @ pop_old sp now w \<and> (\<forall>d \<in> set ds. sp \<le> now - fst d)"
proof (induction w)
  case (Cons e w)
  then obtain ds where "w = ds @ pop_old sp now w" "\<forall>d \<in> set ds. sp \<le> now - fst d" by blast
  then show ?case
    by (cases "now - fst e \<ge> sp") (simp_all add: exI [of _ "e # ds"])
qed simp

lemma pop_old_head: "pop_old sp now w = e # es \<Longrightarrow> now - fst e < sp"
  by (induction w) (auto split: if_splits)

interpretation abw: sliding_window fst sp "pop_old sp" for sp
  by unfold_locales (rule pop_old_suffix, erule pop_old_head)

lemma abuse_config [simp, frame_simps]:
  "threshold (abuse_prune t i now) = threshold t" "window_s (abuse_prune t i now) = window_s t"
  "threshold (snd (abuse_record t i v now)) = threshold t"
  "window_s (snd (abuse_record t i v now)) = window_s t"
  "snd (abuse_score t i now) = abuse_prune t i now"
  by (simp_all add: abuse_prune_def abuse_record_def abuse_score_def Let_def split: option.splits)

lemma abuse_window_prune:
  "abuse_window (abuse_prune t i now) j =
     (if j = i then pop_old (window_s t) now (abuse_window t i) else abuse_window t j)"
  by (auto simp: abuse_window_def abuse_prune_def dget_or_def Let_def split: option.splits)

lemma abuse_window_record:
  "abuse_window (snd (abuse_record t i v now)) j =
     (if j = i then pop_old (window_s t) now (abuse_window t i) @
        (if suspicious v then [(now, weight v, flags v)] else [])
      else abuse_window t j)"
  by (auto simp: abuse_record_def Let_def abuse_window_prune)
    (auto simp: abuse_window_def dget_or_def abuse_window_prune [unfolded abuse_window_def dget_or_def])

lemma fst_abuse_score: "fst (abuse_score t i now) = window_weight (pop_old (window_s t) now (abuse_window t i))"
  by (simp add: abuse_score_def Let_def abuse_window_prune)

lemma is_quarantined_fst:
  "fst (is_quarantined t i now) \<longleftrightarrow> 0 < threshold t \<and> threshold t \<le> fst (abuse_score t i now)"
  by (simp add: is_quarantined_def split: prod.splits)

lemma is_quarantined_snd:
  "snd (is_quarantined t i now) = (if 0 < threshold t then abuse_prune t i now else t)"
  by (simp add: is_quarantined_def abuse_score_def Let_def)

section \<open>Runs and the abstract score\<close>

text \<open>
  The abstract tracker is the whole history of recorded verdicts with their times. Its score of an
  identity is the sum of the weights of the suspicious verdicts of the window, nothing more.
\<close>

datatype ab_op = Record string Verdict | Query string

fun ab_step :: "AbuseTracker \<Rightarrow> real \<times> ab_op \<Rightarrow> AbuseTracker" where
  "ab_step t (now, Record i v) = snd (abuse_record t i v now)"
| "ab_step t (now, Query i) = snd (is_quarantined t i now)"

definition ab_run :: "AbuseTracker \<Rightarrow> (real \<times> ab_op) list \<Rightarrow> AbuseTracker" where
  "ab_run t ops = foldl ab_step t ops"

fun recorded :: "string \<Rightarrow> real \<times> ab_op \<Rightarrow> abuse_event list" where
  "recorded i (now, Record j v) = (if j = i \<and> suspicious v then [(now, weight v, flags v)] else [])"
| "recorded i (now, Query j) = []"

definition history :: "string \<Rightarrow> (real \<times> ab_op) list \<Rightarrow> abuse_event list" where
  "history i ops = concat (map (recorded i) ops)"

definition spec_score :: "real \<Rightarrow> (real \<times> ab_op) list \<Rightarrow> string \<Rightarrow> real \<Rightarrow> int" where
  "spec_score w ops i now = window_weight (filter (\<lambda>e. now - fst e < w) (history i ops))"

lemma ab_run_simps [simp]:
  "ab_run t [] = t" "ab_run t (ops @ [x]) = ab_step (ab_run t ops) x"
  by (simp_all add: ab_run_def)

lemma history_simps [simp]:
  "history i [] = []" "history i (ops @ [x]) = history i ops @ recorded i x"
  by (simp_all add: history_def)

lemma ab_step_config [simp, frame_simps]:
  "threshold (ab_step t x) = threshold t" "window_s (ab_step t x) = window_s t"
  by (cases "(t, x)" rule: ab_step.cases; simp add: is_quarantined_snd)+

lemma ab_run_config [simp, frame_simps]:
  "threshold (ab_run t ops) = threshold t" "window_s (ab_run t ops) = window_s t"
  by (induction ops rule: rev_induct) auto

lemma new_tracker_simps [simp]:
  "threshold (new_tracker th w) = th" "window_s (new_tracker th w) = w"
  "ab_events (new_tracker th w) = []" "abuse_window (new_tracker th w) i = []"
  by (simp_all add: new_tracker_def abuse_window_def dget_or_def)

lemma ab_step_tracks:
  assumes "abw.tracks (window_s t) c h (abuse_window t i)" "c \<le> fst x"
  shows "abw.tracks (window_s t) (fst x) (h @ recorded i x) (abuse_window (ab_step t x) i)"
proof (cases "(t, x)" rule: ab_step.cases)
  case (1 t' now j v)
  then show ?thesis
    using abw.tracks_prune [OF assms] abw.tracks_snoc [OF abw.tracks_prune [OF assms], of "(now, weight v, flags v)"]
      abw.tracks_later [OF assms]
    by (auto simp: abuse_window_record)
next
  case (2 t' now j)
  then show ?thesis
    using abw.tracks_prune [OF assms] abw.tracks_later [OF assms]
    by (auto simp: is_quarantined_snd abuse_window_prune)
qed

lemma ab_run_tracks:
  assumes "sorted (map fst ops)" "\<forall>x \<in> set ops. fst x \<le> c"
  shows "abw.tracks w c (history i ops) (abuse_window (ab_run (new_tracker th w) ops) i)"
  using assms
proof (induction ops arbitrary: c rule: rev_induct)
  case (snoc x ops)
  then have "abw.tracks w (fst x) (history i ops) (abuse_window (ab_run (new_tracker th w) ops) i)"
    by (intro snoc.IH) (auto simp: sorted_append)
  with ab_step_tracks [of "ab_run (new_tracker th w) ops" "fst x" "history i ops" i x]
  have "abw.tracks w (fst x) (history i (ops @ [x])) (abuse_window (ab_run (new_tracker th w) (ops @ [x])) i)"
    by simp
  then show ?case by (rule abw.tracks_later) (use snoc.prems in auto)
qed simp

lemma ab_run_score:
  assumes "sorted (map fst ops)" "\<forall>x \<in> set ops. fst x \<le> now"
  shows "fst (abuse_score (ab_run (new_tracker th w) ops) i now) = spec_score w ops i now"
  using abw.tracks_fresh [OF ab_run_tracks [OF assms], of now]
  by (simp add: fst_abuse_score spec_score_def abw.fresh_def cong: filter_cong)

section \<open>The table of events\<close>

text \<open>Every entry of the table has an event: the table does not grow with callers that behave.\<close>

definition ab_inv :: "AbuseTracker \<Rightarrow> bool" where
  "ab_inv t \<longleftrightarrow> wf_dict (ab_events t) \<and> [] \<notin> ran (dget (ab_events t))"

lemma ab_inv_prune [inv_intros]: "ab_inv t \<Longrightarrow> ab_inv (abuse_prune t i now)"
  by (auto simp: ab_inv_def abuse_prune_def Let_def ran_def split: option.splits if_splits)

lemma ab_inv_record [inv_intros]: "ab_inv t \<Longrightarrow> ab_inv (snd (abuse_record t i v now))"
  using ab_inv_prune [of t i now] by (auto simp: ab_inv_def abuse_record_def Let_def ran_def)

lemma ab_inv_step [inv_intros]: "ab_inv t \<Longrightarrow> ab_inv (ab_step t x)"
  by (cases "(t, x)" rule: ab_step.cases) (auto simp: is_quarantined_snd intro: inv_intros)

lemma ab_inv_run: "ab_inv t \<Longrightarrow> ab_inv (ab_run t ops)"
  by (induction ops rule: rev_induct) (auto intro: inv_intros)

lemma ab_inv_entry: "ab_inv t \<Longrightarrow> i \<in> dom (dget (ab_events t)) \<longleftrightarrow> abuse_window t i \<noteq> []"
  by (auto simp: ab_inv_def abuse_window_def dget_or_def ran_def split: option.splits)

section \<open>Properties\<close>

text \<open>
  The classifier. A run is flagged for a timeout, for a network marker or a memory marker
  anywhere in its lower-cased stderr, and for an internal error, each independently and at most once;
  the weight is the sum 2, 3, 2, 1 of the flags raised, and the run is suspicious exactly when the
  weight is positive.
\<close>

theorem classify_flags:
  "set (flags (classify r)) =
     {f. f = ''timeout'' \<and> timed_out r \<or>
         f = ''network_probe'' \<and> any_marker NETWORK_MARKERS (py_lower (stderr r)) \<or>
         f = ''memory_abuse'' \<and> any_marker MEMORY_MARKERS (py_lower (stderr r)) \<or>
         f = ''orchestration'' \<and> truthy_opt (error r)} \<and>
   distinct (flags (classify r)) \<and>
   weight (classify r) =
     (if timed_out r then 2 else 0) +
     (if any_marker NETWORK_MARKERS (py_lower (stderr r)) then 3 else 0) +
     (if any_marker MEMORY_MARKERS (py_lower (stderr r)) then 2 else 0) +
     (if truthy_opt (error r) then 1 else 0) \<and>
   suspicious (classify r) = (0 < weight (classify r))"
  by (auto simp: classify_def Let_def WEIGHTS_def dget_or_def)

text \<open>
  C15. The tracker implements the abstract score. After any run of records and quarantine queries
  with a clock that does not go back, the score of an identity is the sum of the weights of its
  suspicious verdicts younger than the window.
\<close>

theorem score_refines_history:
  assumes "sorted (map fst ops)" and "\<forall>x \<in> set ops. fst x \<le> now"
  shows "fst (abuse_score (ab_run (new_tracker th w) ops) i now) = spec_score w ops i now"
  by (rule ab_run_score [OF assms])

definition probe :: Verdict where
  "probe = \<lparr>suspicious = True, flags = [''network_probe''], weight = 3\<rparr>"

theorem score_refines_history_witness:
  "fst (abuse_score (ab_run (new_tracker 5 300) [(0, Record ''a'' probe), (200, Record ''a'' probe), (250, Query ''a'')]) ''a'' 310)
     = 3"
  using score_refines_history [of "[(0, Record ''a'' probe), (200, Record ''a'' probe), (250, Query ''a'')]" 310 5 300 "''a''"]
  by (simp add: spec_score_def history_def probe_def window_weight_def)

text \<open>
  Quarantine. An identity is quarantined exactly when a threshold is set and the score of its
  window has reached it: reaching is enough, it need not be exceeded. A zero threshold never
  quarantines.
\<close>

theorem quarantine_at_threshold:
  assumes "sorted (map fst ops)" and "\<forall>x \<in> set ops. fst x \<le> now"
  shows "fst (is_quarantined (ab_run (new_tracker th w) ops) i now) \<longleftrightarrow>
           0 < th \<and> th \<le> spec_score w ops i now"
  by (simp add: is_quarantined_fst ab_run_score [OF assms])

theorem quarantine_at_threshold_witness:
  "fst (is_quarantined (ab_run (new_tracker 3 300) [(0, Record ''a'' probe)]) ''a'' 10) \<and>
   \<not> fst (is_quarantined (ab_run (new_tracker 0 300) [(0, Record ''a'' probe)]) ''a'' 10)"
  using quarantine_at_threshold [of "[(0, Record ''a'' probe)]" 10 3 300 "''a''"]
    quarantine_at_threshold [of "[(0, Record ''a'' probe)]" 10 0 300 "''a''"]
  by (simp add: spec_score_def history_def probe_def window_weight_def)

text \<open>
  Quarantine ends. Once every recorded verdict is at least a window old, no identity is
  quarantined, and asking for its score removes its entry from the table.
\<close>

theorem quarantine_clears:
  assumes "sorted (map fst ops)" and "\<forall>x \<in> set ops. fst x \<le> now \<and> fst x + w \<le> now"
  shows "\<not> fst (is_quarantined (ab_run (new_tracker th w) ops) i now) \<and>
         i \<notin> dom (dget (ab_events (snd (abuse_score (ab_run (new_tracker th w) ops) i now))))"
proof -
  let ?t = "ab_run (new_tracker th w) ops"
  have past: "\<forall>x \<in> set ops. fst x \<le> now" using assms(2) by blast
  have "now - fst e \<ge> w" if e: "e \<in> set (history i ops)" for e
  proof -
    obtain x where "x \<in> set ops" "e \<in> set (recorded i x)"
      using e by (auto simp: history_def)
    then show ?thesis using assms(2) by (cases "(i, x)" rule: recorded.cases) (auto split: if_splits)
  qed
  then have old: "filter (\<lambda>e. now - fst e < w) (history i ops) = []"
    by (force simp: filter_empty_conv)
  have "abuse_window (abuse_prune ?t i now) i = []"
    using abw.tracks_fresh [OF ab_run_tracks [OF assms(1) past], of now] old
    by (simp add: abuse_window_prune abw.fresh_def cong: filter_cong)
  moreover have "ab_inv (abuse_prune ?t i now)"
    by (intro inv_intros ab_inv_run) (simp add: ab_inv_def)
  ultimately have "i \<notin> dom (dget (ab_events (abuse_prune ?t i now)))"
    by (simp add: ab_inv_entry)
  moreover have "\<not> fst (is_quarantined ?t i now)"
    using old by (simp add: is_quarantined_fst ab_run_score [OF assms(1) past] spec_score_def window_weight_def)
  ultimately show ?thesis by simp
qed

theorem quarantine_clears_witness:
  "\<not> fst (is_quarantined (ab_run (new_tracker 3 300) [(0, Record ''a'' probe)]) ''a'' 300)"
  using quarantine_clears [of "[(0, Record ''a'' probe)]" 300 300 3 "''a''"] by simp

end
