(* ===== verification/Schemas.thy ===== *)
theory Schemas
  imports Results
begin

text \<open>
  \<^verbatim>\<open>app/api/schemas.py\<close>: the request and response models of the API. Pydantic builds the
  values; what is modelled is which requests its declared field constraints and the validators of
  this file accept. Lengths of strings are Python's, in code points.
\<close>

section \<open>Requests\<close>

definition MAX_FILES :: nat where
  "MAX_FILES = 16"

definition STDIN_CAP :: nat where
  "STDIN_CAP = 256 * 1024"

record FileIn =
  fi_name :: string
  fi_content :: string

record ExecuteRequest =
  q_language :: string
  q_files :: "FileIn list"
  q_stdin :: string
  q_run_timeout_ms :: "int option"
  q_entrypoint :: "string option"

text \<open>The validators return the value or raise \<open>ValueError\<close>.\<close>

definition safe_name :: "string \<Rightarrow> exn + string" where
  "safe_name v =
     (if CHR ''/'' \<in> set v \<or> char_of (92::nat) \<in> set v \<or> v = ''.'' \<or> v = ''..''
      then Inl (ValueError ''file name must be a bare name, no path separators'')
      else if list_ex (\<lambda>c. ord_c c < 32) v
      then Inl (ValueError ''file name must not contain control characters'')
      else Inr v)"

definition unique_names :: "FileIn list \<Rightarrow> exn + FileIn list" where
  "unique_names fs = (if distinct (map fi_name fs) then Inr fs
     else Inl (ValueError ''duplicate file names''))"

definition FileIn_ok :: "FileIn \<Rightarrow> bool" where
  "FileIn_ok f \<longleftrightarrow> 1 \<le> length (fi_name f) \<and> length (fi_name f) \<le> 255 \<and>
     (case safe_name (fi_name f) of Inl _ \<Rightarrow> False | Inr _ \<Rightarrow> True)"

definition ExecuteRequest_ok :: "ExecuteRequest \<Rightarrow> bool" where
  "ExecuteRequest_ok r \<longleftrightarrow>
     1 \<le> length (q_files r) \<and> length (q_files r) \<le> MAX_FILES \<and>
     list_all FileIn_ok (q_files r) \<and>
     (case unique_names (q_files r) of Inl _ \<Rightarrow> False | Inr _ \<Rightarrow> True) \<and>
     length (q_stdin r) \<le> STDIN_CAP \<and>
     (case q_run_timeout_ms r of None \<Rightarrow> True | Some t \<Rightarrow> 100 \<le> t \<and> t \<le> 30000) \<and>
     (case q_entrypoint r of None \<Rightarrow> True | Some e \<Rightarrow> length e \<le> 255)"

section \<open>Responses\<close>

text \<open>\<open>ExecuteResponse(**result.as_dict(), id=hist_id)\<close>: the result with the history id added.\<close>

record ExecuteResponse = ExecutionResult +
  resp_id :: "string option"

definition make_response :: "ExecutionResult \<Rightarrow> string option \<Rightarrow> ExecuteResponse" where
  "make_response r i = ExecutionResult.extend r \<lparr>resp_id = i\<rparr>"

record RunSummary =
  sum_id :: string
  sum_created_at :: string
  sum_language :: string
  sum_exit_code :: "int option"
  sum_timed_out :: bool
  sum_stage :: string
  sum_wall_time_ms :: int
  sum_suspicious :: bool
  sum_flags :: "string list"

record RunDetail = RunSummary +
  det_files :: "(string, string) dict"
  det_stdin :: string
  det_run_timeout_ms :: "int option"
  det_stdout :: string
  det_stderr :: string
  det_truncated_stdout :: bool
  det_truncated_stderr :: bool
  det_error :: "string option"

record RunListResponse =
  rl_runs :: "RunSummary list"
  rl_limit :: int
  rl_offset :: int

record JobSubmitResponse =
  js_id :: string
  js_status :: string

record JobStatusResponse =
  jr_id :: string
  jr_status :: string
  jr_result :: "ExecuteResponse option"

record LanguageInfo =
  li_name :: string
  li_main_file :: string

record default_limits =
  dl_memory_max :: string
  dl_pids_max :: int
  dl_cpu_quota_pct :: int
  dl_run_timeout_ms :: int
  dl_output_cap_bytes :: int
  dl_source_cap_bytes :: int

record LanguagesResponse =
  lr_languages :: "LanguageInfo list"
  lr_defaults :: default_limits
  lr_auth_required :: bool

text \<open>\<open>int(x)\<close> of a non-negative float rounds down.\<close>

definition default_limits_dict :: default_limits where
  "default_limits_dict = (let lim = DEFAULT_LIMITS in
     \<lparr>dl_memory_max = memory_max lim, dl_pids_max = pids_max lim,
      dl_cpu_quota_pct = cpu_quota_pct lim, dl_run_timeout_ms = \<lfloor>wall_timeout_s lim * 1000\<rfloor>,
      dl_output_cap_bytes = output_cap_bytes lim, dl_source_cap_bytes = source_cap_bytes lim\<rparr>)"

lemma make_response_simps [simp]:
  "resp_id (make_response r i) = i" "stdout (make_response r i) = stdout r"
  "stderr (make_response r i) = stderr r" "exit_code (make_response r i) = exit_code r"
  "timed_out (make_response r i) = timed_out r" "error (make_response r i) = error r"
  "stage (make_response r i) = stage r" "wall_time_ms (make_response r i) = wall_time_ms r"
  by (simp_all add: make_response_def ExecutionResult.extend_def)

section \<open>What an accepted request guarantees\<close>

lemma safe_name_Inr: "safe_name v = Inr w \<longleftrightarrow> w = v \<and> CHR ''/'' \<notin> set v \<and> char_of (92::nat) \<notin> set v \<and>
    v \<noteq> ''.'' \<and> v \<noteq> ''..'' \<and> list_all (\<lambda>c. 32 \<le> ord_c c) v"
  by (auto simp: safe_name_def list_ex_iff list_all_iff simp flip: not_less)

lemma FileIn_ok_iff: "FileIn_ok f \<longleftrightarrow> fi_name f \<noteq> [] \<and> length (fi_name f) \<le> 255 \<and> safe_name (fi_name f) = Inr (fi_name f)"
  by (cases "fi_name f") (auto simp: FileIn_ok_def safe_name_def)

lemma FileIn_ok_plain: "FileIn_ok f \<Longrightarrow> plain_segment (fi_name f)"
  by (simp add: FileIn_ok_iff safe_name_Inr plain_segment_def)

lemma ExecuteRequest_ok_files:
  "ExecuteRequest_ok r \<Longrightarrow> f \<in> set (q_files r) \<Longrightarrow> FileIn_ok f"
  "ExecuteRequest_ok r \<Longrightarrow> distinct (map fi_name (q_files r))"
  by (auto simp: ExecuteRequest_ok_def list_all_iff unique_names_def split: if_splits)

end
