(* ===== verification/Auth.thy ===== *)
theory Auth
  imports Text
begin

text \<open>
  \<^verbatim>\<open>app/api/auth.py\<close>: API keys and the identity a request acts under. The digest
  \<open>hashlib.sha256(...).hexdigest()\<close> is the parameter \<open>sha\<close>; the key file is what reading it gives.
\<close>

section \<open>HTTP errors and identities\<close>

datatype HTTPException = HTTPException (status_code: int) (detail: string) (headers: "(string \<times> string) list")

record Identity =
  id_name :: string
  authenticated :: bool
  role :: string

definition is_admin :: "Identity \<Rightarrow> bool" where
  "is_admin i \<longleftrightarrow> role i = ''admin''"

section \<open>The key store\<close>

text \<open>
  An entry of the JSON list; a member that is missing is \<open>None\<close>. Reading the file may find none,
  may fail (\<open>OSError\<close>, or text that is not JSON), or gives the list. Entries are of the kind that
  \<^verbatim>\<open>scripts/make_key.py\<close> writes: members are strings and digests are ASCII, so that a
  hand-made file with \<^verbatim>\<open>null\<close> for a member, or a digest at which
  \<^verbatim>\<open>hmac.compare_digest\<close> raises \<^verbatim>\<open>TypeError\<close>, is not one of them.
\<close>

record key_entry =
  k_name :: "string option"
  k_hash :: "string option"
  k_role :: "string option"
  k_created :: "string option"

datatype keys_file = NoFile | Unreadable | Keys "key_entry list"

definition hash_key :: "(string \<Rightarrow> string) \<Rightarrow> string \<Rightarrow> string" where
  "hash_key sha raw = sha raw"

definition env_keys :: "string \<Rightarrow> string list" where
  "env_keys env = filter (\<lambda>k. py_strip k \<noteq> []) (py_split (CHR '','') (py_strip env))"

definition env_entry :: "(string \<Rightarrow> string) \<Rightarrow> nat \<times> string \<Rightarrow> key_entry" where
  "env_entry sha p = \<lparr>k_name = Some (''env-'' @ show_nat (fst p)),
     k_hash = Some (hash_key sha (py_strip (snd p))), k_role = None, k_created = None\<rparr>"

definition file_entries :: "keys_file \<Rightarrow> key_entry list" where
  "file_entries f = (case f of NoFile \<Rightarrow> [] | Unreadable \<Rightarrow> [] | Keys es \<Rightarrow> es)"

definition load_store :: "(string \<Rightarrow> string) \<Rightarrow> keys_file \<Rightarrow> string \<Rightarrow> key_entry list" where
  "load_store sha f env = file_entries f @ map (env_entry sha) (enumerate 0 (env_keys env))"

definition auth_enabled :: "(string \<Rightarrow> string) \<Rightarrow> keys_file \<Rightarrow> string \<Rightarrow> bool" where
  "auth_enabled sha f env \<longleftrightarrow> length (load_store sha f env) > 0"

text \<open>The loop does not stop at a match, so the last matching entry is the one returned.\<close>

definition match_key :: "(string \<Rightarrow> string) \<Rightarrow> keys_file \<Rightarrow> string \<Rightarrow> string \<Rightarrow> key_entry option" where
  "match_key sha f env raw =
     fold (\<lambda>e matched. if hash_key sha raw = opt_default (k_hash e) [] then Some e else matched)
       (load_store sha f env) None"

definition require_api_key ::
  "(string \<Rightarrow> string) \<Rightarrow> keys_file \<Rightarrow> string \<Rightarrow> string option \<Rightarrow> HTTPException + Identity" where
  "require_api_key sha f env key =
     (if \<not> auth_enabled sha f env then
        Inr \<lparr>id_name = ''local'', authenticated = False, role = ''admin''\<rparr>
      else if \<not> truthy_opt key then
        Inl (HTTPException 401 ''missing API key'' [(''WWW-Authenticate'', ''X-API-Key'')])
      else (case match_key sha f env (the key) of
          None \<Rightarrow> Inl (HTTPException 401 ''invalid API key'' [])
        | Some e \<Rightarrow> Inr \<lparr>id_name = opt_default (k_name e) ''unknown'', authenticated = True,
                         role = opt_default (k_role e) ''user''\<rparr>))"

definition require_admin :: "Identity \<Rightarrow> HTTPException + Identity" where
  "require_admin i = (if \<not> is_admin i then Inl (HTTPException 403 ''admin privilege required'' []) else Inr i)"

section \<open>Matching\<close>

lemma fold_last_match:
  "fold (\<lambda>e m. if P e then Some e else m) es m =
     (case filter P es of [] \<Rightarrow> m | _ # _ \<Rightarrow> Some (last (filter P es)))"
  by (induction es arbitrary: m) (auto split: list.splits)

definition key_matches :: "(string \<Rightarrow> string) \<Rightarrow> string \<Rightarrow> key_entry \<Rightarrow> bool" where
  "key_matches sha raw e \<longleftrightarrow> sha raw = opt_default (k_hash e) []"

lemma match_key_filter:
  "match_key sha f env raw =
     (let ms = filter (key_matches sha raw) (load_store sha f env) in if ms = [] then None else Some (last ms))"
proof -
  have "(\<lambda>e. sha raw = opt_default (k_hash e) []) = key_matches sha raw"
    by (simp add: key_matches_def fun_eq_iff)
  then show ?thesis
    by (simp add: match_key_def hash_key_def fold_last_match Let_def split: list.splits)
qed

lemma match_key_last_entry:
  assumes "match_key sha f env raw = Some e"
  shows "\<exists>es1 es2. load_store sha f env = es1 @ e # es2 \<and> key_matches sha raw e \<and> filter (key_matches sha raw) es2 = []"
proof -
  have "\<exists>x \<in> set (load_store sha f env). key_matches sha raw x"
    using assms by (auto simp: match_key_filter Let_def filter_empty_conv split: if_splits)
  then obtain es1 x es2 where "load_store sha f env = es1 @ x # es2" "key_matches sha raw x"
      "\<forall>z \<in> set es2. \<not> key_matches sha raw z"
    using split_list_last_prop by metis
  with assms show ?thesis
    by (auto simp: match_key_filter Let_def filter_empty_conv split: if_splits)
qed

lemma match_key_None:
  "match_key sha f env raw = None \<longleftrightarrow> (\<forall>e \<in> set (load_store sha f env). \<not> key_matches sha raw e)"
  by (auto simp: match_key_filter Let_def filter_empty_conv)

lemma env_entries_user: "e \<in> set (map (env_entry sha) ps) \<Longrightarrow> k_role e = None"
  by (auto simp: env_entry_def)

text \<open>The keys of the environment that a raw key could collide with.\<close>

definition env_has :: "(string \<Rightarrow> string) \<Rightarrow> string \<Rightarrow> string \<Rightarrow> bool" where
  "env_has sha env raw \<longleftrightarrow> list_ex (\<lambda>k. sha (py_strip k) = sha raw) (env_keys env)"

lemma snd_enumerate: "p \<in> set (enumerate n xs) \<Longrightarrow> snd p \<in> set xs"
  unfolding enumerate_eq_zip by (cases p) (auto dest: set_zip_rightD)

lemma filter_env_entries:
  "\<not> env_has sha env raw \<Longrightarrow>
     filter (key_matches sha raw) (map (env_entry sha) (enumerate n (env_keys env))) = []"
  using snd_enumerate
  by (fastforce simp: filter_empty_conv key_matches_def env_entry_def env_has_def list_ex_iff hash_key_def)

section \<open>Properties\<close>

text \<open>
  C8. Who gets in. With no key registered every request acts as the local admin. Otherwise a
  request is accepted exactly when it carries a non-empty key whose digest is one of the registered
  ones; it then acts as the last such entry (no later entry has that digest), as an admin only if that
  entry says so, and a rejected one gets a 401.
\<close>

theorem require_api_key_sound:
  "case require_api_key sha f env key of
     Inr i \<Rightarrow> (if load_store sha f env = [] then i = \<lparr>id_name = ''local'', authenticated = False, role = ''admin''\<rparr>
        else authenticated i \<and> (\<exists>raw es1 e es2. key = Some raw \<and> raw \<noteq> [] \<and>
          load_store sha f env = es1 @ e # es2 \<and> sha raw = opt_default (k_hash e) [] \<and>
          filter (\<lambda>later. sha raw = opt_default (k_hash later) []) es2 = [] \<and> id_name i = opt_default (k_name e) ''unknown'' \<and>
          is_admin i = (k_role e = Some ''admin'')))
   | Inl x \<Rightarrow> status_code x = 401 \<and> load_store sha f env \<noteq> [] \<and>
        (key = None \<or> key = Some [] \<or>
         (\<exists>raw. key = Some raw \<and> (\<nexists>e. e \<in> set (load_store sha f env) \<and> sha raw = opt_default (k_hash e) [])))"
proof (cases "load_store sha f env = [] \<or> \<not> truthy_opt key")
  case True
  then show ?thesis
    by (cases key) (auto simp: require_api_key_def auth_enabled_def)
next
  case False
  then obtain raw where raw: "key = Some raw" "raw \<noteq> []" by (cases key) auto
  show ?thesis
  proof (cases "match_key sha f env raw")
    case None
    with False raw show ?thesis
      using match_key_None [of sha f env raw]
      by (auto simp: require_api_key_def auth_enabled_def key_matches_def)
  next
    case (Some e)
    obtain es1 es2 where e: "load_store sha f env = es1 @ e # es2" "key_matches sha raw e"
        "filter (key_matches sha raw) es2 = []"
      using match_key_last_entry [OF Some] by blast
    have "is_admin \<lparr>id_name = n, authenticated = True, role = opt_default (k_role e) ''user''\<rparr> = (k_role e = Some ''admin'')" for n
      by (cases "k_role e") (simp_all add: is_admin_def)
    moreover have "require_api_key sha f env key =
        Inr \<lparr>id_name = opt_default (k_name e) ''unknown'', authenticated = True, role = opt_default (k_role e) ''user''\<rparr>"
      using e(1) raw Some by (simp add: require_api_key_def auth_enabled_def)
    ultimately show ?thesis
      using e raw unfolding key_matches_def [abs_def] by auto
  qed
qed

text \<open>
  A key file that cannot be read opens the service. When reading the file fails and no key is
  set in the environment, every request, with any key or none, is an admin's.
\<close>

theorem unreadable_keys_fail_open:
  "require_api_key sha Unreadable [] key = Inr \<lparr>id_name = ''local'', authenticated = False, role = ''admin''\<rparr> \<and>
   bind_res (require_api_key sha Unreadable [] key) require_admin =
     Inr \<lparr>id_name = ''local'', authenticated = False, role = ''admin''\<rparr>"
  by (simp add: require_api_key_def auth_enabled_def load_store_def file_entries_def env_keys_def
      py_strip_def require_admin_def is_admin_def)

end
