(* ===== verification/MakeKey.thy ===== *)
theory MakeKey
  imports Auth
begin

text \<open>
  \<^verbatim>\<open>scripts/make_key.py\<close>: the operator's command that lists, revokes and creates keys. A run
  takes the parsed arguments, what reading the key file gives, the random token and the date; it
  gives the exit code and the printed lines, or the exception it ends with, and the file afterwards.
\<close>

section \<open>The command\<close>

definition MAX_USERS :: nat where
  "MAX_USERS = 2"

record mk_args =
  a_name :: "string option"
  a_role :: string
  a_list :: bool
  a_revoke :: "string option"

datatype mk_outcome = Exit int "string list" | Raised string

definition ljust :: "nat \<Rightarrow> string \<Rightarrow> string" where
  "ljust n s = s @ replicate (n - length s) (CHR '' '')"

text \<open>\<open>e["name"]\<close> raises \<open>KeyError\<close> where the member is missing.\<close>

fun any_named :: "string \<Rightarrow> key_entry list \<Rightarrow> mk_outcome + bool" where
  "any_named n [] = Inr False"
| "any_named n (e # es) = (case k_name e of None \<Rightarrow> Inl (Raised ''KeyError'')
     | Some m \<Rightarrow> if m = n then Inr True else any_named n es)"

fun kept_without :: "string \<Rightarrow> key_entry list \<Rightarrow> mk_outcome + key_entry list" where
  "kept_without n [] = Inr []"
| "kept_without n (e # es) = (case k_name e of None \<Rightarrow> Inl (Raised ''KeyError'')
     | Some m \<Rightarrow> bind_res (kept_without n es) (\<lambda>ks. Inr (if m \<noteq> n then e # ks else ks)))"

fun list_lines :: "key_entry list \<Rightarrow> mk_outcome + string list" where
  "list_lines [] = Inr []"
| "list_lines (e # es) = (case k_name e of None \<Rightarrow> Inl (Raised ''KeyError'')
     | Some m \<Rightarrow> bind_res (list_lines es) (\<lambda>ls. Inr
         ((ljust 20 m @ '' role='' @ ljust 6 (opt_default (k_role e) ''user'') @ '' created='' @
           opt_default (k_created e) ''?'') # ls)))"

definition n_users :: "key_entry list \<Rightarrow> nat" where
  "n_users es = length (filter (\<lambda>e. opt_default (k_role e) ''user'' \<noteq> ''admin'') es)"

definition mk_load :: "keys_file \<Rightarrow> mk_outcome + key_entry list" where
  "mk_load f = (case f of NoFile \<Rightarrow> Inr [] | Unreadable \<Rightarrow> Inl (Raised ''unreadable'') | Keys es \<Rightarrow> Inr es)"

definition new_entry :: "(string \<Rightarrow> string) \<Rightarrow> string \<Rightarrow> string \<Rightarrow> string \<Rightarrow> string \<Rightarrow> key_entry" where
  "new_entry sha n r raw today = \<lparr>k_name = Some n, k_hash = Some (hash_key sha raw), k_role = Some r,
     k_created = Some today\<rparr>"

definition mk_main ::
  "(string \<Rightarrow> string) \<Rightarrow> mk_args \<Rightarrow> string \<Rightarrow> string \<Rightarrow> keys_file \<Rightarrow> mk_outcome \<times> keys_file" where
  "mk_main sha args token today f =
     (case mk_load f of Inl e \<Rightarrow> (e, f)
      | Inr entries \<Rightarrow>
        if a_list args then
          (case list_lines entries of Inl e \<Rightarrow> (e, f)
           | Inr ls \<Rightarrow> (Exit 0 (ls @ (if entries = [] then [''(no keys; auth is DISABLED)''] else [])), f))
        else if truthy_opt (a_revoke args) then
          (case kept_without (the (a_revoke args)) entries of Inl e \<Rightarrow> (e, f)
           | Inr kept \<Rightarrow>
               if length kept = length entries
               then (Exit 1 [''no key named '' @ py_repr (the (a_revoke args))], f)
               else (Exit 0 [''revoked '' @ py_repr (the (a_revoke args))], Keys kept))
        else if \<not> truthy_opt (a_name args) then
          (Exit 2 [''provide a name, or use --list / --revoke''], f)
        else
          (case any_named (the (a_name args)) entries of Inl e \<Rightarrow> (e, f)
           | Inr True \<Rightarrow> (Exit 1 [''key named '' @ py_repr (the (a_name args)) @ '' already exists''], f)
           | Inr False \<Rightarrow>
               if a_role args = ''user'' \<and> n_users entries \<ge> MAX_USERS then
                 (Exit 1 [''user limit reached ('' @ show_nat MAX_USERS @ '' basic users). '' @
                    ''Revoke one first, or create an admin with --role admin.''], f)
               else
                 (let raw = ''sk_'' @ token in
                   (Exit 0 [''API key for '' @ py_repr (the (a_name args)) @ '' (role='' @ a_role args @
                      ''; shown once, store it now):'', raw],
                    Keys (entries @ [new_entry sha (the (a_name args)) (a_role args) raw today])))))"

section \<open>Invariants of the key file\<close>

text \<open>\<open>argparse\<close> only lets these two roles through.\<close>

definition role_choice :: "mk_args \<Rightarrow> bool" where
  "role_choice args \<longleftrightarrow> a_role args = ''admin'' \<or> a_role args = ''user''"

definition keys_inv :: "keys_file \<Rightarrow> bool" where
  "keys_inv f \<longleftrightarrow> n_users (file_entries f) \<le> MAX_USERS \<and>
     distinct (map k_name (file_entries f)) \<and> None \<notin> set (map k_name (file_entries f))"

lemma any_named_iff:
  "None \<notin> set (map k_name es) \<Longrightarrow> any_named n es = Inr (Some n \<in> set (map k_name es))"
  by (induction es) (auto split: option.splits)

lemma kept_without_filter:
  "None \<notin> set (map k_name es) \<Longrightarrow> kept_without n es = Inr (filter (\<lambda>e. k_name e \<noteq> Some n) es)"
  by (induction es) (auto split: option.splits)

lemma n_users_filter: "n_users (filter P es) \<le> n_users es"
  unfolding n_users_def by (induction es) auto

lemma keys_inv_filter:
  "keys_inv f \<Longrightarrow> keys_inv (Keys (filter P (file_entries f)))"
  using n_users_filter [of P "file_entries f"]
  by (auto simp: keys_inv_def file_entries_def [of "Keys _"] distinct_map_filter)

lemma mk_load_Inr: "mk_load f = Inr es \<Longrightarrow> file_entries f = es"
  by (auto simp: mk_load_def file_entries_def split: keys_file.splits)

lemma mk_main_file_cases:
  assumes "mk_main sha args token today f = (out, f')" "keys_inv f"
  obtains "f' = f"
  | "a_revoke args \<noteq> None" "f' = Keys (filter (\<lambda>e. k_name e \<noteq> a_revoke args) (file_entries f))"
  | n where "a_name args = Some n" "Some n \<notin> set (map k_name (file_entries f))"
      "a_role args = ''user'' \<longrightarrow> n_users (file_entries f) < MAX_USERS"
      "f' = Keys (file_entries f @ [new_entry sha n (a_role args) (''sk_'' @ token) today])"
proof (cases "mk_load f")
  case (Inl e)
  with assms(1) that(1) show thesis by (simp add: mk_main_def)
next
  case (Inr es)
  have es: "file_entries f = es" by (rule mk_load_Inr [OF Inr])
  have nn: "None \<notin> set (map k_name es)" using assms(2) es by (simp add: keys_inv_def)
  show thesis
    using assms(1) that
    by (auto simp: mk_main_def Inr es any_named_iff [OF nn] kept_without_filter [OF nn] Let_def truthy_opt_def
        split: if_splits sum.splits bool.splits)
qed

lemma keys_inv_main:
  assumes "keys_inv f" "role_choice args"
  shows "keys_inv (snd (mk_main sha args token today f))"
proof -
  obtain out f' where r: "mk_main sha args token today f = (out, f')" by fastforce
  have "keys_inv f'"
  proof (rule mk_main_file_cases [OF r assms(1)])
    assume "f' = Keys (filter (\<lambda>e. k_name e \<noteq> a_revoke args) (file_entries f))"
    then show ?thesis using keys_inv_filter [OF assms(1)] by simp
  next
    fix n
    assume "Some n \<notin> set (map k_name (file_entries f))"
      "a_role args = ''user'' \<longrightarrow> n_users (file_entries f) < MAX_USERS"
      "f' = Keys (file_entries f @ [new_entry sha n (a_role args) (''sk_'' @ token) today])"
    then show ?thesis
      using assms by (auto simp: keys_inv_def file_entries_def n_users_def new_entry_def role_choice_def)
  qed (use assms in simp)
  with r show ?thesis by simp
qed

text \<open>A session of the operator: commands with their tokens and dates.\<close>

definition mk_session :: "(string \<Rightarrow> string) \<Rightarrow> (mk_args \<times> string \<times> string) list \<Rightarrow> keys_file \<Rightarrow> keys_file" where
  "mk_session sha cmds f = fold (\<lambda>(args, token, today) g. snd (mk_main sha args token today g)) cmds f"

lemma keys_inv_session:
  "keys_inv f \<Longrightarrow> list_all (\<lambda>c. role_choice (fst c)) cmds \<Longrightarrow> keys_inv (mk_session sha cmds f)"
proof (induction cmds arbitrary: f)
  case (Cons c cmds)
  obtain args token today where c: "c = (args, token, today)" by (cases c)
  have "keys_inv (snd (mk_main sha args token today f))"
    using Cons.prems c by (intro keys_inv_main) auto
  from Cons.IH [OF this] Cons.prems c show ?case by (simp add: mk_session_def)
qed (simp add: mk_session_def)

section \<open>Keys and authentication\<close>

lemma load_store_Keys: "load_store sha (Keys es) env = es @ map (env_entry sha) (enumerate 0 (env_keys env))"
  by (simp add: load_store_def file_entries_def)

lemma match_key_last:
  assumes "\<not> env_has sha env raw" "key_matches sha raw e"
  shows "match_key sha (Keys (es @ [e])) env raw = Some e"
  using assms by (simp add: match_key_filter load_store_Keys filter_env_entries)

text \<open>The arguments of the three uses.\<close>

definition create_args :: "string \<Rightarrow> string \<Rightarrow> mk_args" where
  "create_args n r = \<lparr>a_name = Some n, a_role = r, a_list = False, a_revoke = None\<rparr>"

definition revoke_args :: "string \<Rightarrow> mk_args" where
  "revoke_args n = \<lparr>a_name = None, a_role = ''user'', a_list = False, a_revoke = Some n\<rparr>"

lemma create_file:
  assumes "mk_main sha (create_args n r) token today f = (Exit 0 out, f')" "keys_inv f"
  shows "f' = Keys (file_entries f @ [new_entry sha n r (''sk_'' @ token) today])"
    and "Some n \<notin> set (map k_name (file_entries f))" "n \<noteq> []"
    and "out ! 1 = ''sk_'' @ token"
proof -
  obtain es where es: "mk_load f = Inr es"
    using assms(1) by (cases "mk_load f") (auto simp: mk_main_def mk_load_def split: keys_file.splits)
  have fe: "file_entries f = es" by (rule mk_load_Inr [OF es])
  have nn: "None \<notin> set (map k_name es)" using assms(2) fe by (simp add: keys_inv_def)
  note r = assms(1) [unfolded mk_main_def es create_args_def]
  show "f' = Keys (file_entries f @ [new_entry sha n r (''sk_'' @ token) today])"
    "Some n \<notin> set (map k_name (file_entries f))" "n \<noteq> []" "out ! 1 = ''sk_'' @ token"
    using r by (auto simp: fe any_named_iff [OF nn] Let_def split: if_splits bool.splits)
qed

section \<open>Properties\<close>

text \<open>
  The cap on basic users. Whatever commands the operator runs, starting without a key file or
  from a file with the invariant, there are never more than two basic users, and names stay unique.
\<close>

theorem user_cap:
  assumes "keys_inv f" and "\<forall>c \<in> set cmds. role_choice (fst c)"
  shows "keys_inv (mk_session sha cmds f)"
  using assms by (intro keys_inv_session) (auto simp: list_all_iff)

theorem user_cap_witness:
  "keys_inv (mk_session id [(create_args ''a'' ''user'', ''1'', ''d''), (create_args ''b'' ''user'', ''2'', ''d''),
     (create_args ''c'' ''user'', ''3'', ''d''), (create_args ''o'' ''admin'', ''4'', ''d'')] NoFile) \<and>
   map k_name (file_entries (mk_session id [(create_args ''a'' ''user'', ''1'', ''d''), (create_args ''b'' ''user'', ''2'', ''d''),
     (create_args ''c'' ''user'', ''3'', ''d''), (create_args ''o'' ''admin'', ''4'', ''d'')] NoFile)) =
     [Some ''a'', Some ''b'', Some ''o'']"
  using user_cap [of NoFile "[(create_args ''a'' ''user'', ''1'', ''d''), (create_args ''b'' ''user'', ''2'', ''d''),
     (create_args ''c'' ''user'', ''3'', ''d''), (create_args ''o'' ''admin'', ''4'', ''d'')]" id]
  by (simp add: keys_inv_def file_entries_def n_users_def role_choice_def create_args_def mk_session_def
      mk_main_def mk_load_def Let_def new_entry_def MAX_USERS_def)

lemma created_key_works:
  assumes "keys_inv f" and "mk_main sha (create_args n r) token today f = (Exit 0 out, f')"
    and "\<not> env_has sha env (out ! 1)"
  shows "require_api_key sha f' env (Some (out ! 1)) = Inr \<lparr>id_name = n, authenticated = True, role = r\<rparr>"
proof -
  note c = create_file [OF assms(2,1)]
  let ?e = "new_entry sha n r (''sk_'' @ token) today"
  have o1: "out ! Suc 0 = ''sk_'' @ token" using c(4) by simp
  have "match_key sha f' env (out ! 1) = Some ?e"
    unfolding c(1) using assms(3)
    by (intro match_key_last) (simp_all add: key_matches_def new_entry_def hash_key_def o1)
  then show ?thesis
    by (simp add: require_api_key_def auth_enabled_def c(1) load_store_Keys new_entry_def o1)
qed

text \<open>
  A created key works. The key the command prints authenticates its owner under the name and
  role it was created with, unless the same key is also set in the environment.
\<close>

theorem created_key_authenticates:
  assumes "keys_inv f" and "mk_main sha (create_args n r) token today f = (Exit 0 out, f')"
    and "\<not> env_has sha env (out ! 1)"
  shows "require_api_key sha f' env (Some (out ! 1)) = Inr \<lparr>id_name = n, authenticated = True, role = r\<rparr>"
  by (rule created_key_works [OF assms])

theorem created_key_authenticates_witness:
  "require_api_key id (Keys [new_entry id ''bob'' ''admin'' ''sk_t'' ''d'']) [] (Some ''sk_t'') =
     Inr \<lparr>id_name = ''bob'', authenticated = True, role = ''admin''\<rparr>"
proof -
  have "mk_main id (create_args ''bob'' ''admin'') ''t'' ''d'' NoFile =
      (Exit 0 [''API key for '' @ py_repr ''bob'' @ '' (role='' @ ''admin'' @ ''; shown once, store it now):'', ''sk_t''],
       Keys [new_entry id ''bob'' ''admin'' ''sk_t'' ''d''])"
    by (simp add: mk_main_def create_args_def mk_load_def Let_def)
  from created_key_authenticates [OF _ this, of "[]"] show ?thesis
    by (simp add: keys_inv_def file_entries_def n_users_def env_has_def env_keys_def py_strip_def)
qed

text \<open>
  Revoking the last key turns authentication off. After the only registered key is revoked,
  and with no key in the environment, the revoked key, like any other request, is accepted as the
  local admin.
\<close>

theorem revoke_last_key_opens:
  assumes "n \<noteq> []" and "k_name e = Some n"
  shows "require_api_key sha (snd (mk_main sha (revoke_args n) token today (Keys [e]))) [] key =
           Inr \<lparr>id_name = ''local'', authenticated = False, role = ''admin''\<rparr>"
  using assms
  by (simp add: mk_main_def mk_load_def revoke_args_def require_api_key_def auth_enabled_def load_store_def
      file_entries_def env_keys_def py_strip_def)

theorem revoke_last_key_opens_witness:
  "require_api_key id (snd (mk_main id (revoke_args ''bob'') [] [] (Keys [new_entry id ''bob'' ''user'' ''sk_t'' ''d'']))) []
     (Some ''sk_t'') = Inr \<lparr>id_name = ''local'', authenticated = False, role = ''admin''\<rparr>"
  by (rule revoke_last_key_opens) (simp_all add: new_entry_def)

end
