(* ===== verification/Scoping.thy ===== *)
theory Scoping
  imports Prelude
begin

text \<open>
  The contract of a lookup that belongs to an owner, which the job table and the history store both
  promise: what is found is found only under its owner, and nobody can tell another owner's entry
  from one that does not exist.
\<close>

locale owner_scoped =
  fixes ok :: "'s \<Rightarrow> bool"
    and look :: "'s \<Rightarrow> string \<Rightarrow> string \<Rightarrow> 'v option"
    and owner :: "'s \<Rightarrow> string \<Rightarrow> string option"
  assumes look_owner: "ok s \<Longrightarrow> look s k i = Some v \<Longrightarrow> owner s k = Some i"
begin

lemma other_sees_nothing: "ok s \<Longrightarrow> owner s k = Some i \<Longrightarrow> j \<noteq> i \<Longrightarrow> look s k j = None"
  using look_owner [of s k j] by (cases "look s k j") auto

lemma at_most_one_owner: "ok s \<Longrightarrow> look s k i = Some v \<Longrightarrow> look s k j = Some w \<Longrightarrow> i = j"
  using look_owner [of s k i v] look_owner [of s k j w] by simp

text \<open>Changing an entry that belongs to somebody else goes unnoticed.\<close>

lemma foreign_change_unseen:
  assumes "ok s" "ok t" "owner s k = Some i" "owner t k = Some i \<or> owner t k = None" "j \<noteq> i"
  shows "look s k j = look t k j"
proof -
  have "look t k j = None" using assms look_owner [of t k j] by (cases "look t k j") auto
  with assms other_sees_nothing show ?thesis by simp
qed

end

end
