(* ===== verification/Jobqueue.thy ===== *)
theory Jobqueue
  imports Results Scoping
begin

text \<open>
  \<^verbatim>\<open>app/executor/jobqueue.py\<close>: the bounded queue and its worker pool. Jobs are objects
  shared by the queue, the workers and the table of tracked jobs, so they live in a store under
  references. What runs between two awaits of a task is one operation; \<open>jq_step\<close> interleaves the
  operations of the handlers, of the workers and of the shutdown.
\<close>

section \<open>State\<close>

datatype future = Pending | Resolved ExecutionResult | Failed exn | Future_cancelled

record Job =
  job_request :: ExecutionRequest
  job_identity :: string
  job_id :: string
  status :: string
  job_result :: "ExecutionResult option"
  job_future :: "future option"
  has_hook :: bool
  job_meta :: "(string, string option) dict"
  finished_at :: "real option"

definition new_job :: "ExecutionRequest \<Rightarrow> string \<Rightarrow> string \<Rightarrow> future option \<Rightarrow> bool \<Rightarrow> Job" where
  "new_job req identity jid fut hook = \<lparr>job_request = req, job_identity = identity, job_id = jid,
     status = ''queued'', job_result = None, job_future = fut, has_hook = hook, job_meta = [],
     finished_at = None\<rparr>"

text \<open>A worker waits for a job, runs one, runs a finished job's hook, or has ended.\<close>

datatype worker = Idle | Busy nat | Finishing nat | Ended

record JobQueue =
  n_workers :: nat
  maxsize :: int
  fifo :: "nat list"
  store :: "nat \<Rightarrow> Job"
  next_ref :: nat
  workers :: "worker list"
  active :: int
  jobs :: "(string, nat) dict"
  closing :: bool
  unfinished :: int
  job_ttl_s :: real

definition no_job :: Job where
  "no_job = new_job (new_request []) [] [] None False"

definition new_queue :: "nat \<Rightarrow> int \<Rightarrow> real \<Rightarrow> JobQueue" where
  "new_queue n depth ttl = \<lparr>n_workers = n, maxsize = depth, fifo = [], store = (\<lambda>_. no_job), next_ref = 0,
     workers = [], active = 0, jobs = [], closing = False, unfinished = 0, job_ttl_s = ttl\<rparr>"

section \<open>Submitting\<close>

definition start :: "JobQueue \<Rightarrow> JobQueue" where
  "start q = q\<lparr>closing := False, workers := replicate (n_workers q) Idle\<rparr>"

text \<open>\<open>put_nowait\<close> of \<open>asyncio.Queue\<close>: a size of zero or less is no bound.\<close>

definition queue_full :: "JobQueue \<Rightarrow> bool" where
  "queue_full q \<longleftrightarrow> 0 < maxsize q \<and> maxsize q \<le> int (length (fifo q))"

text \<open>\<open>None\<close> is the exception \<open>QueueFull\<close>.\<close>

definition enqueue :: "JobQueue \<Rightarrow> Job \<Rightarrow> (nat \<times> JobQueue) option" where
  "enqueue q job =
     (if closing q then None
      else if queue_full q then None
      else (let r = next_ref q in
        Some (r, q\<lparr>fifo := fifo q @ [r], store := (store q)(r := job), next_ref := r + 1,
                   unfinished := unfinished q + 1\<rparr>)))"

text \<open>\<open>submit\<close> up to its await: the caller then waits for the job's future.\<close>

definition submit :: "JobQueue \<Rightarrow> ExecutionRequest \<Rightarrow> string \<Rightarrow> string \<Rightarrow> (nat \<times> JobQueue) option" where
  "submit q req identity jid = enqueue q (new_job req identity jid (Some Pending) False)"

definition prune :: "JobQueue \<Rightarrow> real \<Rightarrow> JobQueue" where
  "prune q now = q\<lparr>jobs := filter (\<lambda>(jid, r).
     \<not> (case finished_at (store q r) of None \<Rightarrow> False | Some t \<Rightarrow> job_ttl_s q < now - t)) (jobs q)\<rparr>"

definition submit_async ::
  "JobQueue \<Rightarrow> real \<Rightarrow> ExecutionRequest \<Rightarrow> string \<Rightarrow> string \<Rightarrow> bool \<Rightarrow> string option \<times> JobQueue" where
  "submit_async q now req identity jid hook =
     (let q1 = prune q now in
      case enqueue q1 (new_job req identity jid None hook) of
        None \<Rightarrow> (None, q1)
      | Some (r, q2) \<Rightarrow> (Some jid, q2\<lparr>jobs := dset jid r (jobs q2)\<rparr>))"

definition get_job :: "JobQueue \<Rightarrow> real \<Rightarrow> string \<Rightarrow> string \<Rightarrow> Job option \<times> JobQueue" where
  "get_job q now jid identity =
     (let q1 = prune q now in
      (case dget (jobs q1) jid of None \<Rightarrow> None
       | Some r \<Rightarrow> if job_identity (store q1 r) \<noteq> identity then None else Some (store q1 r), q1))"

section \<open>Workers\<close>

text \<open>\<open>job = await queue.get()\<close> returns, and the job is marked running.\<close>

definition take_job :: "JobQueue \<Rightarrow> nat \<Rightarrow> (nat \<times> JobQueue) option" where
  "take_job q w =
     (if w < length (workers q) \<and> workers q ! w = Idle then
        (case fifo q of [] \<Rightarrow> None
         | r # rest \<Rightarrow> Some (r, q\<lparr>fifo := rest, active := active q + 1, workers := (workers q)[w := Busy r],
             store := (store q)(r := (store q r)\<lparr>status := ''running''\<rparr>)\<rparr>))
      else None)"

datatype outcome = Returned ExecutionResult | Raised exn | Cancelled

definition settle :: "future option \<Rightarrow> future \<Rightarrow> future option" where
  "settle f v = (if f = Some Pending then Some v else f)"

definition finish_job :: "Job \<Rightarrow> outcome \<Rightarrow> real \<Rightarrow> Job" where
  "finish_job j res now =
     (case res of
        Returned x \<Rightarrow> j\<lparr>job_result := Some x, status := ''done'', job_future := settle (job_future j) (Resolved x)\<rparr>
      | Cancelled \<Rightarrow> j\<lparr>job_future := settle (job_future j) Future_cancelled\<rparr>
      | Raised e \<Rightarrow> j\<lparr>status := ''error'', job_result := Some (new_result\<lparr>error := Some (exn_text e)\<rparr>),
                    job_future := settle (job_future j) (Failed e)\<rparr>)\<lparr>finished_at := Some now\<rparr>"

text \<open>
  The end of \<open>execute\<close> in a worker: the \<open>finally\<close> block has run, and with it \<open>task_done\<close>; a job with
  a hook goes on to the hook, a cancelled worker ends.
\<close>

definition finish :: "JobQueue \<Rightarrow> nat \<Rightarrow> outcome \<Rightarrow> real \<Rightarrow> JobQueue option" where
  "finish q w res now =
     (if w < length (workers q) then
        (case workers q ! w of
           Busy r \<Rightarrow> Some (q\<lparr>store := (store q)(r := finish_job (store q r) res now), active := active q - 1,
             unfinished := unfinished q - 1,
             workers := (workers q)[w := (if res = Cancelled then Ended
                else if has_hook (store q r) then Finishing r else Idle)]\<rparr>)
         | _ \<Rightarrow> None)
      else None)"

text \<open>The hook returned, having stored a history id, or raised, which the worker ignores.\<close>

definition hook_done :: "JobQueue \<Rightarrow> nat \<Rightarrow> string option option \<Rightarrow> JobQueue option" where
  "hook_done q w hist =
     (if w < length (workers q) then
        (case workers q ! w of
           Finishing r \<Rightarrow> Some (q\<lparr>workers := (workers q)[w := Idle],
             store := (case hist of None \<Rightarrow> store q
               | Some h \<Rightarrow> (store q)(r := (store q r)\<lparr>job_meta := dset ''history_id'' h (job_meta (store q r))\<rparr>))\<rparr>)
         | _ \<Rightarrow> None)
      else None)"

section \<open>Stopping\<close>

definition begin_stop :: "JobQueue \<Rightarrow> JobQueue" where
  "begin_stop q = q\<lparr>closing := True\<rparr>"

text \<open>Cancelling one worker, wherever it is.\<close>

definition cancel_worker :: "real \<Rightarrow> nat \<Rightarrow> JobQueue \<Rightarrow> JobQueue" where
  "cancel_worker now w q =
     (case workers q ! w of
        Busy r \<Rightarrow> (case finish q w Cancelled now of Some q1 \<Rightarrow> q1 | None \<Rightarrow> q)
      | _ \<Rightarrow> q\<lparr>workers := (workers q)[w := Ended]\<rparr>)"

text \<open>The rest of \<open>stop\<close>, once \<open>join\<close> returned or its grace time was over.\<close>

definition end_stop :: "real \<Rightarrow> JobQueue \<Rightarrow> JobQueue" where
  "end_stop now q = (fold (cancel_worker now) [0..<length (workers q)] q)\<lparr>workers := []\<rparr>"

record queue_stats =
  st_workers :: nat
  st_active :: int
  st_queued :: nat
  st_capacity :: int
  st_tracked :: nat

definition queue_stats :: "JobQueue \<Rightarrow> queue_stats" where
  "queue_stats q = \<lparr>st_workers = n_workers q, st_active = active q, st_queued = length (fifo q),
     st_capacity = maxsize q, st_tracked = length (jobs q)\<rparr>"

section \<open>Interleavings\<close>

datatype jq_event =
    Submit ExecutionRequest string string
  | Submit_async real ExecutionRequest string string bool
  | Poll real string string
  | Give_up nat
  | Take nat
  | Finish nat outcome real
  | Hook_done nat "string option option"
  | Begin_stop
  | End_stop real

text \<open>
  \<open>Give_up\<close> is a caller of \<open>submit\<close> that is cancelled while it waits, which cancels the future. The
  queue stops once: nothing starts it again.
\<close>

inductive jq_step :: "JobQueue \<Rightarrow> jq_event \<Rightarrow> JobQueue \<Rightarrow> bool" where
  step_submit: "submit q req i jid = Some (r, q') \<Longrightarrow> jq_step q (Submit req i jid) q'"
| step_refused: "submit q req i jid = None \<Longrightarrow> jq_step q (Submit req i jid) q"
| step_async: "submit_async q now req i jid hook = (res, q') \<Longrightarrow> jq_step q (Submit_async now req i jid hook) q'"
| step_poll: "get_job q now jid i = (res, q') \<Longrightarrow> jq_step q (Poll now jid i) q'"
| step_give_up: "r < next_ref q \<Longrightarrow> job_future (store q r) = Some Pending \<Longrightarrow>
    jq_step q (Give_up r) (q\<lparr>store := (store q)(r := (store q r)\<lparr>job_future := Some Future_cancelled\<rparr>)\<rparr>)"
| step_take: "take_job q w = Some (r, q') \<Longrightarrow> jq_step q (Take w) q'"
| step_finish: "finish q w res now = Some q' \<Longrightarrow> res \<noteq> Cancelled \<Longrightarrow> jq_step q (Finish w res now) q'"
| step_hook: "hook_done q w hist = Some q' \<Longrightarrow> jq_step q (Hook_done w hist) q'"
| step_begin_stop: "jq_step q Begin_stop (begin_stop q)"
| step_end_stop: "closing q \<Longrightarrow> jq_step q (End_stop now) (end_stop now q)"

inductive_cases jq_stepE: "jq_step q ev q'"

inductive jq_run :: "JobQueue \<Rightarrow> jq_event list \<Rightarrow> JobQueue \<Rightarrow> bool" where
  run_Nil: "jq_run q [] q"
| run_snoc: "jq_run q evs q1 \<Longrightarrow> jq_step q1 ev q2 \<Longrightarrow> jq_run q (evs @ [ev]) q2"

section \<open>Job lookups belong to their identity\<close>

definition visible_job :: "JobQueue \<times> real \<Rightarrow> string \<Rightarrow> string \<Rightarrow> Job option" where
  "visible_job s jid i = fst (get_job (fst s) (snd s) jid i)"

definition job_owner :: "JobQueue \<times> real \<Rightarrow> string \<Rightarrow> string option" where
  "job_owner s jid = map_option (\<lambda>r. job_identity (store (fst s) r)) (dget (jobs (prune (fst s) (snd s))) jid)"

lemma prune_store [simp]: "store (prune q now) = store q" "job_ttl_s (prune q now) = job_ttl_s q"
  by (simp_all add: prune_def)

interpretation js: owner_scoped "\<lambda>_. True" visible_job job_owner
  by unfold_locales
    (auto simp: visible_job_def job_owner_def get_job_def Let_def split: option.splits if_splits)

section \<open>The invariant\<close>

definition busy_at :: "JobQueue \<Rightarrow> nat set" where
  "busy_at q = {w. w < length (workers q) \<and> (\<exists>r. workers q ! w = Busy r)}"

definition busy_refs :: "JobQueue \<Rightarrow> nat set" where
  "busy_refs q = {r. Busy r \<in> set (workers q)}"

text \<open>
  \<open>k\<close> jobs have been taken. A taken job is run by exactly one worker until it has a finishing time;
  the counters count the busy workers and the unfinished jobs.
\<close>

definition taken_inv :: "nat \<Rightarrow> JobQueue \<Rightarrow> bool" where
  "taken_inv k q \<longleftrightarrow> k \<le> next_ref q \<and> fifo q = [k..<next_ref q] \<and>
     (\<forall>r < next_ref q. (status (store q r) = ''queued'') = (k \<le> r)) \<and>
     (\<forall>r < next_ref q. (finished_at (store q r) = None) = (k \<le> r \<or> r \<in> busy_refs q)) \<and>
     (\<forall>r < next_ref q. k \<le> r \<or> r \<in> busy_refs q \<longrightarrow> job_result (store q r) = None) \<and>
     (\<forall>r. r \<in> busy_refs q \<longrightarrow> r < k) \<and>
     (\<forall>r. Finishing r \<in> set (workers q) \<longrightarrow> r < k)"

definition workers_inv :: "JobQueue \<Rightarrow> bool" where
  "workers_inv q \<longleftrightarrow>
     (\<forall>v w r. v < length (workers q) \<and> w < length (workers q) \<and> workers q ! v = Busy r \<and> workers q ! w = Busy r \<longrightarrow> v = w) \<and>
     active q = int (card (busy_at q)) \<and>
     length (workers q) \<le> n_workers q"

definition jq_inv :: "JobQueue \<Rightarrow> bool" where
  "jq_inv q \<longleftrightarrow> (\<exists>k. taken_inv k q) \<and> workers_inv q \<and> unfinished q = int (length (fifo q)) + active q \<and>
     (0 < maxsize q \<longrightarrow> int (length (fifo q)) \<le> maxsize q)"

lemma busy_refs_iff: "r \<in> busy_refs q \<longleftrightarrow> (\<exists>w < length (workers q). workers q ! w = Busy r)"
  by (auto simp: busy_refs_def in_set_conv_nth)

lemma busy_update:
  assumes "w < length (workers q)"
  shows "busy_refs (q\<lparr>workers := (workers q)[w := x]\<rparr>) =
    {r. x = Busy r} \<union> {r. \<exists>v < length (workers q). v \<noteq> w \<and> workers q ! v = Busy r}"
  using assms by (auto simp: busy_refs_iff nth_list_update split: if_splits)

lemma busy_refs_split:
  assumes "w < length (workers q)"
  shows "busy_refs q = {r. workers q ! w = Busy r} \<union> {r. \<exists>v < length (workers q). v \<noteq> w \<and> workers q ! v = Busy r}"
  using assms by (auto simp: busy_refs_iff)

lemma finite_busy [simp]: "finite (busy_at q)"
  by (rule finite_subset [of _ "{..<length (workers q)}"]) (auto simp: busy_at_def)

text \<open>Operations that touch neither the workers nor the queue.\<close>

definition same_core :: "JobQueue \<Rightarrow> JobQueue \<Rightarrow> bool" where
  "same_core q q' \<longleftrightarrow> fifo q' = fifo q \<and> next_ref q' = next_ref q \<and> workers q' = workers q \<and> active q' = active q \<and>
     unfinished q' = unfinished q \<and> maxsize q' = maxsize q \<and> n_workers q' = n_workers q \<and>
     (\<forall>r. status (store q' r) = status (store q r) \<and> finished_at (store q' r) = finished_at (store q r) \<and>
          job_result (store q' r) = job_result (store q r))"

lemma same_core_inv: "same_core q q' \<Longrightarrow> jq_inv q \<Longrightarrow> jq_inv q'"
  by (simp add: same_core_def jq_inv_def taken_inv_def workers_inv_def busy_refs_def busy_at_def)

lemma same_core_prune: "same_core q (prune q now)"
  by (simp add: same_core_def prune_def)

lemma enqueue_inv:
  assumes "jq_inv q" "enqueue q (new_job req i jid fut hook) = Some (r, q')"
  shows "jq_inv q'"
proof -
  have q': "q' = q\<lparr>fifo := fifo q @ [next_ref q], store := (store q)(next_ref q := new_job req i jid fut hook),
      next_ref := next_ref q + 1, unfinished := unfinished q + 1\<rparr>" and nf: "\<not> queue_full q"
    using assms(2) by (auto simp: enqueue_def Let_def split: if_splits)
  obtain k where k: "taken_inv k q" using assms(1) by (auto simp: jq_inv_def)
  have b: "busy_refs q' = busy_refs q" "busy_at q' = busy_at q" "workers q' = workers q"
    by (simp_all add: q' busy_refs_def busy_at_def)
  have "taken_inv k q'"
    using k unfolding taken_inv_def b by (auto simp: q' new_job_def less_Suc_eq)
  moreover have "workers_inv q'" using assms(1) unfolding jq_inv_def workers_inv_def b by (simp add: q')
  moreover have "0 < maxsize q' \<longrightarrow> int (length (fifo q')) \<le> maxsize q'"
    using nf by (auto simp: q' queue_full_def)
  ultimately show ?thesis
    using assms(1) by (auto simp: jq_inv_def q')
qed

lemma take_inv:
  assumes "jq_inv q" "take_job q w = Some (r, q')"
  shows "jq_inv q'"
proof -
  obtain rest where w: "w < length (workers q)" "workers q ! w = Idle" and f: "fifo q = r # rest"
    and q': "q' = q\<lparr>fifo := rest, active := active q + 1, workers := (workers q)[w := Busy r],
             store := (store q)(r := (store q r)\<lparr>status := ''running''\<rparr>)\<rparr>"
    using assms(2) by (auto simp: take_job_def split: if_splits list.splits)
  obtain k where k: "taken_inv k q" using assms(1) by (auto simp: jq_inv_def)
  from k f have "[k..<next_ref q] = r # rest" by (simp add: taken_inv_def)
  then have r: "r = k" "k < next_ref q" "rest = [Suc k..<next_ref q]"
    by (cases "k < next_ref q"; simp add: upt_conv_Cons)+
  have fresh: "k \<notin> busy_refs q" using k by (auto simp: taken_inv_def)
  have br: "busy_refs q' = insert k (busy_refs q)"
    using busy_update [OF w(1), of "Busy k"] busy_refs_split [OF w(1)] w(2)
    by (auto simp: busy_refs_def q' r)
  have ba: "busy_at q' = insert w (busy_at q)" "w \<notin> busy_at q"
    using w by (auto simp: busy_at_def q' nth_list_update)
  have "taken_inv (Suc k) q'"
    using k r fresh w(2) unfolding taken_inv_def br
    by (auto simp: q' dest!: set_update_subset_insert [THEN subsetD])
  moreover have "workers_inv q'"
    using assms(1) ba w fresh unfolding jq_inv_def workers_inv_def
    by (auto simp: q' r nth_list_update busy_refs_iff)
  ultimately show ?thesis
    using assms(1) f by (auto simp: jq_inv_def q')
qed

lemma finish_inv:
  assumes "jq_inv q" "finish q w res now = Some q'"
  shows "jq_inv q'"
proof -
  obtain r where w: "w < length (workers q)" "workers q ! w = Busy r"
    and q0: "q' = q\<lparr>store := (store q)(r := finish_job (store q r) res now), active := active q - 1,
             unfinished := unfinished q - 1, workers := (workers q)[w := (if res = Cancelled then Ended
                else if has_hook (store q r) then Finishing r else Idle)]\<rparr>"
    using assms(2) by (auto simp: finish_def split: if_splits worker.splits)
  define x where "x = (if res = Cancelled then Ended else if has_hook (store q r) then Finishing r else Idle)"
  have x: "\<And>s. x \<noteq> Busy s" "\<And>s. x = Finishing s \<Longrightarrow> s = r" by (auto simp: x_def split: if_splits)
  note q' = q0 [folded x_def]
  obtain k where k: "taken_inv k q" using assms(1) by (auto simp: jq_inv_def)
  have one: "v = w" if "v < length (workers q)" "workers q ! v = Busy r" for v
    using that w assms(1) unfolding jq_inv_def workers_inv_def by metis
  have "busy_refs q' = {s. \<exists>v < length (workers q). v \<noteq> w \<and> workers q ! v = Busy s}"
    using busy_update [OF w(1), of x] x(1) by (simp add: busy_refs_def q')
  also have "\<dots> = busy_refs q - {r}"
    using busy_refs_split [OF w(1)] one w(2) by auto
  finally have br: "busy_refs q' = busy_refs q - {r}" .
  have ba: "busy_at q' = busy_at q - {w}" "w \<in> busy_at q"
    using w x(1) by (auto simp: busy_at_def q' nth_list_update)
  have rk: "r \<in> busy_refs q" "r < k" using k w by (auto simp: taken_inv_def busy_refs_iff)
  have fj: "finished_at (finish_job j res now) = Some now"
    "status (finish_job j res now) = ''queued'' \<longleftrightarrow> res = Cancelled \<and> status j = ''queued''" for j
    by (auto simp: finish_job_def split: outcome.splits)
  have "taken_inv k q'"
    using k rk x(2) unfolding taken_inv_def br
    by (auto simp: q' fj dest!: set_update_subset_insert [THEN subsetD])
  moreover have "workers_inv q'"
  proof -
    have old: "v \<noteq> w \<and> workers q ! v = Busy s"
      if "v < length (workers q)" "(workers q)[w := x] ! v = Busy s" for v s
      using that x(1) by (cases "v = w") auto
    have "int (card (busy_at q')) = int (card (busy_at q)) - 1"
      using ba card_Suc_Diff1 [of "busy_at q" w] by simp
    moreover have "active q = int (card (busy_at q))" "length (workers q) \<le> n_workers q"
      using assms(1) by (auto simp: jq_inv_def workers_inv_def)
    moreover have "u = v" if "u < length (workers q)" "v < length (workers q)"
        "(workers q)[w := x] ! u = Busy s" "(workers q)[w := x] ! v = Busy s" for u v s
      using that(1,2) old [OF that(1,3)] old [OF that(2,4)] assms(1)
      unfolding jq_inv_def workers_inv_def by blast
    ultimately show ?thesis unfolding workers_inv_def by (auto simp: q')
  qed
  ultimately show ?thesis
    using assms(1) by (auto simp: jq_inv_def q')
qed

lemma drop_worker_inv:
  assumes "jq_inv q" "w < length (workers q)" "\<And>r. workers q ! w \<noteq> Busy r"
    "\<And>r. x \<noteq> Busy r" "\<And>r. x \<noteq> Finishing r"
    "\<And>r. status (st r) = status (store q r) \<and> finished_at (st r) = finished_at (store q r) \<and>
          job_result (st r) = job_result (store q r)"
  shows "jq_inv (q\<lparr>workers := (workers q)[w := x], store := st\<rparr>)"
proof -
  let ?q = "q\<lparr>workers := (workers q)[w := x], store := st\<rparr>"
  have br: "busy_refs ?q = busy_refs q"
    using busy_update [OF assms(2), of x] busy_refs_split [OF assms(2)] assms(3,4) by (simp add: busy_refs_def)
  have old: "workers q ! v = Busy s" if "v < length (workers q)" "(workers q)[w := x] ! v = Busy s" for v s
    using that assms(4) by (cases "v = w") auto
  have new: "(workers q)[w := x] ! v = Busy s" if "v < length (workers q)" "workers q ! v = Busy s" for v s
    using that assms(3) by (cases "v = w") auto
  have ba: "busy_at ?q = busy_at q"
    by (rule set_eqI) (simp add: busy_at_def, blast intro: new dest: old)
  have fin: "Finishing r \<in> set (workers q)" if "Finishing r \<in> set (workers ?q)" for r
  proof -
    have "Finishing r \<in> insert x (set (workers q))"
      using that set_update_subset_insert [of "workers q" w x] by auto
    with assms(5) [of r] show ?thesis by auto
  qed
  have same: "fifo ?q = fifo q" "next_ref ?q = next_ref q" "status (store ?q r) = status (store q r)"
    "finished_at (store ?q r) = finished_at (store q r)" "job_result (store ?q r) = job_result (store q r)" for r
    by (simp_all add: assms(6))
  obtain k where "taken_inv k q" using assms(1) by (auto simp: jq_inv_def)
  then have taken: "taken_inv k ?q"
    using fin unfolding taken_inv_def br same by blast
  have "u = v" if "u < length (workers q)" "v < length (workers q)"
      "(workers q)[w := x] ! u = Busy s" "(workers q)[w := x] ! v = Busy s" for u v s
    using that(1,2) old [OF that(1,3)] old [OF that(2,4)] assms(1)
    unfolding jq_inv_def workers_inv_def by blast
  moreover have "active q = int (card (busy_at q))" "length (workers q) \<le> n_workers q"
    using assms(1) by (auto simp: jq_inv_def workers_inv_def)
  ultimately have "workers_inv ?q"
    unfolding workers_inv_def ba by auto
  with taken show ?thesis using assms(1) by (auto simp: jq_inv_def)
qed

lemma hook_inv: "jq_inv q \<Longrightarrow> hook_done q w hist = Some q' \<Longrightarrow> jq_inv q'"
proof -
  assume inv: "jq_inv q" and h: "hook_done q w hist = Some q'"
  then obtain r where w: "w < length (workers q)" "workers q ! w = Finishing r"
    and q': "q' = q\<lparr>workers := (workers q)[w := Idle],
             store := (case hist of None \<Rightarrow> store q
               | Some h \<Rightarrow> (store q)(r := (store q r)\<lparr>job_meta := dset ''history_id'' h (job_meta (store q r))\<rparr>))\<rparr>"
    by (auto simp: hook_done_def split: if_splits worker.splits)
  show ?thesis
    unfolding q' by (rule drop_worker_inv [OF inv w(1)]) (auto simp: w(2) split: option.splits)
qed

lemma cancel_worker_inv:
  assumes "jq_inv q" "w < length (workers q)"
  shows "jq_inv (cancel_worker now w q)" "length (workers (cancel_worker now w q)) = length (workers q)"
    "workers (cancel_worker now w q) ! w = Ended" "v \<noteq> w \<Longrightarrow> workers (cancel_worker now w q) ! v = workers q ! v"
proof -
  show "jq_inv (cancel_worker now w q)"
  proof (cases "workers q ! w")
    case (Busy r)
    then obtain q1 where "finish q w Cancelled now = Some q1" using assms(2) by (auto simp: finish_def)
    with Busy finish_inv [OF assms(1)] show ?thesis by (simp add: cancel_worker_def)
  qed (use drop_worker_inv [OF assms, of Ended "store q"] in \<open>simp_all add: cancel_worker_def\<close>)
  show "length (workers (cancel_worker now w q)) = length (workers q)"
    "workers (cancel_worker now w q) ! w = Ended" "v \<noteq> w \<Longrightarrow> workers (cancel_worker now w q) ! v = workers q ! v"
    using assms(2) by (auto simp: cancel_worker_def finish_def split: worker.splits)
qed

lemma cancel_all:
  assumes "jq_inv q" "n \<le> length (workers q)"
  shows "jq_inv (fold (cancel_worker now) [0..<n] q) \<and>
    length (workers (fold (cancel_worker now) [0..<n] q)) = length (workers q) \<and>
    (\<forall>v < n. workers (fold (cancel_worker now) [0..<n] q) ! v = Ended)"
  using assms(2)
proof (induction n)
  case (Suc n)
  let ?q = "fold (cancel_worker now) [0..<n] q"
  from Suc have ih: "jq_inv ?q" "length (workers ?q) = length (workers q)" "\<forall>v < n. workers ?q ! v = Ended" by auto
  with Suc.prems have n: "n < length (workers ?q)" by simp
  from cancel_worker_inv [OF ih(1) n] ih show ?case by (auto simp: less_Suc_eq)
qed (use assms(1) in simp)

lemma end_stop_inv: "jq_inv q \<Longrightarrow> jq_inv (end_stop now q)"
proof -
  assume "jq_inv q"
  let ?q = "fold (cancel_worker now) [0..<length (workers q)] q"
  from cancel_all [OF \<open>jq_inv q\<close>, of "length (workers q)" now] have c: "jq_inv ?q"
    "\<forall>v < length (workers ?q). workers ?q ! v = Ended" by auto
  then have "busy_refs ?q = {}" "busy_at ?q = {}" "\<And>r. Finishing r \<notin> set (workers ?q)"
    by (auto simp: busy_refs_iff busy_at_def in_set_conv_nth)
  with c(1) show ?thesis
    by (simp add: end_stop_def jq_inv_def taken_inv_def workers_inv_def busy_refs_def busy_at_def)
qed

lemma start_inv: "jq_inv (start (new_queue n depth ttl))"
proof -
  have w: "busy_refs (start (new_queue n depth ttl)) = {}" "busy_at (start (new_queue n depth ttl)) = {}"
    by (auto simp: busy_refs_def busy_at_def start_def new_queue_def)
  show ?thesis
    unfolding jq_inv_def taken_inv_def workers_inv_def w
    by (auto simp: start_def new_queue_def)
qed

lemma same_core_async: "jq_inv q \<Longrightarrow> submit_async q now req i jid hook = (res, q') \<Longrightarrow> jq_inv q'"
proof -
  assume inv: "jq_inv q" and s: "submit_async q now req i jid hook = (res, q')"
  have inv1: "jq_inv (prune q now)" by (rule same_core_inv [OF same_core_prune inv])
  show ?thesis
  proof (cases "enqueue (prune q now) (new_job req i jid None hook)")
    case None
    with s inv1 show ?thesis by (auto simp: submit_async_def Let_def)
  next
    case (Some p)
    obtain r q2 where p: "p = (r, q2)" by (cases p)
    with s Some have q': "q' = q2\<lparr>jobs := dset jid r (jobs q2)\<rparr>" by (auto simp: submit_async_def Let_def)
    have "same_core q2 q'" by (simp add: same_core_def q')
    then show ?thesis using enqueue_inv [OF inv1] Some p same_core_inv by simp
  qed
qed

lemma jq_step_inv [inv_intros]:
  assumes "jq_inv q" "jq_step q ev q'"
  shows "jq_inv q'"
  using assms(2)
proof (cases rule: jq_step.cases)
  case (step_submit req i jid r)
  then show ?thesis using enqueue_inv [OF assms(1)] by (simp add: submit_def)
next
  case (step_async now req i jid hook res)
  then show ?thesis using same_core_async [OF assms(1)] by simp
next
  case (step_poll now jid i res)
  then show ?thesis
    using same_core_inv [OF same_core_prune assms(1), of now] by (auto simp: get_job_def Let_def)
next
  case (step_give_up r)
  have "same_core q q'" unfolding step_give_up by (simp add: same_core_def)
  then show ?thesis using assms(1) by (rule same_core_inv)
next
  case step_begin_stop
  have "same_core q q'" unfolding step_begin_stop by (simp add: same_core_def begin_stop_def)
  then show ?thesis using assms(1) by (rule same_core_inv)
qed (use assms(1) in \<open>auto intro: take_inv finish_inv hook_inv end_stop_inv\<close>)

lemma jq_run_inv: "jq_run q evs q' \<Longrightarrow> jq_inv q \<Longrightarrow> jq_inv q'"
  by (induction rule: jq_run.induct) (auto intro: jq_step_inv)

text \<open>Settings that no step changes.\<close>

lemma enqueue_config: "enqueue q j = Some (r, q') \<Longrightarrow> n_workers q' = n_workers q \<and> maxsize q' = maxsize q"
  by (auto simp: enqueue_def Let_def split: if_splits)

lemma cancel_worker_config [simp]:
  "n_workers (cancel_worker now w q) = n_workers q" "maxsize (cancel_worker now w q) = maxsize q"
  by (simp_all add: cancel_worker_def finish_def split: worker.splits)

lemma cancel_all_config [simp]:
  "n_workers (fold (cancel_worker now) ws q) = n_workers q" "maxsize (fold (cancel_worker now) ws q) = maxsize q"
  by (induction ws arbitrary: q) simp_all

lemma prune_config [simp]: "n_workers (prune q now) = n_workers q" "maxsize (prune q now) = maxsize q"
  by (simp_all add: prune_def)

lemma jq_step_config: "jq_step q ev q' \<Longrightarrow> n_workers q' = n_workers q \<and> maxsize q' = maxsize q"
  by (induction rule: jq_step.induct)
    (auto simp: submit_def submit_async_def get_job_def Let_def begin_stop_def end_stop_def take_job_def
      finish_def hook_done_def dest: enqueue_config split: if_splits list.splits worker.splits option.splits)

lemma jq_run_config: "jq_run q evs q' \<Longrightarrow> n_workers q' = n_workers q \<and> maxsize q' = maxsize q"
  by (induction rule: jq_run.induct) (auto dest: jq_step_config)

lemma busy_at_bound: "workers_inv q \<Longrightarrow> active q \<le> int (n_workers q)"
proof -
  assume w: "workers_inv q"
  have "card (busy_at q) \<le> card {..<length (workers q)}" by (rule card_mono) (auto simp: busy_at_def)
  with w show ?thesis by (simp add: workers_inv_def)
qed

section \<open>Finished jobs stay as they are\<close>

lemma settled_step:
  assumes "jq_inv q" "jq_step q ev q'" "r < next_ref q" "job_result (store q r) = Some x"
  shows "r < next_ref q' \<and> job_result (store q' r) = Some x \<and> status (store q' r) = status (store q r)"
proof -
  obtain k where k: "taken_inv k q" using assms(1) by (auto simp: jq_inv_def)
  with assms(3,4) have r: "r < k" "r \<notin> busy_refs q" by (force simp: taken_inv_def)+
  have other: "workers q ! w \<noteq> Busy r" if "w < length (workers q)" for w
    using r(2) that by (auto simp: busy_refs_iff)
  show ?thesis
    using assms(2)
  proof (cases rule: jq_step.cases)
    case (step_submit req i jid s)
    with assms(3,4) show ?thesis by (auto simp: submit_def enqueue_def Let_def split: if_splits)
  next
    case (step_async now req i jid hook res)
    with assms(3,4) show ?thesis
      by (auto simp: submit_async_def enqueue_def Let_def prune_def split: if_splits option.splits)
  next
    case (step_take w s)
    with k have "s = k" by (auto simp: take_job_def taken_inv_def upt_eq_Cons_conv split: if_splits list.splits)
    with step_take r assms(3,4) show ?thesis by (auto simp: take_job_def split: if_splits list.splits)
  next
    case (step_finish w res now)
    with other assms(3,4) show ?thesis by (auto simp: finish_def split: if_splits worker.splits)
  next
    case (step_hook w hist)
    with assms(3,4) show ?thesis by (auto simp: hook_done_def split: if_splits worker.splits option.splits)
  next
    case (step_end_stop now)
    have "store (fold (cancel_worker now) ws p) r = store p r \<and> next_ref (fold (cancel_worker now) ws p) = next_ref p"
      if "r \<notin> busy_refs p" "set ws \<subseteq> {..<length (workers p)}" for ws p
      using that
    proof (induction ws arbitrary: p)
      case (Cons w ws)
      then have w: "w < length (workers p)" by simp
      have "store (cancel_worker now w p) r = store p r" "next_ref (cancel_worker now w p) = next_ref p"
        "length (workers (cancel_worker now w p)) = length (workers p)" "r \<notin> busy_refs (cancel_worker now w p)"
        using w Cons.prems(1) by (auto simp: cancel_worker_def finish_def busy_refs_iff nth_list_update
            split: worker.splits if_splits)
      with Cons show ?case by simp
    qed simp
    from this [OF r(2), of "[0..<length (workers q)]"] step_end_stop assms(3,4) show ?thesis
      by (simp add: end_stop_def lessThan_atLeast0)
  qed (use assms(3,4) in \<open>auto simp: get_job_def Let_def begin_stop_def prune_def\<close>)
qed

lemma settled_run:
  "jq_run q evs q' \<Longrightarrow> jq_inv q \<Longrightarrow> r < next_ref q \<Longrightarrow> job_result (store q r) = Some x \<Longrightarrow>
     r < next_ref q' \<and> job_result (store q' r) = Some x \<and> status (store q' r) = status (store q r)"
proof (induction rule: jq_run.induct)
  case (run_snoc q evs q1 ev q2)
  from run_snoc.IH [OF run_snoc.prems] settled_step [OF jq_run_inv [OF run_snoc.hyps(1) run_snoc.prems(1)] run_snoc.hyps(2)]
  show ?case by auto
qed simp

section \<open>Properties\<close>

text \<open>
  C10. The queue under any interleaving. In every state the queue can get into, at most the configured
  number of jobs runs, the waiting jobs stay within the configured depth, the counter that \<open>join\<close>
  waits for is exactly the jobs waiting and running, and jobs leave the queue in the order they
  were accepted: the waiting ones are the latest accepted, none is lost, repeated or overtaken.
\<close>

theorem jobqueue_bounds:
  assumes "jq_run (start (new_queue n depth ttl)) evs q"
  shows "0 \<le> active q \<and> active q \<le> int n \<and>
         (if 0 < depth then int (length (fifo q)) \<le> depth else True) \<and>
         unfinished q = int (length (fifo q)) + active q \<and>
         (\<exists>k. fifo q = [k..<next_ref q] \<and> {r. r < next_ref q \<and> status (store q r) = ''queued''} = {k..<next_ref q})"
proof -
  have inv: "jq_inv q" using jq_run_inv [OF assms] start_inv by simp
  have conf: "n_workers q = n" "maxsize q = depth"
    using jq_run_config [OF assms] by (simp_all add: start_def new_queue_def)
  obtain k where k: "taken_inv k q" and w: "workers_inv q" using inv by (auto simp: jq_inv_def)
  have "0 \<le> active q" "active q \<le> int n"
    using w busy_at_bound [OF w] conf by (auto simp: workers_inv_def)
  moreover have "fifo q = [k..<next_ref q] \<and> {r. r < next_ref q \<and> status (store q r) = ''queued''} = {k..<next_ref q}"
    using k by (auto simp: taken_inv_def)
  ultimately show ?thesis using inv conf by (auto simp: jq_inv_def)
qed

text \<open>One asynchronous job that runs, and whose hook has not returned yet.\<close>

definition one_job :: "jq_event list" where
  "one_job = [Submit_async 0 (new_request [''p'']) ''alice'' ''j1'' True, Take 0, Finish 0 (Returned new_result) 5]"

definition after_one_job :: JobQueue where
  "after_one_job = (start (new_queue 1 1 300))\<lparr>
     store := (\<lambda>_. no_job)(0 := (new_job (new_request [''p'']) ''alice'' ''j1'' None True)
        \<lparr>status := ''done'', job_result := Some new_result, finished_at := Some 5\<rparr>),
     next_ref := 1, workers := [Finishing 0], jobs := [(''j1'', 0)]\<rparr>"

lemma one_job_run: "jq_run (start (new_queue 1 1 300)) one_job after_one_job"
proof -
  let ?q0 = "start (new_queue 1 1 300)" and ?j = "new_job (new_request [''p'']) ''alice'' ''j1'' None True"
  let ?q1 = "?q0\<lparr>fifo := [0], store := (\<lambda>_. no_job)(0 := ?j), next_ref := 1, unfinished := 1, jobs := [(''j1'', 0)]\<rparr>"
  let ?q2 = "?q1\<lparr>fifo := [], active := 1, workers := [Busy 0],
    store := (\<lambda>_. no_job)(0 := ?j\<lparr>status := ''running''\<rparr>)\<rparr>"
  have "jq_step ?q0 (Submit_async 0 (new_request [''p'']) ''alice'' ''j1'' True) ?q1"
    by (rule step_async [of _ _ _ _ _ _ "Some ''j1''"])
      (simp add: submit_async_def enqueue_def queue_full_def prune_def start_def new_queue_def)
  moreover have "jq_step ?q1 (Take 0) ?q2"
    by (rule step_take [of _ _ 0]) (simp add: take_job_def start_def new_queue_def)
  moreover have "jq_step ?q2 (Finish 0 (Returned new_result) 5) after_one_job"
    by (rule step_finish)
      (simp_all add: finish_def finish_job_def settle_def new_job_def after_one_job_def start_def new_queue_def)
  ultimately show ?thesis
    unfolding one_job_def
    using run_snoc [OF run_snoc [OF run_snoc [OF run_Nil]]] by fastforce
qed

theorem jobqueue_bounds_witness:
  "active after_one_job \<le> 1 \<and> unfinished after_one_job = int (length (fifo after_one_job)) + active after_one_job"
  using jobqueue_bounds [OF one_job_run] by simp

text \<open>
  Jobs belong to whoever submitted them. A lookup finds a tracked job only under the identity it
  was submitted with: for every other identity, an existing job and a job that never existed give
  the same answer.
\<close>

theorem get_job_scoped:
  assumes "dget (jobs (prune q now)) jid = Some r" and "job_identity (store q r) = i" and "j \<noteq> i"
  shows "fst (get_job q now jid j) = None \<and> fst (get_job q now jid i) = Some (store q r)"
proof -
  have "job_owner (q, now) jid = Some i" using assms(1,2) by (simp add: job_owner_def)
  from js.other_sees_nothing [OF TrueI this assms(3)] show ?thesis
    using assms(1,2) by (simp add: visible_job_def get_job_def Let_def)
qed

theorem get_job_scoped_witness:
  "fst (get_job after_one_job 6 ''j1'' ''bob'') = None \<and>
   fst (get_job after_one_job 6 ''j1'' ''alice'') = Some (store after_one_job 0)"
  by (rule get_job_scoped)
    (simp_all add: after_one_job_def prune_def new_job_def start_def new_queue_def)

text \<open>
  A finished job stays finished. Once a job has a result, no later step of any kind, pruning and
  shutdown included, changes the result or the status of that job.
\<close>

theorem finished_job_stable:
  assumes "jq_run (start (new_queue n depth ttl)) evs q" and "jq_run q later q'"
    and "r < next_ref q" and "job_result (store q r) = Some x"
  shows "job_result (store q' r) = Some x \<and> status (store q' r) = status (store q r)"
  using settled_run [OF assms(2) jq_run_inv [OF assms(1) start_inv] assms(3,4)] by simp

theorem finished_job_stable_witness:
  "job_result (store (end_stop 9 (begin_stop after_one_job)) 0) = Some new_result \<and>
   status (store (end_stop 9 (begin_stop after_one_job)) 0) = ''done''"
proof -
  have "closing (begin_stop after_one_job)" by (simp add: begin_stop_def)
  then have "jq_run after_one_job (([] @ [Begin_stop]) @ [End_stop 9]) (end_stop 9 (begin_stop after_one_job))"
    by (rule run_snoc [OF run_snoc [OF run_Nil step_begin_stop] step_end_stop])
  from finished_job_stable [OF one_job_run this, of 0 new_result] show ?thesis
    by (simp add: after_one_job_def)
qed

text \<open>
  A graceful stop can lose a finished job's bookkeeping. The queue can get into a state in which
  \<open>join\<close> has nothing left to wait for although a worker is still in the hook that stores the result
  and gives the rate-limit slot back; the stop then ends that worker, whatever grace time was given.
\<close>

theorem stop_loses_hook:
  "\<exists>evs q. jq_run (start (new_queue 1 1 300)) evs q \<and> unfinished q = 0 \<and> workers q = [Finishing 0] \<and>
     workers (cancel_worker now 0 (begin_stop q)) = [Ended] \<and>
     hook_done (end_stop now (begin_stop q)) 0 hist = None \<and>
     job_meta (store (end_stop now (begin_stop q)) 0) = []"
proof (intro exI conjI)
  show "jq_run (start (new_queue 1 1 300)) one_job after_one_job" by (rule one_job_run)
qed (simp_all add: after_one_job_def begin_stop_def end_stop_def cancel_worker_def hook_done_def
    new_job_def start_def new_queue_def)

end
