(* ===== verification/Runner.thy ===== *)
theory Runner
  imports Results Oci
begin

text \<open>
  \<^verbatim>\<open>app/executor/runner.py\<close>, the pure parts: reading a pipe up to a cap, the names of
  staged files and cache directories, the launch command, and recognising a failed launch.
\<close>

section \<open>Settings\<close>

text \<open>The module's constants that are read from the environment.\<close>

record settings =
  RUNTIME_ROOT :: path
  RUNSC :: string
  sandbox_debug :: bool
  LAUNCH_RETRIES :: int
  CACHE_PER_IDENTITY :: bool

definition ROOTFS :: "settings \<Rightarrow> path" where
  "ROOTFS S = path_join (RUNTIME_ROOT S) ''rootfs''"

definition RUNS_DIR :: "settings \<Rightarrow> path" where
  "RUNS_DIR S = path_join (RUNTIME_ROOT S) ''runs''"

definition CACHE_DIR :: "settings \<Rightarrow> path" where
  "CACHE_DIR S = path_join (RUNTIME_ROOT S) ''cache''"

definition TRANSIENT_MARKERS :: "string list" where
  "TRANSIENT_MARKERS = [
     ''cannot read client sync file'', ''waiting for sandbox to start'',
     ''cannot create sandbox'', ''creating container'', ''error reserving'',
     ''failed to start transient scope'', ''connection timed out'',
     ''transport endpoint is not connected'', ''resource temporarily unavailable'']"

definition RUNSC_FLAGS :: "settings \<Rightarrow> string list" where
  "RUNSC_FLAGS S = [''--rootless'', ''--network=none'', ''--platform=systrap'', ''--oci-seccomp''] @
     (if sandbox_debug S then [''--debug'', ''--debug-log=/tmp/sandbox-runsc.log'', ''--strace''] else [])"

section \<open>Reading a pipe\<close>

text \<open>The chunks a pipe delivers; an empty chunk is the end of file, as is the end of the list.\<close>

fun read_loop :: "int \<Rightarrow> byte list \<Rightarrow> bool \<Rightarrow> byte list list \<Rightarrow> byte list \<times> bool" where
  "read_loop cap buf truncated [] = (buf, truncated)"
| "read_loop cap buf truncated (chunk # rest) =
     (if chunk = [] then (buf, truncated)
      else (let buf1 = (if int (length buf) < cap then buf @ take (nat (cap - int (length buf))) chunk else buf)
            in read_loop cap buf1 (truncated \<or> cap \<le> int (length buf1)) rest))"

definition read_capped :: "int \<Rightarrow> byte list list \<Rightarrow> byte list \<times> bool" where
  "read_capped cap chunks = read_loop cap [] False chunks"

section \<open>Names\<close>

definition safe_seg :: "string \<Rightarrow> string" where
  "safe_seg name =
     (let seg = map (\<lambda>c. if py_isalnum c \<or> c \<in> set ''-_'' then c else CHR ''_'') name
      in if take 64 seg = [] then ''_'' else take 64 seg)"

definition sanitize_filename :: "string \<Rightarrow> exn + string" where
  "sanitize_filename name =
     (let clean = py_basename (map (\<lambda>c. if c = char_of (92::nat) then CHR ''/'' else c) name)
      in if clean = [] \<or> clean \<in> {''.'', ''..''} \<or> prefix ''.'' clean \<or> 255 < length clean
            \<or> list_ex (\<lambda>c. ord_c c < 32) clean
         then Inl (ValueError (''illegal file name: '' @ py_repr name))
         else Inr clean)"

section \<open>Launching\<close>

definition launch_cmd :: "settings \<Rightarrow> path \<Rightarrow> path \<Rightarrow> string \<Rightarrow> Limits \<Rightarrow> string list" where
  "launch_cmd S state bundle cid l =
     [''systemd-run'', ''--user'', ''--scope'', ''--collect'', ''-q'',
      ''-p'', ''MemoryMax='' @ memory_max l,
      ''-p'', ''MemorySwapMax='' @ memory_swap_max l,
      ''-p'', ''TasksMax='' @ show_int (pids_max l),
      ''-p'', ''CPUQuota='' @ show_int (cpu_quota_pct l) @ ''%'',
      ''--'', RUNSC S] @ RUNSC_FLAGS S @ [''--root='' @ path_str state,
      ''run'', ''--bundle'', path_str bundle, cid]"

definition kill_cmd :: "settings \<Rightarrow> path \<Rightarrow> string \<Rightarrow> string list" where
  "kill_cmd S state cid = [RUNSC S] @ RUNSC_FLAGS S @ [''--root='' @ path_str state, ''kill'', cid, ''KILL'']"

definition delete_cmd :: "settings \<Rightarrow> path \<Rightarrow> string \<Rightarrow> string list" where
  "delete_cmd S state cid =
     [RUNSC S] @ RUNSC_FLAGS S @ [''--root='' @ path_str state, ''delete'', ''--force'', cid]"

definition is_transient_launch_failure :: "ExecutionResult \<Rightarrow> bool" where
  "is_transient_launch_failure res =
     (if timed_out res \<or> truthy_opt (error res) \<or> stdout res \<noteq> [] \<or> exit_code res \<noteq> Some 128 then False
      else list_ex (\<lambda>m. sublist m (py_lower (stderr res))) TRANSIENT_MARKERS)"

text \<open>Where the build cache of a run is.\<close>

definition cache_path :: "settings \<Rightarrow> string \<Rightarrow> string \<Rightarrow> path" where
  "cache_path S identity cache =
     (let base = path_join (RUNTIME_ROOT S) ''cache'';
          base1 = (if CACHE_PER_IDENTITY S then path_join base (safe_seg identity) else base)
      in path_join base1 cache)"

section \<open>Facts about the pure parts\<close>

lemma read_loop_spec:
  assumes "\<forall>c \<in> set cs. c \<noteq> []" "buf = take (nat cap) pre"
  shows "read_loop cap buf t cs =
    (take (nat cap) (pre @ concat cs), t \<or> cs \<noteq> [] \<and> cap \<le> int (length (pre @ concat cs)))"
  using assms
proof (induction cs arbitrary: buf t pre)
  case (Cons c cs)
  define buf1 where "buf1 = (if int (length buf) < cap then buf @ take (nat (cap - int (length buf))) c else buf)"
  have b: "buf1 = take (nat cap) (pre @ c)"
    using Cons.prems(2) by (auto simp: buf1_def nat_diff_distrib min_def)
  have l: "cap \<le> int (length buf1) \<longleftrightarrow> cap \<le> int (length (pre @ c))"
    by (auto simp: b)
  have step: "read_loop cap buf t (c # cs) = read_loop cap buf1 (t \<or> cap \<le> int (length buf1)) cs"
    using Cons.prems(1) by (simp add: buf1_def Let_def)
  show ?case
    unfolding step
    by (subst Cons.IH [OF _ b]) (use Cons.prems(1) l in auto)
qed simp

lemma safe_seg_plain: "plain_segment (safe_seg n)"
proof -
  have dots: "c \<noteq> CHR ''/'' \<and> c \<noteq> CHR ''.''" if "c \<in> set (safe_seg n)" for c
    using that by (auto simp: safe_seg_def Let_def py_isalnum_def split: if_splits dest!: in_set_takeD)
  have "safe_seg n \<noteq> []" by (simp add: safe_seg_def Let_def)
  with dots [of "hd (safe_seg n)"] dots show ?thesis
    by (fastforce simp: plain_segment_def)
qed

lemma length_safe_seg: "length (safe_seg n) \<le> 64"
  by (simp add: safe_seg_def Let_def)

lemma sanitize_Inr_plain:
  "sanitize_filename n = Inr s \<Longrightarrow>
     plain_segment s \<and> \<not> prefix ''.'' s \<and> length s \<le> 255 \<and> list_all (\<lambda>c. 32 \<le> ord_c c) s"
  by (auto simp: sanitize_filename_def Let_def plain_segment_def py_basename_no_slash
      list_ex_iff list_all_iff not_less split: if_splits)

lemma sanitize_Inl: "sanitize_filename n = Inl e \<Longrightarrow> e = ValueError (''illegal file name: '' @ py_repr n)"
  by (auto simp: sanitize_filename_def Let_def split: if_splits)

text \<open>A name that is a bare name already is kept or rejected, never changed.\<close>

lemma sanitize_bare:
  assumes "CHR ''/'' \<notin> set n" "char_of (92::nat) \<notin> set n" "n \<noteq> []" "length n \<le> 255"
    "list_all (\<lambda>c. 32 \<le> ord_c c) n"
  shows "sanitize_filename n =
    (if prefix ''.'' n then Inl (ValueError (''illegal file name: '' @ py_repr n)) else Inr n)"
proof -
  have "map (\<lambda>c. if c = char_of (92::nat) then CHR ''/'' else c) n = n"
    using assms(2) by (intro map_idI) auto
  with assms show ?thesis
    by (auto simp: sanitize_filename_def Let_def py_basename_id list_ex_iff list_all_iff not_less)
qed

lemma cache_path_below:
  assumes "plain_segment c"
  shows "cache_path S i c = CACHE_DIR S @ (if CACHE_PER_IDENTITY S then [safe_seg i, c] else [c])"
  using assms by (simp add: cache_path_def CACHE_DIR_def Let_def path_join_plain safe_seg_plain)

section \<open>Properties\<close>

text \<open>
  Capped reading. Whatever the chunking, reading a pipe keeps exactly the first \<open>cap\<close> bytes of
  what was written and drains the rest, and the truncation mark is set exactly when at least \<open>cap\<close>
  bytes arrived: also for output that fits the cap exactly and lost nothing.
\<close>

theorem read_capped_spec:
  assumes "\<forall>c \<in> set chunks. c \<noteq> []"
  shows "read_capped cap chunks =
    (take (nat cap) (concat chunks), chunks \<noteq> [] \<and> cap \<le> int (length (concat chunks)))"
  using read_loop_spec [OF assms, of "[]" cap "[]" False] by (simp add: read_capped_def)

theorem read_capped_spec_witness:
  "read_capped 3 [[1, 2], [3]] = ([1, 2, 3], True) \<and> read_capped 3 [[1, 2], [3, 4]] = ([1, 2, 3], True) \<and>
   read_capped 3 [[1, 2]] = ([1, 2], False)"
  using read_capped_spec [of "[[1, 2], [3]]" 3] read_capped_spec [of "[[1, 2], [3, 4]]" 3]
    read_capped_spec [of "[[1, 2]]" 3]
  by (simp add: eval_nat_numeral)

end
