(* ===== verification/Exec.thy ===== *)
theory Exec
  imports Runner
begin

text \<open>
  \<^verbatim>\<open>app/executor/runner.py\<close>, the life of a run: stage, compile, run, collect, destroy. The
  state is the host's file system and the log of what was done to containers. The container
  runtime is a parameter: what a launched process prints, how it ends and what it does to the file
  system, and whether a control command of the runtime raises.
\<close>

section \<open>The host\<close>

record launch_spec =
  sp_cid :: string
  sp_cmd :: "string list"
  sp_config :: oci_config
  sp_state :: path
  sp_bundle :: path
  sp_stdin :: "byte list"
  sp_timeout :: real

text \<open>
  What a launched process did: the chunks of its two pipes, its return code or \<open>None\<close> if it had
  not ended after the timeout, the seconds until its pipes were read, and the files afterwards.
\<close>

record process_run =
  pr_out :: "byte list list"
  pr_err :: "byte list list"
  pr_returncode :: "int option"
  pr_elapsed :: real
  pr_fs :: fs

datatype event = Launched launch_spec | Kill_called string | Proc_killed string | Delete_called string

record world =
  files :: fs
  done_log :: "event list"

text \<open>
  The runtime sees the number of events before it, so two launches may behave differently. Starting
  a process and a control command (\<open>subprocess.run\<close> with its timeout) may raise.
\<close>

record host =
  h_launch :: "nat \<Rightarrow> launch_spec \<Rightarrow> fs \<Rightarrow> exn + process_run"
  h_control :: "nat \<Rightarrow> string list \<Rightarrow> exn option"

section \<open>Actions\<close>

text \<open>An action may raise and always leaves a world.\<close>

type_synonym 'a act = "world \<Rightarrow> (exn + 'a) \<times> world"

definition ret :: "'a \<Rightarrow> 'a act" where
  "ret x w = (Inr x, w)"

definition raise :: "exn \<Rightarrow> 'a act" where
  "raise e w = (Inl e, w)"

definition bind_act :: "'a act \<Rightarrow> ('a \<Rightarrow> 'b act) \<Rightarrow> 'b act" where
  "bind_act m f w = (case m w of (Inl e, w1) \<Rightarrow> (Inl e, w1) | (Inr x, w1) \<Rightarrow> f x w1)"

definition on_files :: "(fs \<Rightarrow> exn + fs) \<Rightarrow> unit act" where
  "on_files f w = (case f (files w) of Inl e \<Rightarrow> (Inl e, w) | Inr g \<Rightarrow> (Inr (), w\<lparr>files := g\<rparr>))"

definition note_event :: "event \<Rightarrow> unit act" where
  "note_event e w = (Inr (), w\<lparr>done_log := done_log w @ [e]\<rparr>)"

definition launch :: "host \<Rightarrow> launch_spec \<Rightarrow> process_run act" where
  "launch H sp w = (case h_launch H (length (done_log w)) sp (files w) of
     Inl e \<Rightarrow> (Inl e, w)
   | Inr pr \<Rightarrow> (Inr pr, w\<lparr>files := pr_fs pr, done_log := done_log w @ [Launched sp]\<rparr>))"

definition control :: "host \<Rightarrow> event \<Rightarrow> string list \<Rightarrow> unit act" where
  "control H ev cmd w = (let w1 = w\<lparr>done_log := done_log w @ [ev]\<rparr> in
     case h_control H (length (done_log w)) cmd of Some e \<Rightarrow> (Inl e, w1) | None \<Rightarrow> (Inr (), w1))"

definition kill :: "settings \<Rightarrow> host \<Rightarrow> path \<Rightarrow> string \<Rightarrow> unit act" where
  "kill S H state cid = control H (Kill_called cid) (kill_cmd S state cid)"

definition delete_container :: "settings \<Rightarrow> host \<Rightarrow> path \<Rightarrow> string \<Rightarrow> unit act" where
  "delete_container S H state cid = control H (Delete_called cid) (delete_cmd S state cid)"

section \<open>One container\<close>

definition prepare_bundle :: "path \<Rightarrow> oci_config \<Rightarrow> unit act" where
  "prepare_bundle phase_dir cfg =
     bind_act (on_files (mkdir_parents (path_join phase_dir ''bundle'') False)) (\<lambda>_.
     bind_act (on_files (mkdir_parents (path_join phase_dir ''state'') False)) (\<lambda>_.
     on_files (write_bundle (path_join phase_dir ''bundle'') cfg)))"

definition spec_of :: "settings \<Rightarrow> string \<Rightarrow> path \<Rightarrow> oci_config \<Rightarrow> string \<Rightarrow> real \<Rightarrow> Limits \<Rightarrow> launch_spec" where
  "spec_of S cid phase_dir cfg stdin timeout l =
     (let state = path_join phase_dir ''state''; bundle = path_join phase_dir ''bundle''
      in \<lparr>sp_cid = cid, sp_cmd = launch_cmd S state bundle cid l, sp_config = cfg, sp_state = state,
          sp_bundle = bundle, sp_stdin = utf8_encode stdin, sp_timeout = timeout\<rparr>)"

definition collect :: "Limits \<Rightarrow> process_run \<Rightarrow> ExecutionResult" where
  "collect l pr =
     (let out = read_capped (output_cap_bytes l) (pr_out pr);
          err = read_capped (output_cap_bytes l) (pr_err pr)
      in new_result\<lparr>stdout := utf8_decode (fst out), stderr := utf8_decode (fst err),
           truncated_stdout := snd out, truncated_stderr := snd err,
           wall_time_ms := py_trunc (pr_elapsed pr * 1000),
           timed_out := (pr_returncode pr = None), exit_code := pr_returncode pr\<rparr>)"

text \<open>From the wait on: after a timeout the container and the process are killed.\<close>

definition await_container :: "settings \<Rightarrow> host \<Rightarrow> path \<Rightarrow> string \<Rightarrow> Limits \<Rightarrow> process_run \<Rightarrow> ExecutionResult act" where
  "await_container S H state cid l pr =
     bind_act (if pr_returncode pr = None
               then bind_act (kill S H state cid) (\<lambda>_. note_event (Proc_killed cid))
               else ret ()) (\<lambda>_.
     bind_act (delete_container S H state cid) (\<lambda>_.
     ret (collect l pr)))"

definition run_container ::
  "settings \<Rightarrow> host \<Rightarrow> string \<Rightarrow> path \<Rightarrow> oci_config \<Rightarrow> string \<Rightarrow> real \<Rightarrow> Limits \<Rightarrow> ExecutionResult act" where
  "run_container S H cid phase_dir cfg stdin timeout l =
     bind_act (prepare_bundle phase_dir cfg) (\<lambda>_.
     bind_act (launch H (spec_of S cid phase_dir cfg stdin timeout l)) (\<lambda>pr.
     await_container S H (path_join phase_dir ''state'') cid l pr))"

section \<open>Retrying a launch that failed\<close>

definition attempt_cid :: "string \<Rightarrow> nat \<Rightarrow> string" where
  "attempt_cid cid k = (if k = 0 then cid else cid @ ''-r'' @ show_nat k)"

definition attempt_dir :: "path \<Rightarrow> nat \<Rightarrow> path" where
  "attempt_dir d k = (if k = 0 then d else with_name d (last d @ ''-r'' @ show_nat k))"

text \<open>
  \<open>retry_loop left k\<close> has \<open>left\<close> attempts to go, the first of them number \<open>k\<close>. The pause before an
  attempt (\<^verbatim>\<open>asyncio.sleep\<close>) only lets time pass and is left out.
\<close>

fun retry_loop :: "(nat \<Rightarrow> ExecutionResult act) \<Rightarrow> nat \<Rightarrow> nat \<Rightarrow> ExecutionResult \<Rightarrow> ExecutionResult act" where
  "retry_loop go 0 k res = ret res"
| "retry_loop go (Suc left) k res =
     (if \<not> is_transient_launch_failure res then ret res
      else bind_act (go k) (\<lambda>res1. retry_loop go left (Suc k) res1))"

definition run_with_retry ::
  "settings \<Rightarrow> host \<Rightarrow> string \<Rightarrow> path \<Rightarrow> oci_config \<Rightarrow> string \<Rightarrow> real \<Rightarrow> Limits \<Rightarrow> ExecutionResult act" where
  "run_with_retry S H cid phase_dir cfg stdin timeout l =
     (let go = (\<lambda>k. run_container S H (attempt_cid cid k) (attempt_dir phase_dir k) cfg stdin timeout l)
      in bind_act (go 0) (\<lambda>res. retry_loop go (nat (LAUNCH_RETRIES S)) 1 res))"

section \<open>A run\<close>

fun stage_files :: "path \<Rightarrow> string list \<Rightarrow> (string, string) dict \<Rightarrow> unit act" where
  "stage_files src staged [] = ret ()"
| "stage_files src staged ((name, content) # rest) =
     (case sanitize_filename name of
        Inl e \<Rightarrow> raise e
      | Inr safe \<Rightarrow>
          if safe \<in> set staged then raise (ValueError (''duplicate staged file name: '' @ py_repr safe))
          else bind_act (on_files (write_bytes (path_join src safe) (utf8_encode content)))
                 (\<lambda>_. stage_files src (safe # staged) rest))"

definition run_dir :: "settings \<Rightarrow> string \<Rightarrow> path" where
  "run_dir S run_id = path_join (RUNS_DIR S) run_id"

text \<open>Directories and files of a run, which \<open>execute\<close> and \<open>execute_stream\<close> set up alike.\<close>

definition stage_run :: "settings \<Rightarrow> string \<Rightarrow> ExecutionRequest \<Rightarrow> unit act" where
  "stage_run S run_id req =
     (let src = path_join (run_dir S run_id) ''src''; out = path_join (run_dir S run_id) ''out''
      in bind_act (on_files (mkdir_parents src False)) (\<lambda>_.
         bind_act (on_files (mkdir_parents out False)) (\<lambda>_.
         stage_files src [] (x_files req))))"

text \<open>The compile phase: \<open>Some\<close> result when it failed, \<open>None\<close> when the run may go on.\<close>

definition compile_config :: "settings \<Rightarrow> string \<Rightarrow> ExecutionRequest \<Rightarrow> path option \<Rightarrow> oci_config" where
  "compile_config S run_id req cache_dir =
     build_config (the (x_compile_args req)) (path_join (run_dir S run_id) ''src'')
       (opt_default (x_compile_limits req) DEFAULT_LIMITS) (ROOTFS S) (x_compile_env req) 0 0
       (Some (path_join (run_dir S run_id) ''out'')) True cache_dir False ''/box''"

definition open_cache :: "settings \<Rightarrow> ExecutionRequest \<Rightarrow> path option act" where
  "open_cache S req =
     (if truthy_opt (x_compile_cache req)
      then (let d = cache_path S (x_identity req) (the (x_compile_cache req))
            in bind_act (on_files (mkdir_parents d True)) (\<lambda>_. ret (Some d)))
      else ret None)"

definition compile_phase :: "settings \<Rightarrow> host \<Rightarrow> string \<Rightarrow> ExecutionRequest \<Rightarrow> ExecutionResult option act" where
  "compile_phase S H run_id req =
     (if \<not> truthy_opt (x_compile_args req) then ret None
      else (let climits = opt_default (x_compile_limits req) DEFAULT_LIMITS
        in bind_act (open_cache S req) (\<lambda>cache_dir.
           bind_act (run_with_retry S H (run_id @ ''-c'') (path_join (run_dir S run_id) ''compile'')
                       (compile_config S run_id req cache_dir) [] (compile_timeout_s climits) climits) (\<lambda>cres.
           ret (if timed_out cres \<or> exit_code cres \<noteq> Some 0 then Some (cres\<lparr>stage := ''compile''\<rparr>) else None)))))"

definition run_config :: "settings \<Rightarrow> string \<Rightarrow> ExecutionRequest \<Rightarrow> oci_config" where
  "run_config S run_id req =
     build_config (x_args req) (path_join (run_dir S run_id) ''src'') (x_limits req) (ROOTFS S)
       (x_env req) sandbox_uid sandbox_uid
       (if truthy_opt (x_compile_args req) then Some (path_join (run_dir S run_id) ''out'') else None)
       False None False ''/box''"

definition run_timeout :: "ExecutionRequest \<Rightarrow> real" where
  "run_timeout req = (if truthy_num (x_timeout_s req) then the (x_timeout_s req) else wall_timeout_s (x_limits req))"

definition execute_body :: "settings \<Rightarrow> host \<Rightarrow> string \<Rightarrow> ExecutionRequest \<Rightarrow> ExecutionResult act" where
  "execute_body S H run_id req =
     bind_act (stage_run S run_id req) (\<lambda>_.
     bind_act (compile_phase S H run_id req) (\<lambda>c.
     case c of Some cres \<Rightarrow> ret cres
     | None \<Rightarrow> run_with_retry S H (run_id @ ''-r'') (path_join (run_dir S run_id) ''run'')
         (run_config S run_id req) (x_stdin req) (run_timeout req) (x_limits req)))"

definition execute :: "settings \<Rightarrow> host \<Rightarrow> string \<Rightarrow> ExecutionRequest \<Rightarrow> world \<Rightarrow> ExecutionResult \<times> world" where
  "execute S H run_id req w =
     (case execute_body S H run_id req w of
        (Inr res, w1) \<Rightarrow> (res, w1\<lparr>files := rmtree (run_dir S run_id) (files w1)\<rparr>)
      | (Inl exc, w1) \<Rightarrow> (new_result\<lparr>error := Some (exn_text exc)\<rparr>,
                         w1\<lparr>files := rmtree (run_dir S run_id) (files w1)\<rparr>))"

section \<open>Frames\<close>

text \<open>
  A relation between the worlds before and after that every step can add to: actions keep it when
  their parts do.
\<close>

locale step_frame =
  fixes R :: "world \<Rightarrow> world \<Rightarrow> bool"
  assumes frame_refl: "R w w"
    and frame_trans: "R u v \<Longrightarrow> R v w \<Longrightarrow> R u w"
begin

definition keeps :: "'a act \<Rightarrow> bool" where
  "keeps m \<longleftrightarrow> (\<forall>w. R w (snd (m w)))"

lemma keepsI: "(\<And>w. R w (snd (m w))) \<Longrightarrow> keeps m"
  by (simp add: keeps_def)

lemma keepsD: "keeps m \<Longrightarrow> R w (snd (m w))"
  by (simp add: keeps_def)

lemma keeps_ret: "keeps (ret x)"
  by (simp add: keeps_def ret_def frame_refl)

lemma keeps_raise: "keeps (raise e)"
  by (simp add: keeps_def raise_def frame_refl)

lemma keeps_bind_value:
  assumes "keeps m" "\<And>x w w1. m w = (Inr x, w1) \<Longrightarrow> keeps (f x)"
  shows "keeps (bind_act m f)"
proof (rule keepsI)
  fix w
  obtain r w1 where m: "m w = (r, w1)" by fastforce
  with keepsD [OF assms(1), of w] have "R w w1" by simp
  with keepsD [OF assms(2)] m frame_trans show "R w (snd (bind_act m f w))"
    by (cases r) (auto simp: bind_act_def)
qed

lemma keeps_bind: "keeps m \<Longrightarrow> (\<And>x. keeps (f x)) \<Longrightarrow> keeps (bind_act m f)"
  by (rule keeps_bind_value)

lemma keeps_retry: "(\<And>k. keeps (go k)) \<Longrightarrow> keeps (retry_loop go n k res)"
  by (induction n arbitrary: k res) (auto intro: keeps_ret keeps_bind)

lemmas keeps_basic = keeps_ret keeps_raise keeps_bind keeps_retry

end

text \<open>The first frame: which files may differ.\<close>

definition touches :: "path set \<Rightarrow> world \<Rightarrow> world \<Rightarrow> bool" where
  "touches D w w' \<longleftrightarrow> same_outside D (files w) (files w')"

text \<open>The second: the log grows by events with a property.\<close>

definition logs :: "(event \<Rightarrow> bool) \<Rightarrow> world \<Rightarrow> world \<Rightarrow> bool" where
  "logs P w w' \<longleftrightarrow> (\<exists>es. done_log w' = done_log w @ es \<and> list_all P es)"

text \<open>The third: every container launched is also deleted.\<close>

definition launched_cids :: "event list \<Rightarrow> string list" where
  "launched_cids es = concat (map (\<lambda>e. case e of Launched sp \<Rightarrow> [sp_cid sp] | _ \<Rightarrow> []) es)"

definition deleted_cids :: "event list \<Rightarrow> string list" where
  "deleted_cids es = concat (map (\<lambda>e. case e of Delete_called c \<Rightarrow> [c] | _ \<Rightarrow> []) es)"

lemma cids_simps [simp]:
  "launched_cids [] = []" "launched_cids (Launched sp # es) = sp_cid sp # launched_cids es"
  "launched_cids (Kill_called c # es) = launched_cids es" "launched_cids (Proc_killed c # es) = launched_cids es"
  "launched_cids (Delete_called c # es) = launched_cids es"
  "launched_cids (es @ fs) = launched_cids es @ launched_cids fs"
  "deleted_cids [] = []" "deleted_cids (Launched sp # es) = deleted_cids es"
  "deleted_cids (Kill_called c # es) = deleted_cids es" "deleted_cids (Proc_killed c # es) = deleted_cids es"
  "deleted_cids (Delete_called c # es) = c # deleted_cids es"
  "deleted_cids (es @ fs) = deleted_cids es @ deleted_cids fs"
  by (simp_all add: launched_cids_def deleted_cids_def)

definition balanced :: "world \<Rightarrow> world \<Rightarrow> bool" where
  "balanced w w' \<longleftrightarrow> (\<exists>es. done_log w' = done_log w @ es \<and> launched_cids es = deleted_cids es)"

interpretation fp: step_frame "touches D" for D
  by unfold_locales (auto simp: touches_def intro: same_outside_trans)

interpretation lg: step_frame "logs P" for P
proof (unfold_locales, goal_cases)
  case (2 u v w)
  then show ?case by (auto simp: logs_def)
qed (simp add: logs_def)

interpretation bal: step_frame balanced
proof (unfold_locales, goal_cases)
  case (2 u v w)
  then show ?case by (auto simp: balanced_def)
qed (simp add: balanced_def)

section \<open>What a container may change\<close>

text \<open>
  The runtime's isolation: a container and the runtime that runs it write only to the runtime's
  state directory and to the sources of writable bind mounts.
\<close>

definition confined :: "host \<Rightarrow> bool" where
  "confined H \<longleftrightarrow> (\<forall>n sp fs pr. h_launch H n sp fs = Inr pr \<longrightarrow>
     (\<forall>p. \<not> prefix (sp_state sp) p \<and> (\<forall>s \<in> set (writable_sources (sp_config sp)). \<not> prefix (path_segs s) p) \<longrightarrow>
        pr_fs pr p = fs p))"

lemma on_files_touches:
  "(\<And>f g. m f = Inr g \<Longrightarrow> same_outside D f g) \<Longrightarrow> fp.keeps D (on_files m)"
  by (rule fp.keepsI) (auto simp: on_files_def touches_def split: sum.splits)

lemma files_frames [simp]:
  "files (w\<lparr>done_log := x\<rparr>) = files w"
  "done_log (w\<lparr>files := f\<rparr>) = done_log w"
  by simp_all

lemma control_touches: "fp.keeps D (control H e c)"
  by (rule fp.keepsI) (auto simp: control_def touches_def Let_def split: option.splits)

lemma note_touches: "fp.keeps D (note_event e)"
  by (rule fp.keepsI) (auto simp: note_event_def touches_def)

definition below :: "path set \<Rightarrow> path \<Rightarrow> bool" where
  "below D p \<longleftrightarrow> (\<exists>d \<in> D. prefix d p)"

lemma below_append [simp]: "below D p \<Longrightarrow> below D (p @ q)"
  unfolding below_def using prefix_prefix by blast

lemma below_not_outside: "below D q \<Longrightarrow> \<forall>d \<in> D. \<not> prefix d p \<and> \<not> prefix p d \<Longrightarrow> \<not> prefix q p"
  by (auto simp: below_def dest: prefix_order.trans)

lemma launch_touches:
  assumes "confined H" "below D (sp_state sp)" "\<forall>s \<in> set (writable_sources (sp_config sp)). below D (path_segs s)"
  shows "fp.keeps D (launch H sp)"
proof (rule fp.keepsI)
  fix w :: world
  have "same_outside D (files w) (pr_fs pr)" if l: "h_launch H n sp (files w) = Inr pr" for n pr
    unfolding same_outside_def
  proof (intro allI impI)
    fix p
    assume p: "\<forall>d \<in> D. \<not> prefix d p \<and> \<not> prefix p d"
    then have "\<not> prefix (sp_state sp) p" "\<forall>s \<in> set (writable_sources (sp_config sp)). \<not> prefix (path_segs s) p"
      using assms(2,3) below_not_outside by blast+
    with assms(1) l show "pr_fs pr p = files w p" by (auto simp: confined_def)
  qed
  then show "touches D w (snd (launch H sp w))"
    by (auto simp: launch_def touches_def split: sum.splits)
qed

lemma mkdir_touches: "below D d \<Longrightarrow> fp.keeps D (on_files (mkdir_parents d ok))"
  by (rule on_files_touches) (auto simp: below_def intro: mkdir_parents_same)

lemma write_touches: "below D f \<Longrightarrow> fp.keeps D (on_files (write_bytes f bs))"
  by (rule on_files_touches) (auto simp: below_def intro: write_bytes_same)

lemma stage_touches: "below D src \<Longrightarrow> fp.keeps D (stage_files src staged fs)"
proof (induction fs arbitrary: staged)
  case (Cons f fs)
  then show ?case
    by (cases f) (auto simp: path_join_plain [OF conjunct1 [OF sanitize_Inr_plain]] split: sum.splits
        intro!: fp.keeps_basic write_touches)
qed (simp add: fp.keeps_ret)

text \<open>A configuration that lets a container write only below the directories of \<open>D\<close>.\<close>

definition writes_below :: "path set \<Rightarrow> oci_config \<Rightarrow> bool" where
  "writes_below D cfg \<longleftrightarrow> (\<forall>s \<in> set (writable_sources cfg). below D (path_segs s))"

lemma prepare_touches: "below D d \<Longrightarrow> fp.keeps D (prepare_bundle d cfg)"
  unfolding prepare_bundle_def write_bundle_def
  by (intro fp.keeps_basic mkdir_touches write_touches) (simp_all add: path_join_plain)

lemma container_touches:
  assumes "confined H" "below D d" "writes_below D cfg"
  shows "fp.keeps D (run_container S H cid d cfg stdin timeout l)"
  unfolding run_container_def await_container_def kill_def delete_container_def
  using assms
  by (intro fp.keeps_basic prepare_touches launch_touches)
    (auto simp: path_join_plain spec_of_def Let_def writes_below_def
      intro: fp.keeps_basic control_touches note_touches)

lemma attempt_dir_below: "d = rd @ [x] \<Longrightarrow> below D rd \<Longrightarrow> below D (attempt_dir d k)"
  by (auto simp: attempt_dir_def with_name_def)

lemma retry_touches:
  assumes "confined H" "d = rd @ [x]" "below D rd" "writes_below D cfg"
  shows "fp.keeps D (run_with_retry S H cid d cfg stdin timeout l)"
  unfolding run_with_retry_def Let_def
  using assms by (intro fp.keeps_basic container_touches attempt_dir_below)

text \<open>The directories a run may write to: its own, and its build cache when it compiles with one.\<close>

definition cache_dirs :: "settings \<Rightarrow> ExecutionRequest \<Rightarrow> path list" where
  "cache_dirs S req =
     (if truthy_opt (x_compile_args req) \<and> truthy_opt (x_compile_cache req)
      then [cache_path S (x_identity req) (the (x_compile_cache req))] else [])"

definition run_areas :: "settings \<Rightarrow> string \<Rightarrow> ExecutionRequest \<Rightarrow> path set" where
  "run_areas S run_id req = insert (run_dir S run_id) (set (cache_dirs S req))"

definition plain_setup :: "settings \<Rightarrow> string \<Rightarrow> ExecutionRequest \<Rightarrow> bool" where
  "plain_setup S run_id req \<longleftrightarrow> list_all plain_segment (RUNTIME_ROOT S) \<and> plain_segment run_id \<and>
     (truthy_opt (x_compile_cache req) \<longrightarrow> plain_segment (the (x_compile_cache req)))"

lemma run_dir_plain: "plain_setup S i req \<Longrightarrow> list_all plain_segment (run_dir S i)"
  by (simp add: plain_setup_def run_dir_def RUNS_DIR_def path_join_plain)

lemma cache_dirs_plain: "plain_setup S i req \<Longrightarrow> d \<in> set (cache_dirs S req) \<Longrightarrow> list_all plain_segment d"
  by (auto simp: plain_setup_def cache_dirs_def cache_path_below CACHE_DIR_def path_join_plain safe_seg_plain
      split: if_splits)

lemma below_run_dir: "below (run_areas S i req) (run_dir S i)"
  by (auto simp: below_def run_areas_def)

lemma run_config_writes: "writes_below D (run_config S i req)"
  by (simp add: writes_below_def run_config_def writable_sources_build_config opt_list_def)

lemma compile_config_writes:
  assumes "plain_setup S i req" "set (opt_list c) \<subseteq> set (cache_dirs S req)"
  shows "writes_below (run_areas S i req) (compile_config S i req c)"
proof -
  have "path_segs (path_str (run_dir S i @ [''out''])) = run_dir S i @ [''out'']"
    using run_dir_plain [OF assms(1)] by (intro path_segs_str) simp
  moreover have "path_segs (path_str d) = d" if "d \<in> set (cache_dirs S req)" for d
    using cache_dirs_plain [OF assms(1) that] by (rule path_segs_str)
  moreover have "below (run_areas S i req) d" if "d \<in> set (cache_dirs S req)" for d
    using that by (auto simp: below_def run_areas_def)
  ultimately show ?thesis
    using assms(2) below_run_dir [of S i req]
    by (auto simp: writes_below_def compile_config_def writable_sources_build_config opt_list_def path_join_plain
        split: option.splits)
qed

lemma stage_run_touches: "below D (run_dir S i) \<Longrightarrow> fp.keeps D (stage_run S i req)"
  unfolding stage_run_def Let_def
  by (intro fp.keeps_basic mkdir_touches stage_touches) (simp_all add: path_join_plain)

text \<open>\<open>open_cache\<close> gives the run's cache directory.\<close>

lemma open_cache_value:
  "open_cache S req w = (Inr c, w1) \<Longrightarrow> truthy_opt (x_compile_args req) \<Longrightarrow> c \<noteq> None \<Longrightarrow> cache_dirs S req = [the c]"
  "open_cache S req w = (Inr c, w1) \<Longrightarrow> truthy_opt (x_compile_args req) \<Longrightarrow> c = None \<Longrightarrow> cache_dirs S req = []"
  by (auto simp: open_cache_def cache_dirs_def Let_def bind_act_def ret_def on_files_def split: if_splits sum.splits)

lemma open_cache_touches:
  "truthy_opt (x_compile_args req) \<Longrightarrow> fp.keeps (run_areas S i req) (open_cache S req)"
  unfolding open_cache_def Let_def
  by (auto simp: below_def run_areas_def cache_dirs_def intro!: fp.keeps_basic mkdir_touches)

lemma open_cache_dirs:
  "open_cache S req w = (Inr c, w1) \<Longrightarrow> truthy_opt (x_compile_args req) \<Longrightarrow> opt_list c = cache_dirs S req"
  by (cases c) (auto simp: opt_list_def open_cache_value)

lemma compile_phase_touches:
  assumes "confined H" "plain_setup S i req"
  shows "fp.keeps (run_areas S i req) (compile_phase S H i req)"
proof (cases "truthy_opt (x_compile_args req)")
  case True
  note d = run_dir_plain [OF assms(2)]
  have "fp.keeps (run_areas S i req) (run_with_retry S H cid (path_join (run_dir S i) ''compile'')
      (compile_config S i req c) [] t l)"
    if "open_cache S req w = (Inr c, w1)" for c w w1 cid t l
    using open_cache_dirs [OF that True]
    by (intro retry_touches [OF assms(1) _ below_run_dir] compile_config_writes assms(2)) (simp_all add: path_join_plain)
  with True show ?thesis
    unfolding compile_phase_def Let_def
    by (simp, intro fp.keeps_bind_value [OF open_cache_touches [OF True]] fp.keeps_bind fp.keeps_ret) blast
qed (simp add: compile_phase_def fp.keeps_ret)

lemma execute_body_touches:
  assumes "confined H" "plain_setup S i req"
  shows "fp.keeps (run_areas S i req) (execute_body S H i req)"
proof -
  have "fp.keeps (run_areas S i req) (run_with_retry S H cid (path_join (run_dir S i) ''run'') (run_config S i req) s t l)"
    for cid s t l
    by (intro retry_touches [OF assms(1) _ below_run_dir] run_config_writes) (simp add: path_join_plain)
  then show ?thesis
    unfolding execute_body_def
    by (intro fp.keeps_basic stage_run_touches below_run_dir compile_phase_touches assms)
      (auto intro: fp.keeps_ret split: option.splits)
qed

lemma snd_execute: "snd (execute S H i req w) =
    (snd (execute_body S H i req w))\<lparr>files := rmtree (run_dir S i) (files (snd (execute_body S H i req w)))\<rparr>"
  by (auto simp: execute_def split: prod.splits sum.splits)

lemma execute_touches:
  assumes "confined H" "plain_setup S i req"
  shows "same_outside (run_areas S i req) (files w) (files (snd (execute S H i req w)))"
proof -
  have "same_outside (run_areas S i req) (files w) (files (snd (execute_body S H i req w)))"
    using fp.keepsD [OF execute_body_touches [OF assms], of w] by (simp add: touches_def)
  also have "same_outside (run_areas S i req) \<dots> (rmtree (run_dir S i) (files (snd (execute_body S H i req w))))"
    by (rule rmtree_same [of "run_dir S i"]) (simp_all add: run_areas_def)
  finally show ?thesis by (simp add: snd_execute)
qed

lemma execute_removes: "prefix (run_dir S i) p \<Longrightarrow> files (snd (execute S H i req w)) p = None"
  by (simp add: snd_execute rmtree_gone)

section \<open>What is launched\<close>

lemma same_log_keeps:
  "(\<And>w. done_log (snd (m w)) = done_log w) \<Longrightarrow> lg.keeps P m"
  "(\<And>w. done_log (snd (m w)) = done_log w) \<Longrightarrow> bal.keeps m"
  by (auto intro!: lg.keepsI bal.keepsI simp: logs_def balanced_def)

lemma bind_on_files: "f (files w) = Inr g \<Longrightarrow> bind_act (on_files f) k w = k () (w\<lparr>files := g\<rparr>)"
  by (simp add: bind_act_def on_files_def)

lemma on_files_log [simp]: "done_log (snd (on_files f w)) = done_log w"
  by (simp add: on_files_def split: sum.splits)

text \<open>What staging leaves below the source directory: each file under its safe name, all else as it was.\<close>

definition staged_file :: "(string, string) dict \<Rightarrow> string \<Rightarrow> byte list option" where
  "staged_file fs x = map_option (\<lambda>(n, c). utf8_encode c) (find (\<lambda>(n, c). sanitize_filename n = Inr x) fs)"

definition staged_tree :: "(string, string) dict \<Rightarrow> path \<Rightarrow> fs \<Rightarrow> path \<Rightarrow> node option" where
  "staged_tree fs src f q = (case q of [x] \<Rightarrow> (case staged_file fs x of Some bs \<Rightarrow> Some (File bs) | None \<Rightarrow> f (src @ q))
     | _ \<Rightarrow> f (src @ q))"

lemma stage_files_tree:
  assumes "stage_files src staged fs w = (Inr (), w')"
  shows "(\<forall>x \<in> set staged. staged_file fs x = None) \<and> (\<forall>q. files w' (src @ q) = staged_tree fs src (files w) q)"
  using assms
proof (induction fs arbitrary: staged w)
  case Nil
  then show ?case by (auto simp: ret_def staged_file_def staged_tree_def split: list.splits)
next
  case (Cons p fs)
  obtain n c where p: "p = (n, c)" by (cases p)
  from Cons.prems obtain s where s: "sanitize_filename n = Inr s" "s \<notin> set staged"
    by (auto simp: p raise_def split: sum.splits if_splits)
  have j: "path_join src s = src @ [s]" using sanitize_Inr_plain [OF s(1)] by (simp add: path_join_plain)
  from Cons.prems obtain w1 where w1: "on_files (write_bytes (src @ [s]) (utf8_encode c)) w = (Inr (), w1)"
    and r: "stage_files src (s # staged) fs w1 = (Inr (), w')"
    by (auto simp: p s j bind_act_def split: sum.splits prod.splits)
  have f1: "files w1 = (files w)(src @ [s] \<mapsto> File (utf8_encode c))"
    using w1 by (auto simp: on_files_def write_bytes_def split: sum.splits option.splits node.splits if_splits)
  note ih = Cons.IH [OF r]
  have h: "staged_file (p # fs) x = (if x = s then Some (utf8_encode c) else staged_file fs x)" for x
    by (auto simp: staged_file_def p s(1))
  have "staged_file fs s = None" using ih by simp
  with ih s(2) show ?case by (auto simp: h staged_tree_def f1 split: list.splits)
qed

lemma bind_same_log:
  "(\<And>w. done_log (snd (m w)) = done_log w) \<Longrightarrow> (\<And>x w. done_log (snd (f x w)) = done_log w) \<Longrightarrow>
     done_log (snd (bind_act m f w)) = done_log w"
proof -
  assume m: "\<And>w. done_log (snd (m w)) = done_log w" and f: "\<And>x w. done_log (snd (f x w)) = done_log w"
  obtain r w1 where "m w = (r, w1)" by fastforce
  with m [of w] f show ?thesis by (cases r) (simp_all add: bind_act_def)
qed

lemma prepare_log [simp]: "done_log (snd (prepare_bundle d cfg w)) = done_log w"
  unfolding prepare_bundle_def by (intro bind_same_log) simp_all

lemma stage_log [simp]: "done_log (snd (stage_files src staged fs w)) = done_log w"
proof (induction fs arbitrary: staged w)
  case (Cons f fs)
  then show ?case
    by (cases f) (auto simp: raise_def split: sum.splits intro!: bind_same_log)
qed (simp add: ret_def)

lemma stage_run_log [simp]: "done_log (snd (stage_run S i req w)) = done_log w"
  unfolding stage_run_def Let_def by (intro bind_same_log) simp_all

lemma open_cache_log [simp]: "done_log (snd (open_cache S req w)) = done_log w"
  by (auto simp: open_cache_def Let_def ret_def intro!: bind_same_log)

text \<open>
  The log of one container: nothing when it could not be launched; otherwise its launch, after a
  timeout the two kills, and its deletion, cut short only by a control command that raised.
\<close>

lemma launch_log:
  "fst (launch H sp w) = Inr pr \<Longrightarrow> done_log (snd (launch H sp w)) = done_log w @ [Launched sp]"
  "fst (launch H sp w) = Inl e \<Longrightarrow> done_log (snd (launch H sp w)) = done_log w"
  by (auto simp: launch_def split: sum.splits)

lemma control_log [simp]: "done_log (snd (control H ev c w)) = done_log w @ [ev]"
  by (simp add: control_def Let_def split: option.splits)

lemma collect_timed_out: "timed_out (collect l pr) \<longleftrightarrow> pr_returncode pr = None"
  by (simp add: collect_def Let_def)

definition ended_log :: "string \<Rightarrow> bool \<Rightarrow> event list" where
  "ended_log cid timeout = (if timeout then [Kill_called cid, Proc_killed cid] else []) @ [Delete_called cid]"

definition cut_logs :: "string \<Rightarrow> event list set" where
  "cut_logs cid = {[Kill_called cid], [Kill_called cid, Proc_killed cid, Delete_called cid], [Delete_called cid]}"

lemma await_log:
  "\<exists>es. done_log (snd (await_container S H state cid l pr w)) = done_log w @ es \<and>
     (case fst (await_container S H state cid l pr w) of
        Inr res \<Rightarrow> res = collect l pr \<and> es = ended_log cid (timed_out res)
      | Inl e \<Rightarrow> es \<in> cut_logs cid \<and> (\<exists>n c. h_control H n c \<noteq> None))"
  by (cases "pr_returncode pr")
    (auto simp: await_container_def bind_act_def kill_def delete_container_def control_def Let_def
      note_event_def ret_def collect_timed_out ended_log_def cut_logs_def split: option.splits)

lemma container_log:
  obtains (not_launched) e where "fst (run_container S H cid d cfg stdin timeout l w) = Inl e"
      "done_log (snd (run_container S H cid d cfg stdin timeout l w)) = done_log w"
  | (interrupted) e es where "fst (run_container S H cid d cfg stdin timeout l w) = Inl e"
      "done_log (snd (run_container S H cid d cfg stdin timeout l w)) =
         done_log w @ [Launched (spec_of S cid d cfg stdin timeout l)] @ es"
      "es \<in> cut_logs cid" "\<exists>n c. h_control H n c \<noteq> None"
  | (finished) pr where "fst (run_container S H cid d cfg stdin timeout l w) = Inr (collect l pr)"
      "done_log (snd (run_container S H cid d cfg stdin timeout l w)) =
         done_log w @ [Launched (spec_of S cid d cfg stdin timeout l)] @
         ended_log cid (timed_out (collect l pr))"
proof -
  let ?sp = "spec_of S cid d cfg stdin timeout l" and ?state = "path_join d ''state''"
  obtain r1 w1 where p: "prepare_bundle d cfg w = (r1, w1)" by fastforce
  have l1: "done_log w1 = done_log w" using prepare_log [of d cfg w] p by simp
  obtain r2 w2 where la: "launch H ?sp w1 = (r2, w2)" by fastforce
  show thesis
  proof (cases "isl r1 \<or> isl r2")
    case True
    then have "\<exists>e. fst (run_container S H cid d cfg stdin timeout l w) = Inl e \<and>
      done_log (snd (run_container S H cid d cfg stdin timeout l w)) = done_log w"
      using p la l1 launch_log(2) [of H ?sp w1]
      by (cases r1; cases r2) (auto simp: run_container_def bind_act_def)
    with not_launched show thesis by blast
  next
    case False
    then obtain u pr where r: "r1 = Inr u" "r2 = Inr pr" by (cases r1; cases r2) auto
    have l2: "done_log w2 = done_log w @ [Launched ?sp]"
      using launch_log(1) [of H ?sp w1 pr] la r l1 by simp
    have run: "run_container S H cid d cfg stdin timeout l w = await_container S H ?state cid l pr w2"
      using p la r by (simp add: run_container_def bind_act_def)
    from await_log [of S H ?state cid l pr w2] obtain es where es:
      "done_log (snd (await_container S H ?state cid l pr w2)) = done_log w2 @ es"
      "case fst (await_container S H ?state cid l pr w2) of
         Inr res \<Rightarrow> res = collect l pr \<and> es = ended_log cid (timed_out res)
       | Inl e \<Rightarrow> es \<in> cut_logs cid \<and> (\<exists>n c. h_control H n c \<noteq> None)" by blast
    show thesis
    proof (cases "fst (await_container S H ?state cid l pr w2)")
      case (Inl e)
      with es l2 run show thesis by (intro interrupted [of e es]) simp_all
    next
      case (Inr res)
      with es l2 run show thesis by (intro finished [of pr]) simp_all
    qed
  qed
qed

text \<open>A property of events that concerns launches only.\<close>

definition launches_ok :: "(launch_spec \<Rightarrow> bool) \<Rightarrow> event \<Rightarrow> bool" where
  "launches_ok Q e \<longleftrightarrow> (case e of Launched sp \<Rightarrow> Q sp | _ \<Rightarrow> True)"

lemma launches_ok_simps [simp]:
  "launches_ok Q (Launched sp) = Q sp" "launches_ok Q (Kill_called c)" "launches_ok Q (Proc_killed c)"
  "launches_ok Q (Delete_called c)"
  by (simp_all add: launches_ok_def)

lemma ended_cut_ok:
  "list_all (launches_ok Q) (ended_log c b)" "es \<in> cut_logs c \<Longrightarrow> list_all (launches_ok Q) es"
  "launched_cids (ended_log c b) = []" "es \<in> cut_logs c \<Longrightarrow> launched_cids es = []"
  "deleted_cids (ended_log c b) = [c]"
  by (auto simp: ended_log_def cut_logs_def)

lemma spec_of_fields [simp]:
  "sp_cid (spec_of S cid d cfg stdin t l) = cid" "sp_config (spec_of S cid d cfg stdin t l) = cfg"
  "sp_stdin (spec_of S cid d cfg stdin t l) = utf8_encode stdin"
  "sp_cmd (spec_of S cid d cfg stdin t l) =
     launch_cmd S (path_join d ''state'') (path_join d ''bundle'') cid l"
  by (simp_all add: spec_of_def Let_def)

lemma container_launches:
  assumes "Q (spec_of S cid d cfg stdin t l)"
  shows "lg.keeps (launches_ok Q) (run_container S H cid d cfg stdin t l)"
proof (rule lg.keepsI)
  fix w
  show "logs (launches_ok Q) w (snd (run_container S H cid d cfg stdin t l w))"
    by (cases rule: container_log [of S H cid d cfg stdin t l w]) (auto simp: logs_def assms ended_cut_ok)
qed

lemma container_balanced:
  assumes "\<And>n c. h_control H n c = None"
  shows "bal.keeps (run_container S H cid d cfg stdin t l)"
proof (rule bal.keepsI)
  fix w
  show "balanced w (snd (run_container S H cid d cfg stdin t l w))"
    by (cases rule: container_log [of S H cid d cfg stdin t l w]) (auto simp: balanced_def ended_cut_ok assms)
qed

text \<open>The containers of a phase, in the order of its attempts.\<close>

definition attempt_cids :: "settings \<Rightarrow> string \<Rightarrow> string list" where
  "attempt_cids S cid = map (attempt_cid cid) [0..<Suc (nat (LAUNCH_RETRIES S))]"

lemma attempt_cids_Cons:
  "attempt_cids S cid = attempt_cid cid 0 # map (attempt_cid cid) [1..<1 + nat (LAUNCH_RETRIES S)]"
  by (simp add: attempt_cids_def upt_conv_Cons del: upt_Suc)

lemma retry_loop_cids:
  assumes go: "\<And>k v. \<exists>es. done_log (snd (go k v)) = done_log v @ es \<and>
      (launched_cids es = [] \<and> isl (fst (go k v)) \<or> launched_cids es = [name k])"
  shows "\<exists>es. done_log (snd (retry_loop go n k res w)) = done_log w @ es \<and>
           prefix (launched_cids es) (map name [k..<k + n])"
proof (induction n arbitrary: k res w)
  case (Suc n)
  show ?case
  proof (cases "is_transient_launch_failure res")
    case True
    obtain r w1 where g: "go k w = (r, w1)" by fastforce
    from go [of k w] g obtain es where es: "done_log w1 = done_log w @ es"
      "launched_cids es = [] \<and> isl r \<or> launched_cids es = [name k]" by auto
    show ?thesis
    proof (cases r)
      case (Inl e)
      with es g True show ?thesis
        by (intro exI [of _ es]) (auto simp: bind_act_def upt_conv_Cons simp del: upt_Suc)
    next
      case (Inr res1)
      from Suc [of "Suc k" res1 w1] obtain fs where
        "done_log (snd (retry_loop go n (Suc k) res1 w1)) = done_log w1 @ fs"
        "prefix (launched_cids fs) (map name [Suc k..<Suc k + n])" by blast
      with es g True Inr show ?thesis
        by (intro exI [of _ "es @ fs"]) (simp add: bind_act_def upt_conv_Cons del: upt_Suc)
    qed
  qed (simp add: ret_def)
qed (simp add: ret_def)

lemma container_cids:
  "\<exists>es. done_log (snd (run_container S H cid d cfg stdin t l v)) = done_log v @ es \<and>
     (launched_cids es = [] \<and> isl (fst (run_container S H cid d cfg stdin t l v)) \<or> launched_cids es = [cid])"
  by (cases rule: container_log [of S H cid d cfg stdin t l v]) (auto simp: ended_cut_ok)

lemma run_with_retry_cids:
  "\<exists>es. done_log (snd (run_with_retry S H cid d cfg stdin t l w)) = done_log w @ es \<and>
     prefix (launched_cids es) (attempt_cids S cid) \<and>
     (launched_cids es = [] \<longrightarrow> isl (fst (run_with_retry S H cid d cfg stdin t l w)))"
proof -
  let ?go = "\<lambda>k. run_container S H (attempt_cid cid k) (attempt_dir d k) cfg stdin t l"
  note go = container_cids [of S H _ _ cfg stdin t l]
  obtain r w1 where g: "?go 0 w = (r, w1)" by fastforce
  from go [of "attempt_cid cid 0" "attempt_dir d 0" w] g obtain es where es: "done_log w1 = done_log w @ es"
    "launched_cids es = [] \<and> isl r \<or> launched_cids es = [attempt_cid cid 0]" by auto
  show ?thesis
  proof (cases r)
    case (Inl e)
    with es g show ?thesis
      by (intro exI [of _ es]) (auto simp: run_with_retry_def Let_def bind_act_def attempt_cids_Cons)
  next
    case (Inr res)
    from retry_loop_cids [of ?go "attempt_cid cid" "nat (LAUNCH_RETRIES S)" 1 res w1, OF go] obtain fs where
      "done_log (snd (retry_loop ?go (nat (LAUNCH_RETRIES S)) 1 res w1)) = done_log w1 @ fs"
      "prefix (launched_cids fs) (map (attempt_cid cid) [1..<1 + nat (LAUNCH_RETRIES S)])" by blast
    with es g Inr show ?thesis
      by (intro exI [of _ "es @ fs"])
        (simp add: run_with_retry_def Let_def bind_act_def attempt_cids_Cons del: upt_Suc)
  qed
qed

text \<open>A result that comes from a container carries no error and names the run stage.\<close>

lemma collect_fields [simp]: "error (collect l pr) = None" "stage (collect l pr) = ''run''"
  "exit_code (collect l pr) = pr_returncode pr"
  by (simp_all add: collect_def Let_def)

lemma container_result:
  "fst (run_container S H cid d cfg stdin t l w) = Inr res \<Longrightarrow> \<exists>pr. res = collect l pr"
  by (cases rule: container_log [of S H cid d cfg stdin t l w]) auto

lemma bind_act_Inr:
  assumes "fst (bind_act m f w) = Inr y"
  obtains x where "fst (m w) = Inr x" "fst (f x (snd (m w))) = Inr y"
  using assms by (auto simp: bind_act_def split: prod.splits sum.splits)

lemma retry_loop_result:
  assumes "\<And>k v x. fst (go k v) = Inr x \<Longrightarrow> P x"
  shows "P res \<Longrightarrow> fst (retry_loop go n k res w) = Inr y \<Longrightarrow> P y"
proof (induction n arbitrary: k res w)
  case (Suc n)
  then show ?case
    by (auto simp: ret_def split: if_splits elim!: bind_act_Inr dest: assms)
qed (simp add: ret_def)

lemma retry_result:
  "fst (run_with_retry S H cid d cfg stdin t l w) = Inr res \<Longrightarrow> \<exists>pr. res = collect l pr"
  unfolding run_with_retry_def Let_def
  by (erule bind_act_Inr, rule retry_loop_result [where P = "\<lambda>r. \<exists>pr. r = collect l pr"])
    (auto dest: container_result)

text \<open>The names of the attempts are all different.\<close>

lemma show_nat_inj: "show_nat m = show_nat n \<Longrightarrow> m = n"
  by (metis digits_val_show)

lemma attempt_cid_inj: "attempt_cid cid j = attempt_cid cid k \<Longrightarrow> j = k"
  by (auto simp: attempt_cid_def dest: show_nat_inj split: if_splits)

lemma distinct_attempts: "distinct (attempt_cids S cid)"
  unfolding attempt_cids_def distinct_map by (auto intro!: inj_onI dest: attempt_cid_inj)

lemma phases_disjoint: "set (attempt_cids S (i @ ''-c'')) \<inter> set (attempt_cids S (i @ ''-r'')) = {}"
  by (auto simp: attempt_cids_def attempt_cid_def)

lemma distinct_phases:
  assumes "prefix c (attempt_cids S (i @ ''-c''))" "prefix r (attempt_cids S (i @ ''-r''))"
  shows "distinct (c @ r)"
proof -
  obtain c' r' where "attempt_cids S (i @ ''-c'') = c @ c'" "attempt_cids S (i @ ''-r'') = r @ r'"
    using assms by (auto elim!: prefixE)
  with distinct_attempts [of S "i @ ''-c''"] distinct_attempts [of S "i @ ''-r''"] phases_disjoint [of S i]
  show ?thesis by auto
qed

text \<open>What the two phases launched and how the run ended.\<close>

definition phases_log :: "settings \<Rightarrow> string \<Rightarrow> ExecutionRequest \<Rightarrow> exn + ExecutionResult \<Rightarrow> string list \<Rightarrow> bool" where
  "phases_log S i req r cids \<longleftrightarrow> (\<exists>cs rs. cids = cs @ rs \<and>
     prefix cs (if truthy_opt (x_compile_args req) then attempt_cids S (i @ ''-c'') else []) \<and>
     prefix rs (attempt_cids S (i @ ''-r'')) \<and>
     (truthy_opt (x_compile_args req) \<and> cs = [] \<longrightarrow> rs = []) \<and>
     (case r of Inl _ \<Rightarrow> True
      | Inr res \<Rightarrow> error res = None \<and>
          (if stage res = ''compile'' then rs = [] \<and> cs \<noteq> [] \<and> (timed_out res \<or> exit_code res \<noteq> Some 0)
           else stage res = ''run'' \<and> rs \<noteq> [])))"

lemma compile_phase_cids:
  "\<exists>es. done_log (snd (compile_phase S H i req w)) = done_log w @ es \<and>
     prefix (launched_cids es) (if truthy_opt (x_compile_args req) then attempt_cids S (i @ ''-c'') else []) \<and>
     (case fst (compile_phase S H i req w) of Inl _ \<Rightarrow> True
      | Inr c \<Rightarrow> (truthy_opt (x_compile_args req) \<longrightarrow> launched_cids es \<noteq> []) \<and>
          (case c of None \<Rightarrow> True | Some res \<Rightarrow> truthy_opt (x_compile_args req) \<and> error res = None \<and>
             stage res = ''compile'' \<and> (timed_out res \<or> exit_code res \<noteq> Some 0)))"
proof (cases "truthy_opt (x_compile_args req)")
  case True
  obtain r1 w1 where oc: "open_cache S req w = (r1, w1)" by fastforce
  have l1: "done_log w1 = done_log w" using open_cache_log [of S req w] oc by simp
  show ?thesis
  proof (cases r1)
    case (Inl e)
    with oc l1 True show ?thesis by (intro exI [of _ "[]"]) (simp add: compile_phase_def Let_def bind_act_def)
  next
    case (Inr cd)
    let ?climits = "opt_default (x_compile_limits req) DEFAULT_LIMITS"
    let ?run = "run_with_retry S H (i @ ''-c'') (path_join (run_dir S i) ''compile'')
      (compile_config S i req cd) [] (compile_timeout_s ?climits) ?climits w1"
    obtain es where es: "done_log (snd ?run) = done_log w1 @ es"
      "prefix (launched_cids es) (attempt_cids S (i @ ''-c''))" "launched_cids es = [] \<longrightarrow> isl (fst ?run)"
      using run_with_retry_cids by blast
    obtain r2 w2 where ru: "?run = (r2, w2)" by fastforce
    have "compile_phase S H i req w = (case r2 of Inl e \<Rightarrow> (Inl e, w2) | Inr cres \<Rightarrow>
        (Inr (if timed_out cres \<or> exit_code cres \<noteq> Some 0 then Some (cres\<lparr>stage := ''compile''\<rparr>) else None), w2))"
      using oc Inr ru True by (auto simp: compile_phase_def Let_def bind_act_def ret_def split: sum.splits)
    moreover have "error cres = None" if "r2 = Inr cres" for cres
      using retry_result [of S H "i @ ''-c''"] ru that by (metis collect_fields(1) fst_conv)
    ultimately show ?thesis
      using es ru l1 True by (intro exI [of _ es]) (auto split: sum.splits)
  qed
qed (simp add: compile_phase_def ret_def)

lemma execute_body_cids:
  "\<exists>es. done_log (snd (execute_body S H i req w)) = done_log w @ es \<and>
     phases_log S i req (fst (execute_body S H i req w)) (launched_cids es)"
proof -
  obtain r1 w1 where st: "stage_run S i req w = (r1, w1)" by fastforce
  have l1: "done_log w1 = done_log w" using stage_run_log [of S i req w] st by simp
  show ?thesis
  proof (cases r1)
    case (Inl e)
    with st l1 show ?thesis
      by (intro exI [of _ "[]"]) (simp add: execute_body_def bind_act_def phases_log_def)
  next
    case (Inr u)
    let ?C = "compile_phase S H i req w1"
    from compile_phase_cids [of S H i req w1] obtain cs where cs: "done_log (snd ?C) = done_log w1 @ cs"
      "prefix (launched_cids cs) (if truthy_opt (x_compile_args req) then attempt_cids S (i @ ''-c'') else [])"
      "case fst ?C of Inl _ \<Rightarrow> True
      | Inr c \<Rightarrow> (truthy_opt (x_compile_args req) \<longrightarrow> launched_cids cs \<noteq> []) \<and>
          (case c of None \<Rightarrow> True | Some res \<Rightarrow> truthy_opt (x_compile_args req) \<and> error res = None \<and>
             stage res = ''compile'' \<and> (timed_out res \<or> exit_code res \<noteq> Some 0))" by blast
    obtain r2 w2 where co: "?C = (r2, w2)" by fastforce
    have early: ?thesis if "r2 = Inl e \<or> r2 = Inr (Some res)" for e res
    proof (intro exI [of _ cs] conjI)
      show "done_log (snd (execute_body S H i req w)) = done_log w @ cs"
        using that st Inr co cs l1 by (auto simp: execute_body_def bind_act_def ret_def)
      show "phases_log S i req (fst (execute_body S H i req w)) (launched_cids cs)"
        unfolding phases_log_def using that st Inr co cs
        by (intro exI [of _ "launched_cids cs"] exI [of _ "[]"]) (auto simp: execute_body_def bind_act_def ret_def)
    qed
    show ?thesis
    proof (cases "r2 = Inr None")
      case False
      then have "(\<exists>e. r2 = Inl e) \<or> (\<exists>res. r2 = Inr (Some res))" by (cases r2) auto
      with early show ?thesis by blast
    next
      case True
      let ?run = "run_with_retry S H (i @ ''-r'') (path_join (run_dir S i) ''run'') (run_config S i req)
        (x_stdin req) (run_timeout req) (x_limits req) w2"
      obtain rs where rs: "done_log (snd ?run) = done_log w2 @ rs"
        "prefix (launched_cids rs) (attempt_cids S (i @ ''-r''))" "launched_cids rs = [] \<longrightarrow> isl (fst ?run)"
        using run_with_retry_cids by blast
      have body: "execute_body S H i req w = ?run"
        using st Inr co True by (simp add: execute_body_def bind_act_def)
      have "case fst ?run of Inl _ \<Rightarrow> True | Inr res \<Rightarrow> error res = None \<and> stage res = ''run''"
        by (auto split: sum.splits dest!: retry_result)
      then have "phases_log S i req (fst ?run) (launched_cids cs @ launched_cids rs)"
        unfolding phases_log_def using cs co True rs
        by (intro exI [of _ "launched_cids cs"] exI [of _ "launched_cids rs"]) (auto split: sum.splits)
      with cs co rs l1 show ?thesis
        unfolding body by (intro exI [of _ "cs @ rs"]) simp
    qed
  qed
qed

lemma execute_cids:
  "\<exists>es. done_log (snd (execute S H i req w)) = done_log w @ es \<and>
     phases_log S i req (fst (execute_body S H i req w)) (launched_cids es)"
  using execute_body_cids [of S H i req w] by (simp add: snd_execute)

lemma fst_execute: "fst (execute S H i req w) =
    (case fst (execute_body S H i req w) of Inr res \<Rightarrow> res
     | Inl exc \<Rightarrow> new_result\<lparr>error := Some (exn_text exc)\<rparr>)"
  by (auto simp: execute_def split: prod.splits sum.splits)

text \<open>What every container of a run must be.\<close>

definition run_spec_ok :: "settings \<Rightarrow> string \<Rightarrow> ExecutionRequest \<Rightarrow> launch_spec \<Rightarrow> bool" where
  "run_spec_ok S i req sp \<longleftrightarrow> hardened (sp_config sp) \<and>
     (if proc_uid (oci_process (sp_config sp)) = sandbox_uid
      then proc_args (oci_process (sp_config sp)) = x_args req \<and> writable_sources (sp_config sp) = []
      else truthy_opt (x_compile_args req) \<and> proc_uid (oci_process (sp_config sp)) = 0 \<and>
        proc_args (oci_process (sp_config sp)) = the (x_compile_args req) \<and> sp_stdin sp = [] \<and>
        writable_sources (sp_config sp) =
          map path_str (path_join (run_dir S i) ''out'' # cache_dirs S req))"

lemma retry_launches:
  assumes "\<And>k. Q (spec_of S (attempt_cid cid k) (attempt_dir d k) cfg stdin t l)"
  shows "lg.keeps (launches_ok Q) (run_with_retry S H cid d cfg stdin t l)"
  unfolding run_with_retry_def Let_def by (intro lg.keeps_basic container_launches assms)

lemma compile_phase_launches: "lg.keeps (launches_ok (run_spec_ok S i req)) (compile_phase S H i req)"
proof (cases "truthy_opt (x_compile_args req)")
  case True
  have oc: "lg.keeps P (open_cache S req)" for P by (rule same_log_keeps) simp
  have "lg.keeps (launches_ok (run_spec_ok S i req)) (run_with_retry S H cid d (compile_config S i req c) [] t l)"
    if "open_cache S req w = (Inr c, w1)" for c w w1 cid d t l
    using open_cache_dirs [OF that True] True
    by (intro retry_launches)
      (simp add: run_spec_ok_def hardened_build_config compile_config_def build_config_hardening_fields
        writable_sources_build_config opt_list_simps utf8_encode_def)
  with True show ?thesis
    unfolding compile_phase_def Let_def
    by (simp, intro lg.keeps_bind_value [OF oc] lg.keeps_bind lg.keeps_ret) blast
qed (simp add: compile_phase_def lg.keeps_ret)

lemma execute_body_launches: "lg.keeps (launches_ok (run_spec_ok S i req)) (execute_body S H i req)"
proof -
  have "lg.keeps (launches_ok (run_spec_ok S i req)) (run_with_retry S H cid d (run_config S i req) s t l)"
    for cid d s t l
    by (intro retry_launches)
      (simp add: run_spec_ok_def hardened_build_config run_config_def build_config_hardening_fields
        writable_sources_build_config opt_list_simps)
  moreover have "lg.keeps P (stage_run S i req)" for P by (rule same_log_keeps) simp
  ultimately show ?thesis
    unfolding execute_body_def
    by (intro lg.keeps_basic compile_phase_launches) (auto intro: lg.keeps_ret split: option.splits)
qed

lemma retry_balanced:
  assumes "\<And>n c. h_control H n c = None"
  shows "bal.keeps (run_with_retry S H cid d cfg stdin t l)"
  unfolding run_with_retry_def Let_def by (intro bal.keeps_basic container_balanced assms)

lemma compile_phase_balanced:
  assumes "\<And>n c. h_control H n c = None"
  shows "bal.keeps (compile_phase S H i req)"
proof -
  have "bal.keeps (open_cache S req)" by (rule same_log_keeps) simp
  then show ?thesis
    unfolding compile_phase_def Let_def
    by (auto intro!: bal.keeps_bind bal.keeps_ret retry_balanced assms)
qed

lemma execute_body_balanced:
  assumes "\<And>n c. h_control H n c = None"
  shows "bal.keeps (execute_body S H i req)"
proof -
  have "bal.keeps (stage_run S i req)" by (rule same_log_keeps) simp
  then show ?thesis
    unfolding execute_body_def
    by (intro bal.keeps_basic compile_phase_balanced assms)
      (auto intro: bal.keeps_ret retry_balanced assms split: option.splits)
qed

text \<open>The events one run adds to the log.\<close>

definition run_log :: "settings \<Rightarrow> host \<Rightarrow> string \<Rightarrow> ExecutionRequest \<Rightarrow> world \<Rightarrow> event list" where
  "run_log S H i req w = drop (length (done_log w)) (done_log (snd (execute S H i req w)))"

lemma run_log_append: "done_log (snd (execute S H i req w)) = done_log w @ run_log S H i req w"
  using execute_cids [of S H i req w] by (auto simp: run_log_def)

section \<open>Launching into a fresh directory\<close>

text \<open>A directory that does not exist, with no file on the way to it.\<close>

definition ready :: "fs \<Rightarrow> path \<Rightarrow> bool" where
  "ready f d \<longleftrightarrow> (\<forall>q b. prefix q d \<longrightarrow> f q \<noteq> Some (File b)) \<and> (\<forall>q. f (d @ q) = None)"

text \<open>Files after directories were made up to \<open>d\<close> and anything happened below it.\<close>

definition grown :: "path \<Rightarrow> fs \<Rightarrow> fs \<Rightarrow> bool" where
  "grown d f g \<longleftrightarrow> (\<forall>p. \<not> prefix d p \<longrightarrow> g p = (if f p = None \<and> prefix p d then Some Dir else f p))"

lemma mkdir_ready:
  assumes "\<And>q b. strict_prefix q d \<Longrightarrow> f q \<noteq> Some (File b)" "f d = None" "d \<noteq> []"
  shows "mkdir_parents d ok f = Inr (\<lambda>p. if f p = None \<and> prefix p d then Some Dir else f p)"
proof -
  have "strict_prefix q d" if "q \<in> set (prefixes (butlast d))" for q
    using that assms(3) by (cases d rule: rev_cases) (auto simp: in_set_prefixes strict_prefix_def)
  with assms(1) have "\<not> (\<exists>p \<in> set (prefixes (butlast d)). (case f p of Some (File _) \<Rightarrow> True | _ \<Rightarrow> False))"
    by (auto split: option.splits node.splits)
  then show ?thesis by (auto simp: mkdir_parents_def assms(2))
qed

lemma prepare_ready:
  assumes "ready (files w) d"
  shows "\<exists>g. prepare_bundle d cfg w = (Inr (), w\<lparr>files := g\<rparr>) \<and> grown d (files w) g"
proof -
  have no_file: "files w q \<noteq> Some (File b)" if "prefix q d" for q b using assms that by (simp add: ready_def)
  have fresh: "files w (d @ q) = None" for q using assms by (simp add: ready_def)
  define f1 where "f1 = (\<lambda>p. if files w p = None \<and> prefix p (d @ [''bundle'']) then Some Dir else files w p)"
  define f2 where "f2 = (\<lambda>p. if f1 p = None \<and> prefix p (d @ [''state'']) then Some Dir else f1 p)"
  have m1: "mkdir_parents (d @ [''bundle'']) False (files w) = Inr f1"
    unfolding f1_def by (rule mkdir_ready) (auto simp: no_file fresh strict_prefix_def)
  have m2: "mkdir_parents (d @ [''state'']) False f1 = Inr f2"
    unfolding f2_def by (rule mkdir_ready) (auto simp: f1_def no_file fresh strict_prefix_def)
  have b: "f2 (d @ [''bundle'']) = Some Dir" "f2 (d @ [''bundle'', ''config.json'']) = None"
    using fresh [of "[''bundle'', ''config.json'']"] by (simp_all add: f2_def f1_def fresh)
  have w3: "write_bundle (d @ [''bundle'']) cfg f2 =
      Inr (f2(d @ [''bundle'', ''config.json''] \<mapsto> File (utf8_encode (dumps_ind 1 0 (config_json cfg)))))"
    using b by (simp add: write_bundle_def path_join_plain write_bytes_Inr butlast_append)
  let ?g = "f2(d @ [''bundle'', ''config.json''] \<mapsto> File (utf8_encode (dumps_ind 1 0 (config_json cfg))))"
  have "grown d (files w) ?g"
    by (auto simp: grown_def f2_def f1_def)
  moreover have "prepare_bundle d cfg w = (Inr (), w\<lparr>files := ?g\<rparr>)"
    using m1 m2 w3 by (simp add: prepare_bundle_def bind_act_def on_files_def path_join_plain)
  ultimately show ?thesis by blast
qed

lemma ready_sibling:
  assumes "ready f (rd @ [y])" "grown (rd @ [x]) f g" "x \<noteq> y"
  shows "ready g (rd @ [y])"
proof -
  have np: "\<not> prefix (rd @ [x]) (rd @ y # q)" for q using assms(3) by simp
  have out: "\<not> prefix (rd @ [x]) q" if "prefix q (rd @ [y])" for q
    using that assms(3) np [of "[]"] by (auto dest: prefix_order.trans)
  show ?thesis
    unfolding ready_def
  proof (intro conjI allI impI)
    fix q b
    assume "prefix q (rd @ [y])"
    with out [OF this] assms(1,2) show "g q \<noteq> Some (File b)" by (auto simp: grown_def ready_def)
  next
    fix q
    from np [of q] assms(1,2) have "g (rd @ y # q) = (if prefix (rd @ y # q) (rd @ [x]) then Some Dir else None)"
      by (auto simp: grown_def ready_def)
    with assms(3) show "g ((rd @ [y]) @ q) = None" by simp
  qed
qed

text \<open>What a run can print so that it is taken for a sandbox that did not start.\<close>

definition forged :: "Limits \<Rightarrow> string \<Rightarrow> process_run \<Rightarrow> bool" where
  "forged l m pr \<longleftrightarrow> pr_returncode pr = Some 128 \<and> pr_out pr = [] \<and> pr_err pr = [utf8_encode m] \<and> m \<noteq> [] \<and>
     int (length (utf8_encode m)) \<le> output_cap_bytes l \<and>
     list_ex (\<lambda>x. sublist x (py_lower m)) TRANSIENT_MARKERS"

lemma utf8_encode_ne: "m \<noteq> [] \<Longrightarrow> utf8_encode m \<noteq> []"
  using length_utf8_encode_ge [of m] by auto

lemma forged_transient: "forged l m pr \<Longrightarrow> is_transient_launch_failure (collect l pr)"
proof -
  assume f: "forged l m pr"
  then have "utf8_encode m \<noteq> []" "0 < output_cap_bytes l" using utf8_encode_ne [of m]
    by (auto simp: forged_def simp flip: length_greater_0_conv)
  with f show ?thesis
    by (auto simp: forged_def is_transient_launch_failure_def collect_def Let_def read_capped_def utf8_decode_encode)
qed

definition forging :: "host \<Rightarrow> Limits \<Rightarrow> string \<Rightarrow> bool" where
  "forging H l m \<longleftrightarrow> confined H \<and> (\<forall>n c. h_control H n c = None) \<and>
     (\<forall>n sp f. \<exists>pr. h_launch H n sp f = Inr pr \<and> forged l m pr)"

lemma container_ready:
  assumes "forging H l m" "ready (files w) d" "writable_sources cfg = []"
  shows "\<exists>pr w1. run_container S H cid d cfg stdin t l w = (Inr (collect l pr), w1) \<and> forged l m pr \<and>
    grown d (files w) (files w1)"
proof -
  obtain g where g: "prepare_bundle d cfg w = (Inr (), w\<lparr>files := g\<rparr>)" "grown d (files w) g"
    using prepare_ready [OF assms(2)] by blast
  let ?sp = "spec_of S cid d cfg stdin t l" and ?w1 = "w\<lparr>files := g\<rparr>"
  obtain pr where pr: "h_launch H (length (done_log ?w1)) ?sp (files ?w1) = Inr pr" "forged l m pr"
    using assms(1) unfolding forging_def by blast
  have st: "sp_state ?sp = d @ [''state'']" by (simp add: spec_of_def Let_def path_join_plain)
  have "pr_fs pr p = g p" if "\<not> prefix d p" for p
  proof -
    have "\<not> prefix (d @ [''state'']) p" using that by (auto dest: append_prefixD)
    with assms(1) pr(1) assms(3) st show ?thesis by (auto simp: forging_def confined_def)
  qed
  with g(2) have "grown d (files w) (pr_fs pr)" by (simp add: grown_def)
  with g(1) pr assms(1) show ?thesis
    by (auto simp: run_container_def bind_act_def launch_def await_container_def delete_container_def control_def
        Let_def ret_def forging_def forged_def)
qed

lemma retry_forged:
  assumes "forging H l m" "writable_sources cfg = []"
  shows "\<forall>j \<ge> k. ready (files w) (attempt_dir (rd @ [x]) j) \<Longrightarrow> is_transient_launch_failure res \<Longrightarrow> 0 < k \<Longrightarrow>
    \<exists>es. done_log (snd (retry_loop (\<lambda>k. run_container S H (attempt_cid cid k) (attempt_dir (rd @ [x]) k) cfg stdin t l)
            n k res w)) = done_log w @ es \<and>
         launched_cids es = map (attempt_cid cid) [k..<k + n]"
proof (induction n arbitrary: k res w)
  case (Suc n)
  let ?d = "attempt_dir (rd @ [x])"
  obtain pr w1 where r: "run_container S H (attempt_cid cid k) (?d k) cfg stdin t l w = (Inr (collect l pr), w1)"
    "forged l m pr" "grown (?d k) (files w) (files w1)"
    using container_ready [OF assms(1) _ assms(2)] Suc.prems(1) by blast
  have d: "?d j = rd @ [x @ ''-r'' @ show_nat j]" if "0 < j" for j
    using that by (simp add: attempt_dir_def with_name_def)
  have "ready (files w1) (?d j)" if j: "Suc k \<le> j" for j
  proof -
    have ne: "x @ ''-r'' @ show_nat k \<noteq> x @ ''-r'' @ show_nat j" using j show_nat_inj [of k j] by auto
    have j0: "0 < j" "k \<le> j" using j by simp_all
    then have "ready (files w) (?d j)" using Suc.prems(1) by blast
    then have "ready (files w) (rd @ [x @ ''-r'' @ show_nat j])" by (simp only: d [OF j0(1)])
    moreover have "grown (rd @ [x @ ''-r'' @ show_nat k]) (files w) (files w1)"
      using r(3) by (simp only: d [OF Suc.prems(3)])
    ultimately show ?thesis
      unfolding d [OF j0(1)] by (rule ready_sibling [OF _ _ ne])
  qed
  from Suc.IH [OF _ forged_transient [OF r(2)], of "Suc k" w1] this obtain fs where
    "done_log (snd (retry_loop (\<lambda>k. run_container S H (attempt_cid cid k) (?d k) cfg stdin t l)
        n (Suc k) (collect l pr) w1)) = done_log w1 @ fs"
    "launched_cids fs = map (attempt_cid cid) [Suc k..<Suc k + n]" by auto
  moreover obtain es where "done_log w1 = done_log w @ es" "launched_cids es = [attempt_cid cid k]"
    using container_cids [of S H "attempt_cid cid k" "?d k" cfg stdin t l w] r(1) by auto
  ultimately show ?case
    using Suc.prems(2) r(1)
    by (intro exI [of _ "es @ fs"]) (simp add: bind_act_def upt_conv_Cons del: upt_Suc)
qed (simp add: ret_def)

section \<open>Properties\<close>

text \<open>
  C2. The footprint of a run. If containers are confined to the runtime's state directory and to
  their writable mounts, then after a run, however it went, nothing is left below its run directory
  and no file has changed except below the build cache it was given.
\<close>

theorem execute_footprint:
  assumes "confined H" and "plain_setup S i req"
  shows "same_outside (insert (run_dir S i) (set (cache_dirs S req))) (files w) (files (snd (execute S H i req w))) \<and>
         (\<forall>p. files (snd (execute S H i req w)) (run_dir S i @ p) = None)"
  using execute_touches [OF assms, of w] by (simp add: run_areas_def execute_removes)

text \<open>A host for the examples: a program that prints, or fails the way its arguments say.\<close>

definition example_settings :: settings where
  "example_settings = \<lparr>RUNTIME_ROOT = [''sb''], RUNSC = ''runsc'', sandbox_debug = False,
     LAUNCH_RETRIES = 2, CACHE_PER_IDENTITY = False\<rparr>"

definition example_host :: "int option \<Rightarrow> string \<Rightarrow> host" where
  "example_host code err = \<lparr>
     h_launch = (\<lambda>n sp fs. Inr \<lparr>pr_out = [], pr_err = (if err = [] then [] else [utf8_encode err]),
       pr_returncode = code, pr_elapsed = 1 / 10, pr_fs = fs(sp_state sp @ [''lock''] \<mapsto> File [])\<rparr>),
     h_control = (\<lambda>n c. None)\<rparr>"

definition example_request :: ExecutionRequest where
  "example_request = (new_request [''/out/prog''])\<lparr>x_files := [(''main.cpp'', ''int main(){}'')],
     x_compile_args := Some [''/usr/bin/g++'', ''/src/main.cpp''], x_compile_cache := Some ''go''\<rparr>"

definition empty_world :: world where
  "empty_world = \<lparr>files = (\<lambda>p. None), done_log = []\<rparr>"

lemma example_confined: "confined (example_host code err)"
  by (auto simp: confined_def example_host_def)

lemma example_plain: "plain_setup example_settings ''run-1'' example_request"
  by (simp add: plain_setup_def example_settings_def example_request_def new_request_def plain_segment_def)

lemma example_dirs:
  "run_dir example_settings ''run-1'' = [''sb'', ''runs'', ''run-1'']"
  "set (cache_dirs example_settings example_request) = {[''sb'', ''cache'', ''go'']}"
  by (simp_all add: run_dir_def RUNS_DIR_def cache_dirs_def cache_path_def example_settings_def example_request_def
      path_join_plain plain_segment_def)

theorem execute_footprint_witness:
  "files (snd (execute example_settings (example_host (Some 0) []) ''run-1'' example_request empty_world)) [''etc''] = None \<and>
   files (snd (execute example_settings (example_host (Some 0) []) ''run-1'' example_request empty_world))
     [''sb'', ''runs'', ''run-1'', ''src''] = None"
proof -
  note f = execute_footprint [OF example_confined [of "Some 0" "[]"] example_plain, of empty_world]
  then show ?thesis
    unfolding example_dirs by (auto simp: same_outside_def empty_world_def dest: spec [of _ "[''src'']"])
qed

text \<open>
  C4. Every container of a run is hardened, and it is one of two kinds. The run container is the
  unprivileged user's, runs the request's command and can write no host directory; the compile
  container exists only for a compiled language, runs the compile command as uid 0 with no input and
  can write the output directory and the build cache only.
\<close>

theorem execute_containers:
  "list_all (launches_ok (run_spec_ok S i req)) (run_log S H i req w)"
proof -
  have "logs (launches_ok (run_spec_ok S i req)) w (snd (execute_body S H i req w))"
    by (rule lg.keepsD [OF execute_body_launches])
  then show ?thesis by (auto simp: logs_def run_log_def snd_execute)
qed

text \<open>
  C6. The order of a run. Containers get distinct names; those of the compile phase come first and
  there are none for an interpreted language; each phase launches at most one container more than
  the retries; the run phase starts only after a compile container was launched; a result of stage
  \<open>compile\<close> is a failed compilation after which no run container was launched, any other result
  without an error comes from a run container.
\<close>

theorem execute_phases:
  "distinct (launched_cids (run_log S H i req w)) \<and>
   length (launched_cids (run_log S H i req w)) \<le> 2 * Suc (nat (LAUNCH_RETRIES S)) \<and>
   (\<exists>cs rs. launched_cids (run_log S H i req w) = cs @ rs \<and>
     prefix cs (if truthy_opt (x_compile_args req) then attempt_cids S (i @ ''-c'') else []) \<and>
     prefix rs (attempt_cids S (i @ ''-r'')) \<and>
     (if truthy_opt (x_compile_args req) \<and> cs = [] then rs = [] else True) \<and>
     (case error (fst (execute S H i req w)) of Some _ \<Rightarrow> True
      | None \<Rightarrow> if stage (fst (execute S H i req w)) = ''compile''
          then rs = [] \<and> (if timed_out (fst (execute S H i req w)) then True else exit_code (fst (execute S H i req w)) \<noteq> Some 0)
          else stage (fst (execute S H i req w)) = ''run'' \<and> rs \<noteq> []))"
proof -
  from execute_cids [of S H i req w] have "phases_log S i req (fst (execute_body S H i req w))
      (launched_cids (run_log S H i req w))" by (auto simp: run_log_def)
  then obtain cs rs where l: "launched_cids (run_log S H i req w) = cs @ rs"
    and cs: "prefix cs (if truthy_opt (x_compile_args req) then attempt_cids S (i @ ''-c'') else [])"
    and rs: "prefix rs (attempt_cids S (i @ ''-r''))"
    and rest: "truthy_opt (x_compile_args req) \<and> cs = [] \<longrightarrow> rs = []"
      "case fst (execute_body S H i req w) of Inl _ \<Rightarrow> True
       | Inr res \<Rightarrow> error res = None \<and>
          (if stage res = ''compile'' then rs = [] \<and> cs \<noteq> [] \<and> (timed_out res \<or> exit_code res \<noteq> Some 0)
           else stage res = ''run'' \<and> rs \<noteq> [])"
    unfolding phases_log_def by blast
  have c': "prefix cs (attempt_cids S (i @ ''-c''))" using cs by (auto split: if_splits)
  have len: "length (attempt_cids S x) = Suc (nat (LAUNCH_RETRIES S))" for x by (simp add: attempt_cids_def)
  have "distinct (cs @ rs)" by (rule distinct_phases [OF c' rs])
  moreover have "length (cs @ rs) \<le> 2 * Suc (nat (LAUNCH_RETRIES S))"
    using prefix_length_le [OF c'] prefix_length_le [OF rs] len by simp
  moreover have "case error (fst (execute S H i req w)) of Some _ \<Rightarrow> True
      | None \<Rightarrow> if stage (fst (execute S H i req w)) = ''compile''
          then rs = [] \<and> (if timed_out (fst (execute S H i req w)) then True else exit_code (fst (execute S H i req w)) \<noteq> Some 0)
          else stage (fst (execute S H i req w)) = ''run'' \<and> rs \<noteq> []"
    using rest(2) by (auto simp: fst_execute split: sum.splits if_splits)
  moreover have "if truthy_opt (x_compile_args req) \<and> cs = [] then rs = [] else True"
    using rest(1) by simp
  ultimately show ?thesis
    unfolding l using cs rs by blast
qed

text \<open>
  C7. Nothing is left behind. If the runtime's control commands do not raise, the containers a run
  launched are exactly the ones it deleted, in the same order, whether the run succeeded, failed,
  timed out or was retried.
\<close>

theorem execute_destroys:
  assumes "\<forall>n c. h_control H n c = None"
  shows "deleted_cids (run_log S H i req w) = launched_cids (run_log S H i req w)"
proof -
  have "balanced w (snd (execute_body S H i req w))"
    using assms by (intro bal.keepsD execute_body_balanced) simp
  then show ?thesis by (auto simp: balanced_def run_log_def snd_execute)
qed

theorem execute_destroys_witness:
  "deleted_cids (run_log example_settings (example_host None []) ''run-1'' example_request empty_world) =
   launched_cids (run_log example_settings (example_host None []) ''run-1'' example_request empty_world)"
  by (rule execute_destroys) (simp add: example_host_def)

text \<open>
  C36. User code can have itself run again. A program that prints nothing, writes one of the launcher's
  error texts to stderr and exits with 128 is taken for a sandbox that did not start: in a fresh run
  directory it is executed once more for every retry.
\<close>

theorem forged_launch_failure_relaunched:
  assumes "forging H l m" and "writable_sources cfg = []" and "\<forall>j. ready (files w) (attempt_dir (rd @ [x]) j)"
  shows "\<exists>es. done_log (snd (run_with_retry S H cid (rd @ [x]) cfg stdin t l w)) = done_log w @ es \<and>
           launched_cids es = attempt_cids S cid"
proof -
  obtain pr w1 where r: "run_container S H (attempt_cid cid 0) (attempt_dir (rd @ [x]) 0) cfg stdin t l w =
      (Inr (collect l pr), w1)" "forged l m pr" "grown (rd @ [x]) (files w) (files w1)"
    using container_ready [OF assms(1) _ assms(2), of w "rd @ [x]" S "attempt_cid cid 0" stdin t] spec [OF assms(3), of 0]
    by (auto simp: attempt_dir_def)
  have "ready (files w1) (attempt_dir (rd @ [x]) j)" if "1 \<le> j" for j
  proof -
    have d: "attempt_dir (rd @ [x]) j = rd @ [x @ ''-r'' @ show_nat j]"
      using that by (simp add: attempt_dir_def with_name_def)
    with assms(3) have "ready (files w) (rd @ [x @ ''-r'' @ show_nat j])" by metis
    then show ?thesis unfolding d by (rule ready_sibling [OF _ r(3)]) simp
  qed
  then obtain fs where
    "done_log (snd (retry_loop (\<lambda>k. run_container S H (attempt_cid cid k) (attempt_dir (rd @ [x]) k) cfg stdin t l)
        (nat (LAUNCH_RETRIES S)) 1 (collect l pr) w1)) = done_log w1 @ fs"
    "launched_cids fs = map (attempt_cid cid) [1..<1 + nat (LAUNCH_RETRIES S)]"
    using retry_forged [OF assms(1,2) _ forged_transient [OF r(2)], of 1 w1 rd x S cid stdin t "nat (LAUNCH_RETRIES S)"]
    by (auto simp del: upt_Suc)
  moreover obtain es where "done_log w1 = done_log w @ es" "launched_cids es = [attempt_cid cid 0]"
    using container_cids [of S H "attempt_cid cid 0" "attempt_dir (rd @ [x]) 0" cfg stdin t l w] r(1) by auto
  ultimately show ?thesis
    using r(1) by (intro exI [of _ "es @ fs"])
      (simp add: run_with_retry_def Let_def bind_act_def attempt_cids_Cons del: upt_Suc)
qed

lemma example_forging: "forging (example_host (Some 128) ''creating container'') DEFAULT_LIMITS ''creating container''"
  using length_utf8_encode_le [of "''creating container''"]
  by (simp add: forging_def example_confined)
    (simp add: example_host_def forged_def TRANSIENT_MARKERS_def py_lower_def py_lower_char_def DEFAULT_LIMITS_def)

theorem forged_launch_failure_relaunched_witness:
  "\<exists>es. done_log (snd (run_with_retry example_settings (example_host (Some 128) ''creating container'') ''run-1-r''
            [''sb'', ''run''] (run_config example_settings ''run-1'' example_request) [] 10 DEFAULT_LIMITS empty_world)) = es \<and>
     launched_cids es = [''run-1-r'', ''run-1-r-r1'', ''run-1-r-r2'']"
proof -
  have "\<forall>j. ready (files empty_world) (attempt_dir ([''sb''] @ [''run'']) j)"
    by (simp add: ready_def empty_world_def)
  moreover have "writable_sources (run_config example_settings ''run-1'' example_request) = []"
    by (simp add: run_config_def writable_sources_build_config opt_list_simps)
  moreover have "attempt_cids example_settings ''run-1-r'' = [''run-1-r'', ''run-1-r-r1'', ''run-1-r-r2'']"
    by (simp add: attempt_cids_def example_settings_def attempt_cid_def show_nat.simps upt_conv_Cons)
      (simp add: char_of_eq [symmetric])
  ultimately show ?thesis
    using forged_launch_failure_relaunched [OF example_forging, of
        "run_config example_settings ''run-1'' example_request" empty_world "[''sb'']" "''run''" example_settings
        "''run-1-r''" "[]" 10]
    by (simp add: empty_world_def)
qed

text \<open>
  A control command that raises leaves the container behind. When a container launched into a
  fresh directory does not end in time and the runtime's kill command itself raises, as
  \<open>subprocess.run\<close> does after its ten seconds, the run ends with that error and neither is the
  process killed nor the container deleted.
\<close>

theorem kill_failure_leaks:
  assumes "ready (files w) d" and "\<forall>n sp f. \<exists>pr. h_launch H n sp f = Inr pr \<and> pr_returncode pr = None"
    and "\<forall>n c. h_control H n c = Some e"
  shows "fst (run_container S H cid d cfg stdin t l w) = Inl e \<and>
         done_log (snd (run_container S H cid d cfg stdin t l w)) =
           done_log w @ [Launched (spec_of S cid d cfg stdin t l), Kill_called cid]"
proof -
  obtain g where g: "prepare_bundle d cfg w = (Inr (), w\<lparr>files := g\<rparr>)"
    using prepare_ready [OF assms(1)] by blast
  obtain pr where "h_launch H (length (done_log w)) (spec_of S cid d cfg stdin t l) g = Inr pr" "pr_returncode pr = None"
    using assms(2) by blast
  with g assms(3) show ?thesis
    by (simp add: run_container_def bind_act_def launch_def await_container_def kill_def control_def Let_def)
qed

theorem kill_failure_leaks_witness:
  "done_log (snd (run_container example_settings
       ((example_host None [])\<lparr>h_control := \<lambda>n c. Some (Exn ''TimeoutExpired'' ''timed out'')\<rparr>)
       ''run-1-r'' [''sb'', ''run''] (run_config example_settings ''run-1'' example_request) [] 10 DEFAULT_LIMITS empty_world)) =
   [Launched (spec_of example_settings ''run-1-r'' [''sb'', ''run'']
      (run_config example_settings ''run-1'' example_request) [] 10 DEFAULT_LIMITS), Kill_called ''run-1-r'']"
  by (subst conjunct2 [OF kill_failure_leaks]) (simp_all add: ready_def empty_world_def example_host_def)

end
