(* ===== verification/Terminal.thy ===== *)
theory Terminal
  imports Exec
begin

text \<open>
  \<^verbatim>\<open>app/executor/terminal.py\<close>: an interactive session in a sandbox, its life from start to
  close, and the manager that bounds how many sessions are open.
\<close>

section \<open>Constants\<close>

definition SHELL_ARGS :: "string list" where
  "SHELL_ARGS = [''/usr/bin/bash'', ''--norc'', ''-i'']"

text \<open>The prompt contains backslashes and brackets; \<open>bsl\<close> is the backslash.\<close>

abbreviation bsl :: char where
  "bsl \<equiv> char_of (92::nat)"

definition SHELL_ENV :: "(string, string) dict" where
  "SHELL_ENV = [
     (''TERM'', ''xterm-256color''),
     (''HOME'', ''/box''),
     (''PS1'', bsl # ''['' @ bsl # ''e[36m'' @ bsl # '']sandbox'' @ bsl # ''['' @ bsl # ''e[0m'' @ bsl # '']:'' @
        bsl # ''['' @ bsl # ''e[33m'' @ bsl # '']'' @ bsl # ''w'' @ bsl # ''['' @ bsl # ''e[0m'' @ bsl # '']$ ''),
     (''PAGER'', ''cat'')]"

record terminal_settings = settings +
  MAX_LIFETIME_S :: real
  IDLE_TIMEOUT_S :: real

section \<open>Sessions\<close>

text \<open>
  \<open>t_fd\<close> and \<open>t_proc\<close> tell whether the session holds the pty and whether its process was started and
  still runs; \<open>t_sent\<close> is what \<open>on_output\<close> was given, \<open>t_closed_set\<close> the event and
  \<open>t_close_calls\<close> the number of times \<open>on_close\<close> was called.
\<close>

record TerminalSession =
  t_id :: string
  identity_name :: string
  t_files :: "(string, string) dict"
  t_limits :: Limits
  t_fd :: bool
  t_proc :: "bool option"
  t_closed :: bool
  t_closed_set :: bool
  t_start :: real
  t_last_input :: real
  t_outq :: "byte list option list"
  t_sent :: "byte list list"
  t_close_calls :: nat

definition new_session :: "string \<Rightarrow> string \<Rightarrow> (string, string) dict \<Rightarrow> TerminalSession" where
  "new_session sid identity fs = \<lparr>t_id = sid, identity_name = identity, t_files = fs, t_limits = DEFAULT_LIMITS,
     t_fd = False, t_proc = None, t_closed = False, t_closed_set = False, t_start = 0, t_last_input = 0,
     t_outq = [], t_sent = [], t_close_calls = 0\<rparr>"

definition session_dir :: "settings \<Rightarrow> TerminalSession \<Rightarrow> path" where
  "session_dir S s = path_join (RUNS_DIR S) (t_id s)"

definition session_state :: "settings \<Rightarrow> TerminalSession \<Rightarrow> path" where
  "session_state S s = path_join (session_dir S s) ''state''"

text \<open>
  \<open>close\<close>: the flag is set before the first await, so a second call returns at once. Killing and
  deleting run in one \<open>try\<close>: a kill that raises skips the deletion.
\<close>

definition close_message :: "string \<Rightarrow> string" where
  "close_message why = [char_of (13::nat), char_of (10::nat), char_of (27::nat)] @ ''[33m['' @ why @ '']'' @
     [char_of (27::nat)] @ ''[0m'' @ [char_of (13::nat), char_of (10::nat)]"

definition close_container :: "settings \<Rightarrow> host \<Rightarrow> path \<Rightarrow> string \<Rightarrow> world \<Rightarrow> world" where
  "close_container S H state sid w =
     snd (bind_act (kill S H state sid) (\<lambda>_. delete_container S H state sid) w)"

definition close :: "settings \<Rightarrow> host \<Rightarrow> string option \<Rightarrow> TerminalSession \<times> world \<Rightarrow> TerminalSession \<times> world" where
  "close S H why sw =
     (let s = fst sw; w = snd sw in
      if t_closed s then sw
      else (let w1 = close_container S H (session_state S s) (t_id s) w;
                w2 = (if t_proc s = Some True then w1\<lparr>done_log := done_log w1 @ [Proc_killed (t_id s)]\<rparr> else w1)
            in (s\<lparr>t_closed := True,
                  t_sent := (if truthy_opt why then t_sent s @ [utf8_encode (close_message (the why))] else t_sent s),
                  t_fd := False, t_proc := (if t_proc s = Some True then Some False else t_proc s),
                  t_closed_set := True, t_close_calls := t_close_calls s + 1\<rparr>,
                w2\<lparr>files := rmtree (session_dir S s) (files w2)\<rparr>)))"

section \<open>Starting\<close>

definition terminal_cmd :: "settings \<Rightarrow> Limits \<Rightarrow> path \<Rightarrow> path \<Rightarrow> path \<Rightarrow> string \<Rightarrow> string list" where
  "terminal_cmd S l state bundle sock sid =
     [''systemd-run'', ''--user'', ''--scope'', ''--collect'', ''-q'',
      ''-p'', ''MemoryMax='' @ memory_max l,
      ''-p'', ''MemorySwapMax='' @ memory_swap_max l,
      ''-p'', ''TasksMax='' @ show_int (pids_max l),
      ''-p'', ''CPUQuota='' @ show_int (cpu_quota_pct l) @ ''%'',
      ''--'', RUNSC S] @ RUNSC_FLAGS S @ [''--root='' @ path_str state,
      ''run'', ''--bundle'', path_str bundle, ''--console-socket'', path_str sock, sid]"

definition terminal_config :: "settings \<Rightarrow> TerminalSession \<Rightarrow> oci_config" where
  "terminal_config S s = build_config SHELL_ARGS (path_join (session_dir S s) ''src'') (t_limits s) (ROOTFS S)
     (Some SHELL_ENV) sandbox_uid sandbox_uid None False None True ''/src''"

text \<open>
  The handshake: runsc sends the descriptor as ancillary data, each item with its level, its type and
  its bytes, of which the whole 32-bit integers are read, least byte first.
\<close>

definition SOL_SOCKET :: int where
  "SOL_SOCKET = 1"

definition SCM_RIGHTS :: int where
  "SCM_RIGHTS = 1"

definition FD_SIZE :: nat where
  "FD_SIZE = 4"

type_synonym ancillary = "int \<times> int \<times> byte list"

definition le_int :: "byte list \<Rightarrow> int" where
  "le_int bs = sint (word_of_nat (foldr (\<lambda>b n. unat b + 256 * n) bs 0) :: 32 word)"

fun frombytes :: "byte list \<Rightarrow> int list" where
  "frombytes (a # b # c # d # bs) = le_int [a, b, c, d] # frombytes bs"
| "frombytes bs = []"

fun recv_loop :: "ancillary list \<Rightarrow> exn + int" where
  "recv_loop [] = Inl (Exn ''RuntimeError'' ''terminal: no console fd in handshake'')"
| "recv_loop ((level, ctype, cdata) # anc) =
     (if level = SOL_SOCKET \<and> ctype = SCM_RIGHTS then
        (case frombytes (take (length cdata - length cdata mod FD_SIZE) cdata) of
           [] \<Rightarrow> recv_loop anc | fd # fds \<Rightarrow> Inr fd)
      else recv_loop anc)"

text \<open>What \<open>recvmsg\<close> gives: an exception, as when nothing comes in fifteen seconds, or the data.\<close>

definition recv_fd :: "exn + ancillary list \<Rightarrow> exn + int" where
  "recv_fd msg = (case msg of Inl e \<Rightarrow> Inl e | Inr anc \<Rightarrow> recv_loop anc)"

text \<open>
  What the outside does during a start, once the process runs: nobody connects to the console socket
  within fifteen seconds (the error's text), or a connection brings a message at a time.
\<close>

datatype console = No_console string | Handshake "exn + ancillary list" real

text \<open>
  Binding the console socket. The system takes names of at most 107 bytes. The socket shows in the
  directory as a node without content.
\<close>

definition console_sock :: "settings \<Rightarrow> TerminalSession \<Rightarrow> path" where
  "console_sock S s = path_join (session_dir S s) ''console.sock''"

definition bind_console :: "path \<Rightarrow> unit act" where
  "bind_console sock =
     (if 108 \<le> length (utf8_encode (path_str sock)) then raise (Exn ''OSError'' ''AF_UNIX path too long'')
      else on_files (write_bytes sock []))"

definition prepare_terminal :: "settings \<Rightarrow> TerminalSession \<Rightarrow> unit act" where
  "prepare_terminal S s =
     (let src = path_join (session_dir S s) ''src''; bundle = path_join (session_dir S s) ''bundle''
      in bind_act (on_files (mkdir_parents src False)) (\<lambda>_.
         bind_act (on_files (mkdir_parents bundle False)) (\<lambda>_.
         bind_act (on_files (mkdir_parents (session_state S s) False)) (\<lambda>_.
         bind_act (stage_files src [] (t_files s)) (\<lambda>_.
         bind_act (on_files (write_bundle bundle (terminal_config S s))) (\<lambda>_.
         bind_console (console_sock S s)))))))"

definition terminal_spec :: "settings \<Rightarrow> TerminalSession \<Rightarrow> launch_spec" where
  "terminal_spec S s = \<lparr>sp_cid = t_id s,
     sp_cmd = terminal_cmd S (t_limits s) (session_state S s) (path_join (session_dir S s) ''bundle'')
       (console_sock S s) (t_id s),
     sp_config = terminal_config S s, sp_state = session_state S s,
     sp_bundle = path_join (session_dir S s) ''bundle'', sp_stdin = [], sp_timeout = 0\<rparr>"

definition start_terminal ::
  "settings \<Rightarrow> host \<Rightarrow> console \<Rightarrow> TerminalSession \<times> world \<Rightarrow> (exn + unit) \<times> TerminalSession \<times> world" where
  "start_terminal S H con sw =
     (let s = fst sw in
      case bind_act (prepare_terminal S s) (\<lambda>_. launch H (terminal_spec S s)) (snd sw) of
        (Inl e, w1) \<Rightarrow> (Inl e, s, w1)
      | (Inr pr, w1) \<Rightarrow>
          (let s1 = s\<lparr>t_proc := Some True\<rparr> in
           case con of
             No_console msg \<Rightarrow> (Inl (Exn ''RuntimeError'' (''terminal: sandbox never opened a console ('' @ msg @ '')'')),
                               close S H None (s1, w1))
           | Handshake msg now \<Rightarrow>
               (case recv_fd msg of
                  Inl e \<Rightarrow> (Inl e, s1, w1)
                | Inr fd \<Rightarrow> (Inr (), s1\<lparr>t_fd := True, t_start := now, t_last_input := now\<rparr>, w1))))"

section \<open>Traffic\<close>

text \<open>One read of the pty by the event loop; \<open>None\<close> stands for no data yet, an error reads as the end.\<close>

definition on_readable :: "byte list option \<Rightarrow> TerminalSession \<Rightarrow> TerminalSession" where
  "on_readable data s = (case data of None \<Rightarrow> s
     | Some bs \<Rightarrow> s\<lparr>t_outq := t_outq s @ [if bs = [] then None else Some bs]\<rparr>)"

text \<open>One turn of the task that forwards output; \<open>ok\<close> tells whether the client took it.\<close>

definition drain_output :: "settings \<Rightarrow> host \<Rightarrow> bool \<Rightarrow> TerminalSession \<times> world \<Rightarrow> TerminalSession \<times> world" where
  "drain_output S H ok sw =
     (let s = fst sw in case t_outq s of [] \<Rightarrow> sw
      | None # q \<Rightarrow> close S H None (s\<lparr>t_outq := q\<rparr>, snd sw)
      | Some bs # q \<Rightarrow> if ok then (s\<lparr>t_outq := q, t_sent := t_sent s @ [bs]\<rparr>, snd sw)
                       else close S H None (s\<lparr>t_outq := q\<rparr>, snd sw))"

text \<open>
  \<open>write\<close>: what the pty accepted of the data, given how many bytes each \<open>os.write\<close> took; when no
  count is left, it would block and the rest is dropped.
\<close>

fun write_pty :: "nat list \<Rightarrow> byte list \<Rightarrow> byte list" where
  "write_pty ns [] = []"
| "write_pty [] data = []"
| "write_pty (n # ns) data = take n data @ write_pty ns (drop n data)"

text \<open>
  The bytes the pty took and whether the session is to be closed: an \<open>OSError\<close> (\<open>broken\<close>) where the
  pty takes no more schedules a \<open>close\<close>, a full buffer drops the rest.
\<close>

definition write_session ::
  "real \<Rightarrow> nat list \<Rightarrow> bool \<Rightarrow> byte list \<Rightarrow> TerminalSession \<Rightarrow> byte list \<times> bool \<times> TerminalSession" where
  "write_session now ns broken data s =
     (if t_closed s \<or> \<not> t_fd s then ([], False, s)
      else (write_pty ns data, broken \<and> write_pty ns data \<noteq> data, s\<lparr>t_last_input := now\<rparr>))"

text \<open>The window size handed to the pty, four unsigned 16-bit numbers.\<close>

definition resize :: "int \<Rightarrow> int \<Rightarrow> TerminalSession \<Rightarrow> (16 word \<times> 16 word) option" where
  "resize rows cols s =
     (if \<not> t_fd s then None
      else Some (word_of_int (max 1 (min rows 1000)), word_of_int (max 1 (min cols 1000))))"

text \<open>The task that waits for the process: when it has ended the session closes.\<close>

definition wait_proc :: "settings \<Rightarrow> host \<Rightarrow> TerminalSession \<times> world \<Rightarrow> TerminalSession \<times> world" where
  "wait_proc S H sw =
     (let s = fst sw
      in close S H None (s\<lparr>t_proc := (if t_proc s = None then None else Some False)\<rparr>, snd sw))"

text \<open>One tick of the watchdog.\<close>

definition watchdog :: "terminal_settings \<Rightarrow> host \<Rightarrow> real \<Rightarrow> TerminalSession \<times> world \<Rightarrow> TerminalSession \<times> world" where
  "watchdog S H now sw =
     (let s = fst sw in
      if t_closed s then sw
      else if MAX_LIFETIME_S S \<le> now - t_start s then close (settings.truncate S) H (Some ''max session time reached'') sw
      else if IDLE_TIMEOUT_S S \<le> now - t_last_input s then close (settings.truncate S) H (Some ''closed after inactivity'') sw
      else sw)"

section \<open>The manager\<close>

text \<open>The live sessions by id, each with its identity, and the number of sessions per identity.\<close>

record TerminalManager =
  sessions :: "(string, string) dict"
  by_identity :: "(string, int) dict"
  max_total :: int
  per_user :: int

definition new_manager :: "int \<Rightarrow> int \<Rightarrow> TerminalManager" where
  "new_manager mx n = \<lparr>sessions = [], by_identity = [], max_total = mx, per_user = n\<rparr>"

definition rejection :: "TerminalManager \<Rightarrow> string \<Rightarrow> bool \<Rightarrow> string option" where
  "rejection m identity admin =
     (if max_total m \<le> int (length (sessions m)) then Some ''the server is at its terminal limit; try again shortly''
      else if \<not> admin \<and> per_user m \<le> dget_or (by_identity m) identity 0
      then Some ''you already have a terminal open (one per user)''
      else None)"

definition register :: "TerminalManager \<Rightarrow> string \<Rightarrow> string \<Rightarrow> TerminalManager" where
  "register m sid identity = m\<lparr>sessions := dset sid identity (sessions m),
     by_identity := dset identity (dget_or (by_identity m) identity 0 + 1) (by_identity m)\<rparr>"

definition unregister :: "TerminalManager \<Rightarrow> string \<Rightarrow> string \<Rightarrow> TerminalManager" where
  "unregister m sid identity =
     (let n = dget_or (by_identity m) identity 0 - 1
      in m\<lparr>sessions := dpop sid (sessions m),
           by_identity := (if n \<le> 0 then dpop identity (by_identity m) else dset identity n (by_identity m))\<rparr>)"

record terminal_stats =
  ts_active :: nat
  ts_max :: int

definition terminal_stats :: "TerminalManager \<Rightarrow> terminal_stats" where
  "terminal_stats m = \<lparr>ts_active = length (sessions m), ts_max = max_total m\<rparr>"

text \<open>
  \<open>shutdown\<close> closes the sessions one after the other; \<open>get\<close> gives the session of an id. A close that
  does anything calls \<open>on_close\<close>, which is \<open>unregister\<close>.
\<close>

fun shutdown_loop ::
  "settings \<Rightarrow> host \<Rightarrow> string list \<Rightarrow> (string \<Rightarrow> TerminalSession) \<Rightarrow> TerminalManager \<Rightarrow> world \<Rightarrow>
   (string \<Rightarrow> TerminalSession) \<times> TerminalManager \<times> world" where
  "shutdown_loop S H [] get m w = (get, m, w)"
| "shutdown_loop S H (sid # sids) get m w =
     (let (s1, w1) = close S H None (get sid, w);
          m1 = (if t_close_calls (get sid) < t_close_calls s1 then unregister m sid (identity_name s1) else m)
      in shutdown_loop S H sids (get(sid := s1)) m1 w1)"

definition shutdown_terminals ::
  "settings \<Rightarrow> host \<Rightarrow> (string \<Rightarrow> TerminalSession) \<Rightarrow> TerminalManager \<Rightarrow> world \<Rightarrow>
   (string \<Rightarrow> TerminalSession) \<times> TerminalManager \<times> world" where
  "shutdown_terminals S H get m w = shutdown_loop S H (dkeys (sessions m)) get m w"

section \<open>Counting sessions\<close>

text \<open>The number of live sessions of an identity, and the manager's count of them.\<close>

definition sessions_of :: "TerminalManager \<Rightarrow> string \<Rightarrow> nat" where
  "sessions_of m i = length (filter (\<lambda>p. snd p = i) (sessions m))"

abbreviation counted :: "TerminalManager \<Rightarrow> string \<Rightarrow> int" where
  "counted m i \<equiv> dget_or (by_identity m) i 0"

definition manager_ok :: "TerminalManager \<Rightarrow> bool" where
  "manager_ok m \<longleftrightarrow> wf_dict (sessions m) \<and> (\<forall>i. counted m i = int (sessions_of m i))"

lemma dget_or_updates [simp]:
  "dget_or (dset k v d) j x = (if j = k then v else dget_or d j x)"
  "dget_or (dpop k d) j x = (if j = k then x else dget_or d j x)"
  by (simp_all add: dget_or_def)

lemma new_manager_ok: "manager_ok (new_manager mx n)"
  by (simp add: manager_ok_def new_manager_def sessions_of_def dget_or_def)

lemma register_ok:
  assumes "manager_ok m" "dget (sessions m) sid = None"
  shows "manager_ok (register m sid i)" "length (sessions (register m sid i)) = Suc (length (sessions m))"
    "sessions_of (register m sid i) j = (if j = i then Suc (sessions_of m i) else sessions_of m j)"
  using assms by (auto simp: manager_ok_def register_def sessions_of_def dset_fresh inv_intros
      wf_dict_def map_of_eq_None_iff)

lemma sessions_of_dpop:
  assumes "wf_dict d" "dget d sid = Some i"
  shows "length (filter (\<lambda>p. snd p = j) d) =
    length (filter (\<lambda>p. snd p = j) (dpop sid d)) + (if j = i then 1 else 0)"
  using assms
proof (induction d)
  case (Cons p d)
  obtain k v where p: "p = (k, v)" by (cases p)
  show ?case
  proof (cases "k = sid")
    case True
    with Cons.prems p have "dget d sid = None" "v = i" by (auto simp: wf_dict_def map_of_eq_None_iff)
    with p True show ?thesis by (simp add: length_dpop_new)
  next
    case False
    with Cons p show ?thesis by (auto simp: wf_dict_def)
  qed
qed simp

lemma unregister_ok:
  assumes "manager_ok m" "dget (sessions m) sid = Some i"
  shows "manager_ok (unregister m sid i)" "sessions_of (unregister m sid i) j = sessions_of m j - (if j = i then 1 else 0)"
    "length (sessions (unregister m sid i)) \<le> length (sessions m)"
proof -
  have w: "wf_dict (sessions m)" using assms(1) by (simp add: manager_ok_def)
  note c = sessions_of_dpop [OF w assms(2)]
  have s: "sessions_of (unregister m sid i) j = sessions_of m j - (if j = i then 1 else 0)" for j
    using c [of j] by (simp add: sessions_of_def unregister_def Let_def)
  have pos: "0 < sessions_of m i" using c [of i] by (simp add: sessions_of_def)
  have n: "counted m j = int (sessions_of m j)" for j using assms(1) by (simp add: manager_ok_def)
  have "counted (unregister m sid i) j = counted m j - (if j = i then 1 else 0)" for j
    using pos n [of i] by (auto simp: unregister_def Let_def)
  with s n pos have "counted (unregister m sid i) j = int (sessions_of (unregister m sid i) j)" for j
    by (cases "j = i") (simp_all add: of_nat_diff)
  moreover have "wf_dict (sessions (unregister m sid i))" using w by (simp add: unregister_def Let_def)
  ultimately show "manager_ok (unregister m sid i)" by (simp add: manager_ok_def)
  show "sessions_of (unregister m sid i) j = sessions_of m j - (if j = i then 1 else 0)" by (rule s)
  show "length (sessions (unregister m sid i)) \<le> length (sessions m)"
    by (simp add: unregister_def Let_def length_delete_le)
qed

text \<open>
  Connections as the WebSocket handler makes them, as what the manager sees of them; \<^theory_text>\<open>Routes\<close> and
  \<^theory_text>\<open>Websocket\<close> show that the modelled handler goes through these events. \<open>Check\<close> asks the manager and then waits for the
  handshake, \<open>Admit\<close> registers the session when the handshake is done; \<open>Start_timeout\<close> is a start
  without a console, where \<open>close\<close> unregisters the session and the handler does so again;
  \<open>Start_error\<close> is any other failed start, and \<open>Closed\<close> the end of a live session. A pending
  connection remembers the answer it got.
\<close>

datatype ws_event = Check string string | Admit string | Start_timeout string | Start_error string | Closed string

record ws_state =
  manager :: TerminalManager
  pending :: "(string, string) dict"

definition end_session :: "nat \<Rightarrow> string \<Rightarrow> ws_state \<Rightarrow> ws_state" where
  "end_session k sid st = (case dget (sessions (manager st)) sid of None \<Rightarrow> st
     | Some i \<Rightarrow> st\<lparr>manager := ((\<lambda>m. unregister m sid i) ^^ k) (manager st)\<rparr>)"

fun ws_step :: "(string \<Rightarrow> bool) \<Rightarrow> ws_state \<Rightarrow> ws_event \<Rightarrow> ws_state" where
  "ws_step admin st (Check sid i) =
     (if dget (sessions (manager st)) sid = None \<and> dget (pending st) sid = None \<and> rejection (manager st) i (admin i) = None
      then st\<lparr>pending := dset sid i (pending st)\<rparr> else st)"
| "ws_step admin st (Admit sid) =
     (case dget (pending st) sid of None \<Rightarrow> st
      | Some i \<Rightarrow> st\<lparr>manager := register (manager st) sid i, pending := dpop sid (pending st)\<rparr>)"
| "ws_step admin st (Start_timeout sid) = end_session 2 sid st"
| "ws_step admin st (Start_error sid) = end_session 1 sid st"
| "ws_step admin st (Closed sid) = end_session 1 sid st"

definition ws_run :: "(string \<Rightarrow> bool) \<Rightarrow> ws_state \<Rightarrow> ws_event list \<Rightarrow> ws_state" where
  "ws_run admin st evs = foldl (ws_step admin) st evs"

definition ws_start :: "int \<Rightarrow> int \<Rightarrow> ws_state" where
  "ws_start mx n = \<lparr>manager = new_manager mx n, pending = []\<rparr>"

text \<open>Handshakes that do not overlap: each check is followed at once by its registration.\<close>

fun serial :: "ws_event list \<Rightarrow> bool" where
  "serial [] = True"
| "serial (Check sid i # Admit sid' # evs) = (sid = sid' \<and> serial evs)"
| "serial (Check sid i # evs) = False"
| "serial (Admit sid # evs) = False"
| "serial (Start_timeout sid # evs) = False"
| "serial (Start_error sid # evs) = serial evs"
| "serial (Closed sid # evs) = serial evs"

definition caps_ok :: "(string \<Rightarrow> bool) \<Rightarrow> TerminalManager \<Rightarrow> bool" where
  "caps_ok admin m \<longleftrightarrow> manager_ok m \<and> int (length (sessions m)) \<le> max 0 (max_total m) \<and>
     (\<forall>i. \<not> admin i \<longrightarrow> int (sessions_of m i) \<le> max 0 (per_user m))"

lemma manager_config [simp, frame_simps]:
  "max_total (register m sid i) = max_total m" "per_user (register m sid i) = per_user m"
  "max_total (unregister m sid i) = max_total m" "per_user (unregister m sid i) = per_user m"
  by (simp_all add: register_def unregister_def Let_def)

lemma register_caps:
  assumes "caps_ok admin m" "dget (sessions m) sid = None" "rejection m i (admin i) = None"
  shows "caps_ok admin (register m sid i)"
proof -
  have m: "manager_ok m" using assms(1) by (simp add: caps_ok_def)
  from assms(3) have "int (length (sessions m)) < max_total m" "\<not> admin i \<longrightarrow> counted m i < per_user m"
    by (auto simp: rejection_def split: if_splits)
  moreover have "counted m i = int (sessions_of m i)" using m by (simp add: manager_ok_def)
  ultimately show ?thesis
    using register_ok [OF m assms(2), of i] assms(1) by (auto simp: caps_ok_def)
qed

lemma unregister_caps:
  assumes "caps_ok admin m" "dget (sessions m) sid = Some i"
  shows "caps_ok admin (unregister m sid i)"
proof -
  have m: "manager_ok m" using assms(1) by (simp add: caps_ok_def)
  have less: "sessions_of (unregister m sid i) j \<le> sessions_of m j" for j
    using unregister_ok(2) [OF m assms(2), of j] by simp
  show ?thesis
    unfolding caps_ok_def manager_config
  proof (intro conjI allI impI)
    show "manager_ok (unregister m sid i)" by (rule unregister_ok(1) [OF m assms(2)])
    show "int (length (sessions (unregister m sid i))) \<le> max 0 (max_total m)"
      using unregister_ok(3) [OF m assms(2)] assms(1) unfolding caps_ok_def by linarith
    fix j
    assume "\<not> admin j"
    then have "int (sessions_of m j) \<le> max 0 (per_user m)" using assms(1) by (simp add: caps_ok_def)
    with less [of j] show "int (sessions_of (unregister m sid i) j) \<le> max 0 (per_user m)" by linarith
  qed
qed

lemma end_session_caps:
  "caps_ok admin (manager st) \<Longrightarrow> caps_ok admin (manager (end_session (Suc 0) sid st))"
  "pending (end_session k sid st) = pending st"
  by (auto simp: end_session_def unregister_caps split: option.splits)

lemma serial_caps:
  "serial evs \<Longrightarrow> pending st = [] \<Longrightarrow> caps_ok admin (manager st) \<Longrightarrow> caps_ok admin (manager (ws_run admin st evs))"
proof (induction evs arbitrary: st rule: serial.induct)
  case (2 sid i sid' evs)
  have "pending (ws_step admin (ws_step admin st (Check sid i)) (Admit sid)) = [] \<and>
    caps_ok admin (manager (ws_step admin (ws_step admin st (Check sid i)) (Admit sid)))"
    using 2 by (auto intro: register_caps)
  with 2 show ?case by (simp add: ws_run_def)
qed (auto simp: ws_run_def end_session_caps)

section \<open>Starting is contained\<close>

lemma close_fields [simp]:
  "t_id (fst (close S H why sw)) = t_id (fst sw)"
  "identity_name (fst (close S H why sw)) = identity_name (fst sw)"
  "t_files (fst (close S H why sw)) = t_files (fst sw)"
  "t_closed (fst (close S H why sw))"
  by (auto simp: close_def Let_def)

lemma terminal_config_facts:
  "hardened (terminal_config S s)" "writable_sources (terminal_config S s) = []"
  by (simp_all add: terminal_config_def hardened_build_config writable_sources_build_config opt_list_def)

lemma bind_console_touches: "fp.keeps {session_dir S s} (bind_console (console_sock S s))"
proof -
  have "fp.keeps {session_dir S s} (on_files (write_bytes (console_sock S s) []))"
    by (rule write_touches) (simp add: console_sock_def path_join_plain plain_segment_def below_def)
  then show ?thesis by (simp add: bind_console_def fp.keeps_raise)
qed

lemma bind_console_log [simp]: "done_log (snd (bind_console p w)) = done_log w"
  by (simp add: bind_console_def raise_def)

lemma prepare_terminal_touches: "fp.keeps {session_dir S s} (prepare_terminal S s)"
  unfolding prepare_terminal_def session_state_def Let_def write_bundle_def
  by (intro fp.keeps_basic mkdir_touches stage_touches write_touches bind_console_touches)
    (simp_all add: path_join_plain below_def)

lemma prepare_terminal_log [simp]: "done_log (snd (prepare_terminal S s w)) = done_log w"
  unfolding prepare_terminal_def Let_def by (intro bind_same_log) simp_all

lemma launch_terminal_touches:
  assumes "confined H"
  shows "fp.keeps {session_dir S s} (launch H (terminal_spec S s))"
  by (rule launch_touches [OF assms])
    (simp_all add: terminal_spec_def session_state_def path_join_plain terminal_config_facts below_def)

lemma close_touches: "touches {session_dir S (fst sw)} (snd sw) (snd (close S H why sw))"
proof -
  obtain s w where sw: "sw = (s, w)" by (cases sw)
  have "files (close_container S H st sid w) = files w" for st sid
    by (auto simp: close_container_def bind_act_def kill_def delete_container_def control_def Let_def
        split: option.splits)
  then show ?thesis
    by (auto simp: sw close_def touches_def Let_def intro: rmtree_same)
qed

lemma close_logs: "logs (launches_ok Q) (snd sw) (snd (close S H why sw))"
proof -
  have "\<exists>es. done_log (close_container S H st sid w) = done_log w @ es \<and> list_all (launches_ok Q) es" for st sid w
    by (auto simp: close_container_def bind_act_def kill_def delete_container_def control_def Let_def
        split: option.splits)
  from this [of "session_state S (fst sw)" "t_id (fst sw)" "snd sw"] show ?thesis
    by (auto simp: close_def logs_def Let_def)
qed

lemma start_terminal_world:
  assumes "start_terminal S H con (s, w) = (r, s1, w1)"
  shows "confined H \<Longrightarrow> touches {session_dir S s} w w1"
    and "logs (launches_ok (\<lambda>sp. sp = terminal_spec S s)) w w1"
    and "identity_name s1 = identity_name s" "t_id s1 = t_id s" "t_files s1 = t_files s"
proof -
  let ?m = "bind_act (prepare_terminal S s) (\<lambda>_. launch H (terminal_spec S s))"
  let ?Q = "launches_ok (\<lambda>sp. sp = terminal_spec S s)"
  obtain r2 w2 where m: "?m w = (r2, w2)" by fastforce
  have tm: "touches {session_dir S s} w w2" if c: "confined H"
  proof -
    have "fp.keeps {session_dir S s} ?m"
      by (rule fp.keeps_bind [OF prepare_terminal_touches launch_terminal_touches [OF c]])
    from fp.keepsD [OF this, of w] m show ?thesis by simp
  qed
  have "lg.keeps ?Q ?m"
    by (rule lg.keeps_bind [OF same_log_keeps(1)], simp, rule lg.keepsI)
      (auto simp: launch_def logs_def split: sum.splits)
  from lg.keepsD [OF this, of w] m have lm: "logs ?Q w w2" by simp
  have ex: "(r, s1, w1) = (case r2 of Inl e \<Rightarrow> (Inl e, s, w2)
      | Inr pr \<Rightarrow> (let s3 = s\<lparr>t_proc := Some True\<rparr> in
           case con of
             No_console msg \<Rightarrow> (Inl (Exn ''RuntimeError'' (''terminal: sandbox never opened a console ('' @ msg @ '')'')),
                               close S H None (s3, w2))
           | Handshake msg now \<Rightarrow>
               (case recv_fd msg of
                  Inl e \<Rightarrow> (Inl e, s3, w2)
                | Inr fd \<Rightarrow> (Inr (), s3\<lparr>t_fd := True, t_start := now, t_last_input := now\<rparr>, w2))))"
    using assms m by (cases r2) (simp_all add: start_terminal_def Let_def)
  let ?s3 = "s\<lparr>t_proc := Some True\<rparr>"
  have dir: "session_dir S ?s3 = session_dir S s" by (simp add: session_dir_def)
  have cases: "(w1 = w2 \<and> identity_name s1 = identity_name s \<and> t_id s1 = t_id s \<and> t_files s1 = t_files s) \<or> (s1, w1) = close S H None (?s3, w2)"
    using ex by (cases r2; cases con) (auto simp: Let_def split: sum.splits)
  note cf = close_fields(1,2,3) [of S H None "(?s3, w2)"] close_touches [of S "(?s3, w2)" H None]
    close_logs [of "\<lambda>sp. sp = terminal_spec S s" "(?s3, w2)" S H None]
  show "confined H \<Longrightarrow> touches {session_dir S s} w w1"
    using cases tm cf(4) fp.frame_trans [of "{session_dir S s}" w w2 w1] dir by (metis fst_conv snd_conv)
  show "logs ?Q w w1"
    using cases lm cf(5) lg.frame_trans [of ?Q w w2 w1] by (metis fst_conv snd_conv)
  show "identity_name s1 = identity_name s" "t_id s1 = t_id s" "t_files s1 = t_files s"
    using cases cf(1,2,3) by (auto simp: prod_eq_iff)
qed

section \<open>What a started session finds\<close>

lemma bind_run_Inr:
  assumes "bind_act m f w = (Inr y, w')"
  obtains x w1 where "m w = (Inr x, w1)" "f x w1 = (Inr y, w')"
  using assms by (auto simp: bind_act_def split: prod.splits sum.splits)

lemma keeps_files_at:
  "fp.keeps {d} m \<Longrightarrow> m w = (r, w1) \<Longrightarrow> \<not> prefix d p \<Longrightarrow> \<not> prefix p d \<Longrightarrow> files w1 p = files w p"
  using fp.keepsD [of "{d}" m w] by (simp add: touches_def same_outside_def)

text \<open>Below \<^verbatim>\<open>src\<close>, whatever else a start prepares, lie the session's files and what was there before.\<close>

lemma prepare_terminal_src:
  assumes "prepare_terminal S s w = (Inr (), w1)"
  shows "files w1 (session_dir S s @ ''src'' # q) =
    (if q = [] then Some Dir else staged_tree (t_files s) (session_dir S s @ [''src'']) (files w) q)"
proof -
  let ?d = "session_dir S s"
  have j: "path_join ?d ''src'' = ?d @ [''src'']" "path_join ?d ''bundle'' = ?d @ [''bundle'']"
    "session_state S s = ?d @ [''state'']" "console_sock S s = ?d @ [''console.sock'']"
    by (simp_all add: session_state_def console_sock_def path_join_plain plain_segment_def)
  note run = assms [unfolded prepare_terminal_def Let_def j]
  have other: "\<not> prefix (?d @ [x]) (?d @ ''src'' # q)" "\<not> prefix (?d @ ''src'' # q) (?d @ [x])" if "x \<noteq> ''src''" for x q
    using that by simp_all
  have keep: "fp.keeps {?d @ [x]} (on_files (mkdir_parents (?d @ [x]) False))" for x
    by (rule mkdir_touches) (simp add: below_def)
  from run obtain u1 v1 where 1: "on_files (mkdir_parents (?d @ [''src'']) False) w = (Inr u1, v1)"
    and r1: "bind_act (on_files (mkdir_parents (?d @ [''bundle'']) False)) (\<lambda>_. bind_act (on_files (mkdir_parents (?d @ [''state'']) False))
      (\<lambda>_. bind_act (stage_files (?d @ [''src'']) [] (t_files s)) (\<lambda>_.
         bind_act (on_files (write_bundle (?d @ [''bundle'']) (terminal_config S s))) (\<lambda>_. bind_console (?d @ [''console.sock'']))))) v1 =
      (Inr (), w1)" by (rule bind_run_Inr)
  from r1 obtain u2 v2 where 2: "on_files (mkdir_parents (?d @ [''bundle'']) False) v1 = (Inr u2, v2)"
    and r2: "bind_act (on_files (mkdir_parents (?d @ [''state'']) False)) (\<lambda>_. bind_act (stage_files (?d @ [''src'']) [] (t_files s)) (\<lambda>_.
         bind_act (on_files (write_bundle (?d @ [''bundle'']) (terminal_config S s))) (\<lambda>_. bind_console (?d @ [''console.sock''])))) v2 =
      (Inr (), w1)" by (rule bind_run_Inr)
  from r2 obtain u3 v3 where 3: "on_files (mkdir_parents (?d @ [''state'']) False) v2 = (Inr u3, v3)"
    and r3: "bind_act (stage_files (?d @ [''src'']) [] (t_files s)) (\<lambda>_.
         bind_act (on_files (write_bundle (?d @ [''bundle'']) (terminal_config S s))) (\<lambda>_. bind_console (?d @ [''console.sock'']))) v3 =
      (Inr (), w1)" by (rule bind_run_Inr)
  from r3 obtain u4 v4 where 4: "stage_files (?d @ [''src'']) [] (t_files s) v3 = (Inr u4, v4)"
    and r4: "bind_act (on_files (write_bundle (?d @ [''bundle'']) (terminal_config S s))) (\<lambda>_. bind_console (?d @ [''console.sock''])) v4 =
      (Inr (), w1)" by (rule bind_run_Inr)
  from r4 obtain u5 v5 where 5: "on_files (write_bundle (?d @ [''bundle'']) (terminal_config S s)) v4 = (Inr u5, v5)"
    and 6: "bind_console (?d @ [''console.sock'']) v5 = (Inr (), w1)" by (rule bind_run_Inr)
  have f1: "files v1 (?d @ ''src'' # q) = (if q = [] then Some Dir else files w (?d @ ''src'' # q))" for q
    using 1 by (auto simp: on_files_def mkdir_parents_def split: sum.splits if_splits option.splits node.splits)
  have f3: "files v3 (?d @ ''src'' # q) = files v1 (?d @ ''src'' # q)" for q
    using keeps_files_at [OF keep 2 other] keeps_files_at [OF keep 3 other] by simp
  have f4: "files v4 (?d @ ''src'' # q) = staged_tree (t_files s) (?d @ [''src'']) (files v3) q"
    using stage_files_tree [of "?d @ [''src'']" "[]" "t_files s" v3 v4] 4 by simp
  have "fp.keeps {?d @ [''bundle'']} (on_files (write_bundle (?d @ [''bundle'']) (terminal_config S s)))"
    unfolding write_bundle_def by (rule write_touches) (simp add: path_join_plain below_def)
  from keeps_files_at [OF this 5 other] have f5: "files v5 (?d @ ''src'' # q) = files v4 (?d @ ''src'' # q)" by simp
  have "fp.keeps {?d @ [''console.sock'']} (bind_console (?d @ [''console.sock'']))"
    unfolding bind_console_def by (auto intro!: write_touches fp.keeps_raise simp: below_def)
  from keeps_files_at [OF this 6 other] have "files w1 (?d @ ''src'' # q) = files v5 (?d @ ''src'' # q)" by simp
  with f3 f1 show ?thesis
    unfolding f5 f4 by (auto simp: staged_tree_def staged_file_def split: list.splits option.splits)
qed

lemma start_terminal_ready:
  assumes "start_terminal S H con (s, w) = (Inr (), s1, w1)"
  shows "t_closed s1 = t_closed s" "t_close_calls s1 = t_close_calls s" "t_fd s1"
    "done_log w1 = done_log w @ [Launched (terminal_spec S s)]"
proof -
  obtain r v where m: "prepare_terminal S s w = (r, v)" by fastforce
  have v: "done_log v = done_log w" using prepare_terminal_log [of S s w] by (simp add: m)
  show "t_closed s1 = t_closed s" "t_close_calls s1 = t_close_calls s" "t_fd s1"
    "done_log w1 = done_log w @ [Launched (terminal_spec S s)]"
    using assms v by (auto simp: start_terminal_def bind_act_def m launch_def Let_def split: sum.splits console.splits prod.splits)
qed

text \<open>The container of a confined runtime changes nothing there.\<close>

lemma start_terminal_src:
  assumes "confined H" "start_terminal S H con (s, w) = (Inr (), s1, w1)"
  shows "files w1 (session_dir S s @ ''src'' # q) =
    (if q = [] then Some Dir else staged_tree (t_files s) (session_dir S s @ [''src'']) (files w) q)"
proof -
  from assms(2) obtain pr w2 where b: "bind_act (prepare_terminal S s) (\<lambda>_. launch H (terminal_spec S s)) w = (Inr pr, w2)"
    and w1: "w1 = w2" by (auto simp: start_terminal_def Let_def split: prod.splits sum.splits console.splits)
  from b obtain u v where p: "prepare_terminal S s w = (Inr u, v)" and l: "launch H (terminal_spec S s) v = (Inr pr, w2)"
    by (rule bind_run_Inr)
  have "files w2 (session_dir S s @ ''src'' # q) = files v (session_dir S s @ ''src'' # q)"
    using assms(1) l by (auto simp: launch_def confined_def terminal_spec_def terminal_config_facts session_state_def
        path_join_plain split: sum.splits)
  with prepare_terminal_src [of S s w v q] p w1 show ?thesis by simp
qed

text \<open>Shutting the manager down.\<close>

lemma shutdown_loop_gone:
  assumes "\<forall>sid \<in> set sids. \<not> t_closed (get sid)" "distinct sids"
    and "shutdown_loop S H sids get m w = (get1, m1, w1)"
  shows "(\<forall>sid \<in> set sids. t_closed (get1 sid)) \<and> sessions m1 = filter (\<lambda>p. fst p \<notin> set sids) (sessions m)"
  using assms
proof (induction sids arbitrary: get m w)
  case (Cons sid sids)
  obtain s1 w2 where c: "close S H None (get sid, w) = (s1, w2)" by fastforce
  have s1: "t_closed s1" "t_close_calls s1 = t_close_calls (get sid) + 1"
    using c Cons.prems(1) by (auto simp: close_def Let_def)
  have rest: "\<forall>x \<in> set sids. \<not> t_closed ((get(sid := s1)) x)" "distinct sids"
    using Cons.prems(1,2) by auto
  have keep: "get1 sid = s1"
  proof -
    have "fst (shutdown_loop S H ks g n v) k = g k" if "k \<notin> set ks" for ks g n v k
      using that by (induction ks arbitrary: g n v) (auto split: prod.splits)
    from this [of sid sids "get(sid := s1)"] show ?thesis
      using Cons.prems(2,3) c s1(2) by (metis (no_types, lifting) distinct.simps(2) fst_conv fun_upd_same
        shutdown_loop.simps(2) case_prod_conv)
  qed
  have "shutdown_loop S H sids (get(sid := s1)) (unregister m sid (identity_name s1)) w2 = (get1, m1, w1)"
    using Cons.prems(3) c s1(2) by simp
  from Cons.IH [OF rest this]
  have "(\<forall>x \<in> set sids. t_closed (get1 x)) \<and> sessions m1 =
      filter (\<lambda>p. fst p \<notin> set sids) (sessions (unregister m sid (identity_name s1)))" .
  moreover have "sessions (unregister m sid (identity_name s1)) = filter (\<lambda>p. fst p \<noteq> sid) (sessions m)"
    by (auto simp: unregister_def Let_def AList.delete_eq intro: filter_cong)
  ultimately show ?case
    using keep s1(1) by (auto intro: filter_cong)
qed simp

section \<open>Properties\<close>

text \<open>
  C24. The caps on terminals. As long as handshakes do not overlap and no start times out (such a start
  is unregistered twice, \<^theory_text>\<open>terminal_caps_gaps\<close>), there are
  never more sessions than the total cap, no ordinary identity has more than its own cap, and the
  manager's count of every identity is the number of its sessions.
\<close>

theorem terminal_caps:
  assumes "serial evs"
  shows "int (length (sessions (manager (ws_run admin (ws_start mx n) evs)))) \<le> max 0 mx \<and>
         (\<forall>i. counted (manager (ws_run admin (ws_start mx n) evs)) i =
              int (sessions_of (manager (ws_run admin (ws_start mx n) evs)) i)) \<and>
         (\<forall>i. admin i \<or> int (sessions_of (manager (ws_run admin (ws_start mx n) evs)) i) \<le> max 0 n)"
proof -
  have "caps_ok admin (manager (ws_start mx n))"
    using new_manager_ok [of mx n]
    by (simp add: caps_ok_def ws_start_def) (simp add: new_manager_def sessions_of_def)
  from serial_caps [OF assms _ this] have "caps_ok admin (manager (ws_run admin (ws_start mx n) evs))"
    by (simp add: ws_start_def)
  moreover have "max_total (manager (ws_run admin (ws_start mx n) evs)) = mx \<and>
      per_user (manager (ws_run admin (ws_start mx n) evs)) = n"
  proof -
    have u: "max_total (((\<lambda>m. unregister m sid i) ^^ k) m) = max_total m \<and>
        per_user (((\<lambda>m. unregister m sid i) ^^ k) m) = per_user m" for k sid i m
      by (induction k) simp_all
    have "max_total (manager (ws_step admin st ev)) = max_total (manager st) \<and>
        per_user (manager (ws_step admin st ev)) = per_user (manager st)" for st ev
      by (cases ev) (auto simp: end_session_def u split: option.splits)
    then have "max_total (manager (ws_run admin st evs)) = max_total (manager st) \<and>
        per_user (manager (ws_run admin st evs)) = per_user (manager st)" for st
      unfolding ws_run_def by (induction evs arbitrary: st) auto
    then show ?thesis by (simp add: ws_start_def new_manager_def)
  qed
  ultimately show ?thesis by (auto simp: caps_ok_def manager_ok_def)
qed

theorem terminal_caps_witness:
  "int (length (sessions (manager (ws_run (\<lambda>i. False) (ws_start 8 1)
     [Check ''t1'' ''a'', Admit ''t1'', Check ''t2'' ''a'', Admit ''t2'', Closed ''t1'', Check ''t3'' ''a'', Admit ''t3''])))) \<le> 8"
  using terminal_caps [of "[Check ''t1'' ''a'', Admit ''t1'', Check ''t2'' ''a'', Admit ''t2'', Closed ''t1'',
      Check ''t3'' ''a'', Admit ''t3'']" "\<lambda>i. False" 8 1] by simp

text \<open>
  Where the caps fail. The check and the registration are apart, so two connections of one user
  that overlap in their handshakes both get a terminal although the cap is one. And a start that
  times out is unregistered twice: with a cap of two it makes the manager forget a live session, so
  that the user gets a third.
\<close>

theorem terminal_caps_gaps:
  "sessions_of (manager (ws_run (\<lambda>i. False) (ws_start 8 1)
     [Check ''t1'' ''a'', Check ''t2'' ''a'', Admit ''t1'', Admit ''t2''])) ''a'' = 2 \<and>
   sessions_of (manager (ws_run (\<lambda>i. False) (ws_start 8 2)
     [Check ''t1'' ''a'', Admit ''t1'', Check ''t2'' ''a'', Admit ''t2'', Start_timeout ''t2'',
      Check ''t3'' ''a'', Admit ''t3'', Check ''t4'' ''a'', Admit ''t4''])) ''a'' = 3"
  by (simp add: ws_run_def ws_start_def new_manager_def rejection_def register_def unregister_def
      end_session_def sessions_of_def Let_def dget_or_def numeral_2_eq_2)

text \<open>
  Closing a session. The first \<open>close\<close> takes the pty, kills and deletes the container (when the
  control commands do not raise), kills the process if it still runs, removes the session's directory,
  sets the event and calls \<open>on_close\<close> once; every later \<open>close\<close>, for whatever reason, changes nothing.
\<close>

theorem close_once:
  assumes "\<not> t_closed s" and "\<forall>n c. h_control H n c = None"
  shows "let (s1, w1) = close S H why (s, w) in
           t_closed s1 \<and> t_closed_set s1 \<and> \<not> t_fd s1 \<and> t_close_calls s1 = t_close_calls s + 1 \<and>
           done_log w1 = done_log w @ [Kill_called (t_id s), Delete_called (t_id s)] @
             (if t_proc s = Some True then [Proc_killed (t_id s)] else []) \<and>
           (\<forall>p. files w1 (session_dir S s @ p) = None) \<and>
           close S H why' (s1, w1) = (s1, w1)"
  using assms
  by (auto simp: close_def Let_def close_container_def bind_act_def kill_def delete_container_def control_def rmtree_def)

theorem close_once_witness:
  "t_close_calls (fst (close example_settings (example_host (Some 0) []) None
     (close example_settings (example_host (Some 0) []) (Some ''bye'') (new_session ''term-1'' ''a'' [], empty_world)))) = 1"
proof -
  have "\<not> t_closed (new_session ''term-1'' ''a'' [])" "t_close_calls (new_session ''term-1'' ''a'' []) = 0"
    by (simp_all add: new_session_def)
  then show ?thesis
    using close_once [of "new_session ''term-1'' ''a'' []" "example_host (Some 0) []" example_settings "Some ''bye''"
        empty_world None]
    by (auto simp: example_host_def Let_def split: prod.splits)
qed

text \<open>
  Sessions end. A session that a tick of the watchdog leaves open is younger than the maximum
  lifetime and has had input within the idle time; one it finds older is closed by that tick.
\<close>

theorem watchdog_bounds:
  "case watchdog S H now (s, w) of (s1, w1) \<Rightarrow>
     t_closed s1 = (t_closed s \<or> MAX_LIFETIME_S S \<le> now - t_start s \<or> IDLE_TIMEOUT_S S \<le> now - t_last_input s) \<and>
     (if t_closed s1 then True else s1 = s \<and> now - t_start s < MAX_LIFETIME_S S \<and> now - t_last_input s < IDLE_TIMEOUT_S S)"
  by (auto simp: watchdog_def close_def Let_def)

text \<open>The window size is always between 1 and 1000, so it fits the pty's 16-bit fields unchanged.\<close>

lemma resize_in_range:
  "resize rows cols s = Some (r, c) \<Longrightarrow>
     uint r = max 1 (min rows 1000) \<and> uint c = max 1 (min cols 1000)"
proof -
  have "uint (word_of_int (max 1 (min k 1000)) :: 16 word) = max 1 (min k 1000)" for k :: int
    by (simp add: uint_word_of_int)
  then show "resize rows cols s = Some (r, c) \<Longrightarrow>
     uint r = max 1 (min rows 1000) \<and> uint c = max 1 (min cols 1000)"
    by (auto simp: resize_def split: if_splits)
qed

text \<open>What the pty accepted is a prefix of what the client sent.\<close>

lemma write_pty_prefix: "prefix (write_pty ns data) data"
proof (induction ns data rule: write_pty.induct)
  case (3 n ns b bs)
  then show ?case
    by (simp del: take_append) (metis append_take_drop_id same_prefix_prefix)
qed simp_all

end
