(* ===== verification/History.thy ===== *)
theory History
  imports Schemas Abuse Scoping Json
begin

text \<open>
  \<^verbatim>\<open>app/store.py\<close>: the run history. SQLite's table is the list of its rows; the order it
  gives rows with equal creation times is a parameter. Text columns hold what the source writes into
  them: the files as JSON, the flags joined by commas.
\<close>

section \<open>State\<close>

record row =
  r_id :: string
  r_created_at :: string
  r_identity :: string
  r_language :: string
  r_files :: string
  r_stdin :: string
  r_run_timeout_ms :: "int option"
  r_stdout :: string
  r_stderr :: string
  r_exit_code :: "int option"
  r_timed_out :: int
  r_truncated_stdout :: int
  r_truncated_stderr :: int
  r_wall_time_ms :: int
  r_stage :: string
  r_error :: "string option"
  r_suspicious :: int
  r_flags :: string

record RunRecord =
  rec_identity :: string
  rec_language :: string
  rec_files :: "(string, string) dict"
  rec_stdin :: string
  rec_run_timeout_ms :: "int option"
  rec_result :: ExecutionResult
  rec_suspicious :: bool
  rec_flags :: "string list"
  rec_id :: string
  rec_created_at :: string

text \<open>Whether history is kept at all, whether the database is open, and the rows on disk.\<close>

record history =
  PERSIST_ENABLED :: bool
  conn_open :: bool
  runs_table :: "row list"

definition init_db :: "history \<Rightarrow> history" where
  "init_db h = (if \<not> PERSIST_ENABLED h then h else h\<lparr>conn_open := True\<rparr>)"

definition close_db :: "history \<Rightarrow> history" where
  "close_db h = h\<lparr>conn_open := False\<rparr>"

section \<open>Rows\<close>

definition int_of_bool :: "bool \<Rightarrow> int" where
  "int_of_bool b = (if b then 1 else 0)"

definition files_json :: "(string, string) dict \<Rightarrow> json" where
  "files_json fs = JObj (map (\<lambda>(n, c). (n, JStr c)) fs)"

text \<open>\<open>json.loads\<close> of the files column; a text it cannot read would raise.\<close>

definition json_str :: "json \<Rightarrow> string" where
  "json_str j = (case j of JStr s \<Rightarrow> s | _ \<Rightarrow> [])"

definition files_of_json :: "string \<Rightarrow> (string, string) dict" where
  "files_of_json s = (case loads s of Some (JObj kvs) \<Rightarrow> map (\<lambda>(k, v). (k, json_str v)) kvs | _ \<Rightarrow> [])"

definition row_of :: "RunRecord \<Rightarrow> row" where
  "row_of rec = (let r = rec_result rec in
     \<lparr>r_id = rec_id rec, r_created_at = rec_created_at rec, r_identity = rec_identity rec,
      r_language = rec_language rec, r_files = dumps (files_json (rec_files rec)), r_stdin = rec_stdin rec,
      r_run_timeout_ms = rec_run_timeout_ms rec, r_stdout = stdout r, r_stderr = stderr r,
      r_exit_code = exit_code r, r_timed_out = int_of_bool (timed_out r),
      r_truncated_stdout = int_of_bool (truncated_stdout r),
      r_truncated_stderr = int_of_bool (truncated_stderr r), r_wall_time_ms = wall_time_ms r,
      r_stage = stage r, r_error = error r, r_suspicious = int_of_bool (rec_suspicious rec),
      r_flags = py_join '','' (rec_flags rec)\<rparr>)"

definition split_flags :: "string \<Rightarrow> string list" where
  "split_flags s = filter (\<lambda>f. f \<noteq> []) (py_split (CHR '','') s)"

definition summary_of :: "row \<Rightarrow> RunSummary" where
  "summary_of r = \<lparr>sum_id = r_id r, sum_created_at = r_created_at r, sum_language = r_language r,
     sum_exit_code = r_exit_code r, sum_timed_out = (r_timed_out r \<noteq> 0), sum_stage = r_stage r,
     sum_wall_time_ms = r_wall_time_ms r, sum_suspicious = (r_suspicious r \<noteq> 0),
     sum_flags = split_flags (r_flags r)\<rparr>"

definition detail_of :: "row \<Rightarrow> RunDetail" where
  "detail_of r = RunSummary.extend (summary_of r)
     \<lparr>det_files = files_of_json (r_files r), det_stdin = r_stdin r, det_run_timeout_ms = r_run_timeout_ms r,
      det_stdout = r_stdout r, det_stderr = r_stderr r, det_truncated_stdout = (r_truncated_stdout r \<noteq> 0),
      det_truncated_stderr = (r_truncated_stderr r \<noteq> 0), det_error = r_error r\<rparr>"

section \<open>Operations\<close>

definition db_ready :: "history \<Rightarrow> bool" where
  "db_ready h \<longleftrightarrow> PERSIST_ENABLED h \<and> conn_open h"

text \<open>The id is the primary key.\<close>

definition save_sync :: "RunRecord \<Rightarrow> history \<Rightarrow> exn + history" where
  "save_sync rec h =
     (if rec_id rec \<in> set (map r_id (runs_table h))
      then Inl (Exn ''IntegrityError'' ''UNIQUE constraint failed: runs.id'')
      else Inr (h\<lparr>runs_table := runs_table h @ [row_of rec]\<rparr>))"

text \<open>\<open>order\<close> sorts rows by creation time, latest first.\<close>

definition list_sync :: "(row list \<Rightarrow> row list) \<Rightarrow> string \<Rightarrow> nat \<Rightarrow> nat \<Rightarrow> history \<Rightarrow> RunSummary list" where
  "list_sync order identity limit offset h =
     map summary_of (take limit (drop offset (order (filter (\<lambda>r. r_identity r = identity) (runs_table h)))))"

definition get_sync :: "string \<Rightarrow> string \<Rightarrow> history \<Rightarrow> RunDetail option" where
  "get_sync identity run_id h =
     map_option detail_of (find (\<lambda>r. r_id r = run_id \<and> r_identity r = identity) (runs_table h))"

definition delete_sync :: "string \<Rightarrow> string \<Rightarrow> history \<Rightarrow> bool \<times> history" where
  "delete_sync identity run_id h =
     (let kept = filter (\<lambda>r. \<not> (r_id r = run_id \<and> r_identity r = identity)) (runs_table h)
      in (length kept < length (runs_table h), h\<lparr>runs_table := kept\<rparr>))"

definition save_run :: "RunRecord \<Rightarrow> history \<Rightarrow> exn + history" where
  "save_run rec h = (if \<not> db_ready h then Inr h else save_sync rec h)"

definition list_runs :: "(row list \<Rightarrow> row list) \<Rightarrow> string \<Rightarrow> nat \<Rightarrow> nat \<Rightarrow> history \<Rightarrow> RunSummary list" where
  "list_runs order identity limit offset h = (if \<not> db_ready h then [] else list_sync order identity limit offset h)"

definition get_run :: "string \<Rightarrow> string \<Rightarrow> history \<Rightarrow> RunDetail option" where
  "get_run identity run_id h = (if \<not> db_ready h then None else get_sync identity run_id h)"

definition delete_run :: "string \<Rightarrow> string \<Rightarrow> history \<Rightarrow> bool \<times> history" where
  "delete_run identity run_id h = (if \<not> db_ready h then (False, h) else delete_sync identity run_id h)"

section \<open>Lookups belong to their identity\<close>

text \<open>Ids are unique, as the primary key makes them.\<close>

definition history_ok :: "history \<Rightarrow> bool" where
  "history_ok h \<longleftrightarrow> distinct (map r_id (runs_table h))"

lemma save_ok: "history_ok h \<Longrightarrow> save_run rec h = Inr h' \<Longrightarrow> history_ok h'"
  by (auto simp: save_run_def save_sync_def history_ok_def row_of_def Let_def split: if_splits)

lemma delete_ok: "history_ok h \<Longrightarrow> history_ok (snd (delete_run i k h))"
  by (simp add: delete_run_def delete_sync_def history_ok_def Let_def distinct_map_filter)

definition seen_run :: "history \<Rightarrow> string \<Rightarrow> string \<Rightarrow> RunDetail option" where
  "seen_run h k i = get_run i k h"

definition run_owner :: "history \<Rightarrow> string \<Rightarrow> string option" where
  "run_owner h k = map_option r_identity (find (\<lambda>r. r_id r = k) (runs_table h))"

lemma find_in: "find P rs = Some r \<Longrightarrow> r \<in> set rs \<and> P r"
  by (induction rs) (auto split: if_splits)

lemma find_unique:
  assumes "distinct (map r_id rs)" "r \<in> set rs"
  shows "find (\<lambda>x. r_id x = r_id r) rs = Some r"
  using assms by (induction rs) auto

interpretation hs: owner_scoped history_ok seen_run run_owner
proof (unfold_locales, goal_cases)
  case (1 h k i v)
  then obtain r where r: "find (\<lambda>r. r_id r = k \<and> r_identity r = i) (runs_table h) = Some r"
    by (auto simp: seen_run_def get_run_def get_sync_def split: if_splits)
  from find_in [OF r] have "r \<in> set (runs_table h)" "r_id r = k" "r_identity r = i" by auto
  with 1(1) find_unique [of "runs_table h" r] show ?case
    by (simp add: run_owner_def history_ok_def)
qed

section \<open>Writing and reading a run\<close>

lemma loads_files: "wf_dict fs \<Longrightarrow> files_of_json (dumps (files_json fs)) = fs"
proof -
  assume w: "wf_dict fs"
  have "wf_json (files_json fs)"
    using w by (auto simp: files_json_def wf_dict_def list_all_iff comp_def case_prod_unfold)
  from loads_dumps [OF this] show ?thesis
    by (simp add: files_of_json_def files_json_def json_str_def comp_def case_prod_unfold)
qed

definition flags_ok :: "string list \<Rightarrow> bool" where
  "flags_ok fs \<longleftrightarrow> list_all (\<lambda>f. f \<noteq> [] \<and> CHR '','' \<notin> set f) fs"

lemma split_join_flags: "flags_ok fs \<Longrightarrow> split_flags (py_join '','' fs) = fs"
proof (cases "fs = []")
  case False
  assume ok: "flags_ok fs"
  then have "filter (\<lambda>f. f \<noteq> []) fs = fs" by (intro filter_True) (auto simp: flags_ok_def list_all_iff)
  with ok False show ?thesis
    by (simp add: split_flags_def flags_ok_def list_all_iff py_split_join)
qed (simp add: split_flags_def)

text \<open>The flags of a verdict can be joined and split again.\<close>

lemma classify_flags_ok: "flags_ok (flags (classify r))"
  by (simp add: flags_ok_def classify_def Let_def)

section \<open>Properties\<close>

text \<open>
  History keeps what happened. A run that was saved with the flags of its verdict is read back by
  its identity with the files, the input, the output, the exit code, the marks and the flags it was
  saved with, and creating it cost no other run: every other lookup answers as before.
\<close>

theorem save_get_roundtrip:
  assumes "db_ready h" and "save_run rec h = Inr h'" and "wf_dict (rec_files rec)"
    and "rec_flags rec = flags (classify (rec_result rec))"
  shows "\<exists>d. get_run (rec_identity rec) (rec_id rec) h' = Some d \<and>
           det_files d = rec_files rec \<and> det_stdin d = rec_stdin rec \<and> sum_flags d = rec_flags rec \<and>
           sum_suspicious d = rec_suspicious rec \<and> sum_language d = rec_language rec \<and>
           det_stdout d = stdout (rec_result rec) \<and> det_stderr d = stderr (rec_result rec) \<and>
           sum_exit_code d = exit_code (rec_result rec) \<and> sum_timed_out d = timed_out (rec_result rec) \<and>
           det_truncated_stdout d = truncated_stdout (rec_result rec) \<and>
           det_truncated_stderr d = truncated_stderr (rec_result rec) \<and>
           sum_stage d = stage (rec_result rec) \<and> det_error d = error (rec_result rec) \<and>
         (\<forall>i k. k = rec_id rec \<or> get_run i k h' = get_run i k h)"
proof -
  have new: "rec_id rec \<notin> set (map r_id (runs_table h))" and h': "h' = h\<lparr>runs_table := runs_table h @ [row_of rec]\<rparr>"
    using assms(1,2) by (auto simp: save_run_def save_sync_def split: if_splits)
  have r: "r_id (row_of rec) = rec_id rec" "r_identity (row_of rec) = rec_identity rec"
    by (simp_all add: row_of_def Let_def)
  have app: "find P (xs @ [x]) = (case find P xs of None \<Rightarrow> if P x then Some x else None | Some y \<Rightarrow> Some y)"
    for P :: "row \<Rightarrow> bool" and xs x by (induction xs) auto
  have none: "find (\<lambda>r. r_id r = rec_id rec \<and> r_identity r = rec_identity rec) (runs_table h) = None"
    using new by (auto simp: find_None_iff image_iff)
  have g: "get_run (rec_identity rec) (rec_id rec) h' = Some (detail_of (row_of rec))"
    using assms(1) r none by (simp add: h' get_run_def db_ready_def get_sync_def app)
  have o: "k = rec_id rec \<or> get_run i k h' = get_run i k h" for i k
    using r by (auto simp: h' get_run_def db_ready_def get_sync_def app split: option.splits)
  have f: "split_flags (py_join '','' (rec_flags rec)) = rec_flags rec"
    unfolding assms(4) by (rule split_join_flags [OF classify_flags_ok])
  have b: "(int_of_bool x \<noteq> 0) = x" for x by (simp add: int_of_bool_def)
  show ?thesis
    using g o loads_files [OF assms(3)] f
    by (intro exI [of _ "detail_of (row_of rec)"])
      (simp add: detail_of_def summary_of_def row_of_def Let_def RunSummary.extend_def b)
qed

definition example_record :: RunRecord where
  "example_record = \<lparr>rec_identity = ''a'', rec_language = ''python'', rec_files = [(''main.py'', ''print()'')],
     rec_stdin = [], rec_run_timeout_ms = None, rec_result = new_result\<lparr>timed_out := True\<rparr>,
     rec_suspicious = True, rec_flags = [''timeout''], rec_id = ''r1'', rec_created_at = ''2025''\<rparr>"

definition open_history :: history where
  "open_history = \<lparr>PERSIST_ENABLED = True, conn_open = True, runs_table = []\<rparr>"

theorem save_get_roundtrip_witness:
  "\<exists>d. get_run ''a'' ''r1'' (open_history\<lparr>runs_table := [row_of example_record]\<rparr>) = Some d \<and>
     det_files d = [(''main.py'', ''print()'')] \<and> sum_flags d = [''timeout'']"
proof -
  have c: "flags (classify (new_result\<lparr>timed_out := True\<rparr>)) = [''timeout'']"
    by (simp add: classify_def Let_def any_marker_def py_lower_def NETWORK_MARKERS_def MEMORY_MARKERS_def)
  have "db_ready open_history" by (simp add: db_ready_def open_history_def)
  moreover have "save_run example_record open_history = Inr (open_history\<lparr>runs_table := [row_of example_record]\<rparr>)"
    by (simp add: save_run_def db_ready_def save_sync_def open_history_def)
  ultimately show ?thesis
    using save_get_roundtrip [of open_history example_record] c
    by (auto simp: example_record_def wf_dict_def)
qed

text \<open>
  C26. History is private. Under any identity other than its owner's a stored run is neither found nor
  deleted, and what another identity saves or deletes leaves the owner's own runs, listed or looked
  up, as they were.
\<close>

theorem history_private:
  assumes "history_ok h" and "run_owner h k = Some i" and "j \<noteq> i"
  shows "get_run j k h = None \<and> delete_run j k h = (False, h) \<and>
         get_run i k' (snd (delete_run j k'' h)) = get_run i k' h"
proof (intro conjI)
  show "get_run j k h = None"
    using hs.other_sees_nothing [OF assms] by (simp add: seen_run_def)
  have "filter (\<lambda>r. \<not> (r_id r = k \<and> r_identity r = j)) (runs_table h) = runs_table h"
  proof (intro filter_True ballI)
    fix r
    assume r: "r \<in> set (runs_table h)"
    have "i = r_identity r" if "r_id r = k"
      using find_unique [of "runs_table h" r] r that assms(1,2) by (simp add: history_ok_def run_owner_def)
    with assms(3) show "\<not> (r_id r = k \<and> r_identity r = j)" by auto
  qed
  then show "delete_run j k h = (False, h)" by (simp add: delete_run_def delete_sync_def Let_def)
  have "find (\<lambda>r. r_id r = k' \<and> r_identity r = i) (filter (\<lambda>r. \<not> (r_id r = k'' \<and> r_identity r = j)) rs) =
      find (\<lambda>r. r_id r = k' \<and> r_identity r = i) rs" for rs :: "row list"
    using assms(3) by (induction rs) auto
  then show "get_run i k' (snd (delete_run j k'' h)) = get_run i k' h"
    by (simp add: get_run_def delete_run_def delete_sync_def get_sync_def db_ready_def Let_def)
qed

theorem history_private_witness:
  "get_run ''b'' ''r1'' (open_history\<lparr>runs_table := [row_of example_record]\<rparr>) = None \<and>
   fst (delete_run ''b'' ''r1'' (open_history\<lparr>runs_table := [row_of example_record]\<rparr>)) = False"
  using history_private [of "open_history\<lparr>runs_table := [row_of example_record]\<rparr>" "''r1''" "''a''" "''b''"]
  by (simp add: history_ok_def run_owner_def row_of_def example_record_def Let_def)

end
