(* ===== verification/Streaming.thy ===== *)
theory Streaming
  imports Exec Abuse
begin

text \<open>
  \<^verbatim>\<open>app/executor/runner.py\<close>, live output: two tasks pump the pipes of the process into a
  queue, and an asynchronous generator hands the queue's text to its consumer until both pipes end or
  the deadline passes. The consumer may go away at any event it has received.
\<close>

section \<open>The pumps\<close>

record pump_state =
  p_total :: int
  p_trunc :: bool
  p_eof :: bool

definition new_pump :: pump_state where
  "new_pump = \<lparr>p_total = 0, p_trunc = False, p_eof = False\<rparr>"

text \<open>One read of a pump, with what it puts into the queue; \<open>None\<close> is the end of the pipe.\<close>

definition pump_step :: "int \<Rightarrow> pump_state \<Rightarrow> byte list \<Rightarrow> byte list option list \<times> pump_state" where
  "pump_step cap p chunk =
     (if p_eof p then ([], p)
      else if chunk = [] then ([None], p\<lparr>p_eof := True\<rparr>)
      else (let send = take (nat (cap - p_total p)) chunk;
                total = (if p_total p < cap then p_total p + int (length send) else p_total p)
            in (if p_total p < cap then [Some send] else [],
                p\<lparr>p_total := total, p_trunc := p_trunc p \<or> cap \<le> total\<rparr>)))"

text \<open>The two pumps, over their reads in the order in which they happened; \<open>True\<close> is stdout.\<close>

fun pumps :: "int \<Rightarrow> (bool \<Rightarrow> pump_state) \<Rightarrow> (bool \<times> byte list) list \<Rightarrow>
    (bool \<times> byte list option) list \<times> (bool \<Rightarrow> pump_state)" where
  "pumps cap st [] = ([], st)"
| "pumps cap st ((b, chunk) # reads) =
     (let (is, p) = pump_step cap (st b) chunk; (js, st1) = pumps cap (st(b := p)) reads
      in (map (Pair b) is @ js, st1))"

section \<open>The consumer\<close>

datatype stream_event = S_stdout string | S_stderr string | S_done ExecutionResult

definition stream_text :: "bool \<Rightarrow> byte list \<Rightarrow> stream_event" where
  "stream_text b bs = (if b then S_stdout (utf8_decode bs) else S_stderr (utf8_decode bs))"

text \<open>
  What a process run under the pumps did, for as long as anyone looks: the loop of the consumer may
  be entered any number of times, and \<open>ps_reads n\<close> are the reads that the pumps end before the \<open>n\<close>-th
  \<open>get\<close> of the queue returns. Times are counted by the clock of the event loop, in nanoseconds:
  \<open>ps_busy n\<close> are those, beyond the first, between the previous \<open>get\<close> (or the start) and the reading of
  the clock at the top of the loop, so the clock never stands still; \<open>ps_wait n\<close> are those that \<open>get\<close>
  takes. The return code is \<open>None\<close> if the process had not ended two seconds after the loop.
\<close>

record process_stream =
  ps_reads :: "nat \<Rightarrow> (bool \<times> byte list) list"
  ps_start :: real
  ps_busy :: "nat \<Rightarrow> nat"
  ps_wait :: "nat \<Rightarrow> nat"
  ps_returncode :: "int option"
  ps_elapsed :: real
  ps_fs :: fs

definition nanos :: "nat \<Rightarrow> real" where
  "nanos k = real k / 1000000000"

text \<open>
  \<^verbatim>\<open>asyncio.wait_for(q.get(), timeout)\<close>, on what the queue holds when the wait is over: the
  head if there is one in time, \<open>None\<close> for \<^verbatim>\<open>TimeoutError\<close>.
\<close>

definition wait_for_get :: "real \<Rightarrow> nat \<Rightarrow> 'a list \<Rightarrow> ('a \<times> 'a list) option" where
  "wait_for_get timeout d q = (case q of [] \<Rightarrow> None | i # rest \<Rightarrow> if timeout < nanos d then None else Some (i, rest))"

text \<open>
  The loop from its \<open>n\<close>-th iteration, with the clock at \<open>t\<close> at the end of the previous one. Nothing
  bounds the supply of reads: a program may print for ever. That the loop ends is because of its
  deadline, and the proof of termination uses nothing else.
\<close>

function consume :: "int \<Rightarrow> process_stream \<Rightarrow> real \<Rightarrow> nat \<Rightarrow> real \<Rightarrow> (bool \<Rightarrow> pump_state) \<Rightarrow>
    (bool \<times> byte list option) list \<Rightarrow> nat \<Rightarrow> stream_event list \<times> bool \<times> (bool \<Rightarrow> pump_state)" where
  "consume cap ps deadline n t st q eofs =
     (if 2 \<le> eofs then ([], False, st)
      else (let now = t + nanos (Suc (ps_busy ps n)); remaining = deadline - now
            in if remaining \<le> 0 then ([], True, st)
               else (case pumps cap st (ps_reads ps n) of (new, st1) \<Rightarrow>
                 (case wait_for_get remaining (ps_wait ps n) (q @ new) of
                    None \<Rightarrow> ([], True, st1)
                  | Some ((b, payload), rest) \<Rightarrow>
                    (case payload of
                       None \<Rightarrow> consume cap ps deadline (Suc n) (now + nanos (ps_wait ps n)) st1 rest (Suc eofs)
                     | Some bs \<Rightarrow>
                        (case consume cap ps deadline (Suc n) (now + nanos (ps_wait ps n)) st1 rest eofs of
                           (evs, late, st2) \<Rightarrow> (stream_text b bs # evs, late, st2)))))))"
  by pat_completeness auto

text \<open>The nanoseconds that are left before the deadline: fewer after each iteration that goes on.\<close>

definition ns_left :: "real \<Rightarrow> real \<Rightarrow> nat" where
  "ns_left deadline t = nat \<lceil>(deadline - t) * 1000000000\<rceil>"

lemma ns_left_less:
  assumes "0 < deadline - (t + nanos (Suc k))"
  shows "ns_left deadline (t + nanos (Suc k) + nanos d) < ns_left deadline t"
proof -
  have "(deadline - (t + nanos (Suc k) + nanos d)) * 1000000000 \<le> (deadline - t) * 1000000000 - 1"
    by (simp add: nanos_def field_simps)
  then have "\<lceil>(deadline - (t + nanos (Suc k) + nanos d)) * 1000000000\<rceil> \<le> \<lceil>(deadline - t) * 1000000000\<rceil> - 1"
    by linarith
  moreover have "0 < (deadline - t) * 1000000000" using assms by (simp add: nanos_def field_simps)
  ultimately show ?thesis by (simp add: ns_left_def nat_less_iff)
qed

termination consume
  by (relation "measure (\<lambda>(cap, ps, deadline, n, t, st, q, eofs). ns_left deadline t)")
    (auto intro!: ns_left_less)

declare consume.simps [simp del]

text \<open>The loop of a process that is given \<open>timeout\<close> seconds, with both pumps new and the queue empty.\<close>

abbreviation output_loop :: "int \<Rightarrow> process_stream \<Rightarrow> real \<Rightarrow> stream_event list \<times> bool \<times> (bool \<Rightarrow> pump_state)" where
  "output_loop cap ps timeout \<equiv>
     consume cap ps (ps_start ps + timeout) 0 (ps_start ps) (\<lambda>_. new_pump) [] 0"

section \<open>The generators\<close>

record stream_host = host +
  h_stream :: "nat \<Rightarrow> launch_spec \<Rightarrow> fs \<Rightarrow> exn + process_stream"

definition launch_stream :: "stream_host \<Rightarrow> launch_spec \<Rightarrow> process_stream act" where
  "launch_stream H sp w = (case h_stream H (length (done_log w)) sp (files w) of
     Inl e \<Rightarrow> (Inl e, w)
   | Inr ps \<Rightarrow> (Inr ps, w\<lparr>files := ps_fs ps, done_log := done_log w @ [Launched sp]\<rparr>))"

text \<open>After the loop: kill on timeout, wait two seconds, delete, and build the final result.\<close>

definition SIGKILL_code :: int where
  "SIGKILL_code = - 9"

definition stream_result :: "process_stream \<Rightarrow> bool \<Rightarrow> (bool \<Rightarrow> pump_state) \<Rightarrow> ExecutionResult" where
  "stream_result ps late st = new_result\<lparr>timed_out := late, wall_time_ms := py_trunc (ps_elapsed ps * 1000),
     exit_code := (if late then None else Some (opt_default (ps_returncode ps) SIGKILL_code)),
     truncated_stdout := p_trunc (st True), truncated_stderr := p_trunc (st False)\<rparr>"

definition finish_stream ::
  "settings \<Rightarrow> stream_host \<Rightarrow> path \<Rightarrow> string \<Rightarrow> process_stream \<Rightarrow> bool \<Rightarrow> (bool \<Rightarrow> pump_state) \<Rightarrow> ExecutionResult act" where
  "finish_stream S H state cid ps late st =
     bind_act (if late then kill S (host.truncate H) state cid else ret ()) (\<lambda>_.
     bind_act (if ps_returncode ps = None then note_event (Proc_killed cid) else ret ()) (\<lambda>_.
     bind_act (delete_container S (host.truncate H) state cid) (\<lambda>_.
     ret (stream_result ps late st))))"

text \<open>
  A generator gives the events it yielded, how it ended and the world. \<open>stop = Some k\<close> is a consumer
  that goes away when it has received \<open>k\<close> events; the generator then runs no further than that.
\<close>

definition stream_container ::
  "settings \<Rightarrow> stream_host \<Rightarrow> string \<Rightarrow> path \<Rightarrow> oci_config \<Rightarrow> string \<Rightarrow> real \<Rightarrow> Limits \<Rightarrow> nat option \<Rightarrow>
   world \<Rightarrow> stream_event list \<times> (exn + unit) \<times> world" where
  "stream_container S H cid phase_dir cfg stdin timeout l stop w =
     (case bind_act (prepare_bundle phase_dir cfg)
             (\<lambda>_. launch_stream H (spec_of S cid phase_dir cfg stdin timeout l)) w of
        (Inl e, w1) \<Rightarrow> ([], Inl e, w1)
      | (Inr ps, w1) \<Rightarrow>
          (case output_loop (output_cap_bytes l) ps timeout of (evs, late, st) \<Rightarrow>
              if (case stop of None \<Rightarrow> False | Some k \<Rightarrow> k \<le> length evs)
              then (take (the stop) evs, Inr (), w1)
              else (case finish_stream S H (path_join phase_dir ''state'') cid ps late st w1 of
                  (Inl e, w2) \<Rightarrow> (evs, Inl e, w2)
                | (Inr res, w2) \<Rightarrow> (evs @ [S_done res], Inr (), w2))))"

definition stream_body ::
  "settings \<Rightarrow> stream_host \<Rightarrow> string \<Rightarrow> ExecutionRequest \<Rightarrow> nat option \<Rightarrow>
   world \<Rightarrow> stream_event list \<times> (exn + unit) \<times> world" where
  "stream_body S H run_id req stop w =
     (case bind_act (stage_run S run_id req) (\<lambda>_. compile_phase S (host.truncate H) run_id req) w of
        (Inl e, w1) \<Rightarrow> ([], Inl e, w1)
      | (Inr (Some cres), w1) \<Rightarrow>
          ((if stderr cres \<noteq> [] then [S_stderr (stderr cres)] else []) @ [S_done cres], Inr (), w1)
      | (Inr None, w1) \<Rightarrow>
          stream_container S H (run_id @ ''-r'') (path_join (run_dir S run_id) ''run'')
            (run_config S run_id req) (x_stdin req) (run_timeout req) (x_limits req) stop w1)"

definition execute_stream ::
  "settings \<Rightarrow> stream_host \<Rightarrow> string \<Rightarrow> ExecutionRequest \<Rightarrow> nat option \<Rightarrow> world \<Rightarrow> stream_event list \<times> world" where
  "execute_stream S H run_id req stop w =
     (case stream_body S H run_id req stop w of (evs, r, w1) \<Rightarrow>
        (let all_evs = evs @ (case r of Inl exc \<Rightarrow> [S_done (new_result\<lparr>error := Some (exn_text exc)\<rparr>)] | Inr _ \<Rightarrow> [])
         in (case stop of None \<Rightarrow> all_evs | Some k \<Rightarrow> take k all_evs,
             w1\<lparr>files := rmtree (run_dir S run_id) (files w1)\<rparr>)))"

section \<open>What the pumps put into the queue\<close>

definition reads_of :: "bool \<Rightarrow> (bool \<times> byte list) list \<Rightarrow> byte list list" where
  "reads_of b reads = takeWhile (\<lambda>c. c \<noteq> []) (map snd (filter (\<lambda>r. fst r = b) reads))"

definition payload_of :: "bool \<Rightarrow> (bool \<times> byte list option) list \<Rightarrow> byte list" where
  "payload_of b items = concat (map (\<lambda>i. case snd i of Some bs \<Rightarrow> bs | None \<Rightarrow> []) (filter (\<lambda>i. fst i = b) items))"

lemma payload_of_append [simp]: "payload_of b (xs @ ys) = payload_of b xs @ payload_of b ys"
  by (simp add: payload_of_def)

lemma payload_of_pairs:
  "payload_of b (map (Pair d) is) = (if d = b then concat (map (\<lambda>i. case i of Some bs \<Rightarrow> bs | None \<Rightarrow> []) is) else [])"
  by (auto simp: payload_of_def comp_def)

lemma reads_of_Cons: "reads_of b ((d, c) # rs) = (if d \<noteq> b then reads_of b rs else if c = [] then [] else c # reads_of b rs)"
  by (simp add: reads_of_def)

text \<open>A pump that has seen \<open>pre\<close>: how much of it was sent, and whether the cap was reached.\<close>

definition pump_at :: "int \<Rightarrow> byte list list \<Rightarrow> bool \<Rightarrow> pump_state \<Rightarrow> bool" where
  "pump_at cap pre eof p \<longleftrightarrow> p_eof p = eof \<and> p_total p = int (length (take (nat cap) (concat pre))) \<and>
     p_trunc p = (pre \<noteq> [] \<and> cap \<le> int (length (concat pre)))"

lemma pump_step_at:
  assumes "pump_at cap pre False p" "chunk \<noteq> []" "[] \<notin> set pre"
  shows "pump_at cap (pre @ [chunk]) False (snd (pump_step cap p chunk)) \<and>
    take (nat cap) (concat pre) @ concat (map (\<lambda>i. case i of Some bs \<Rightarrow> bs | None \<Rightarrow> []) (fst (pump_step cap p chunk))) =
      take (nat cap) (concat (pre @ [chunk]))"
proof -
  have t: "p_total p = int (min (length (concat pre)) (nat cap))" using assms(1) by (simp add: pump_at_def min.commute)
  have f: "\<not> p_eof p" "p_trunc p = (pre \<noteq> [] \<and> cap \<le> int (length (concat pre)))"
    using assms(1) by (simp_all add: pump_at_def)
  show ?thesis
  proof (cases "int (length (concat pre)) < cap")
    case True
    with t have tt: "p_total p = int (length (concat pre))" by simp
    with True have n: "nat (cap - p_total p) = nat cap - length (concat pre)" by simp
    with True tt f assms(2) show ?thesis
      by (auto simp: pump_step_def pump_at_def Let_def min_def)
  next
    case False
    with t have tt: "p_total p = int (nat cap)" by simp
    then have "\<not> p_total p < cap" by simp
    with False tt f assms(2) show ?thesis
      by (cases pre) (auto simp: pump_step_def pump_at_def Let_def)
  qed
qed

lemma pumps_spec:
  assumes "pump_at cap pre eof (st b)" "[] \<notin> set pre"
  shows "take (nat cap) (concat pre) @ payload_of b (fst (pumps cap st reads)) =
      take (nat cap) (concat (pre @ (if eof then [] else reads_of b reads))) \<and>
    p_trunc (snd (pumps cap st reads) b) =
      (let cs = pre @ (if eof then [] else reads_of b reads) in cs \<noteq> [] \<and> cap \<le> int (length (concat cs)))"
  using assms
proof (induction reads arbitrary: st pre eof)
  case Nil
  then show ?case by (auto simp: pump_at_def payload_of_def reads_of_def Let_def)
next
  case (Cons r reads)
  obtain d c where r: "r = (d, c)" by (cases r)
  obtain "is" p where ps: "pump_step cap (st d) c = (is, p)" by fastforce
  obtain js st1 where js: "pumps cap (st(d := p)) reads = (js, st1)" by fastforce
  have run: "pumps cap st (r # reads) = (map (Pair d) is @ js, st1)" by (simp add: r ps js)
  show ?case
  proof (cases "d = b \<and> \<not> eof \<and> c \<noteq> []")
    case True
    with Cons.prems have at: "pump_at cap pre False (st b)" by simp
    note s = pump_step_at [OF at conjunct2 [OF conjunct2 [OF True]] Cons.prems(2)]
    have nxt: "pump_at cap (pre @ [c]) False ((st(d := p)) b)" using s ps True by simp
    have ne: "[] \<notin> set (pre @ [c])" using Cons.prems(2) True by auto
    have ih: "take (nat cap) (concat (pre @ [c])) @ payload_of b js =
        take (nat cap) (concat ((pre @ [c]) @ reads_of b reads)) \<and>
      p_trunc (st1 b) = (let cs = (pre @ [c]) @ reads_of b reads in cs \<noteq> [] \<and> cap \<le> int (length (concat cs)))"
      using Cons.IH [of "pre @ [c]" False "st(d := p)", OF nxt ne] by (simp only: js fst_conv snd_conv if_False)
    have "take (nat cap) (concat pre) @ payload_of b (map (Pair d) is) = take (nat cap) (concat (pre @ [c]))"
      using s ps True by (simp add: payload_of_pairs)
    with ih show ?thesis
      unfolding run using True r by (simp add: reads_of_Cons Let_def)
  next
    case False
    have st: "\<exists>e. pump_at cap pre e ((st(d := p)) b) \<and> (if e then [] else reads_of b reads) =
        (if eof then [] else reads_of b (r # reads)) \<and> payload_of b (map (Pair d) is) = []"
    proof (cases "d = b")
      case True
      with False Cons.prems(1) ps r show ?thesis
        by (intro exI [of _ True]) (auto simp: pump_at_def pump_step_def reads_of_Cons payload_of_pairs split: if_splits)
    next
      case False
      with Cons.prems(1) r show ?thesis
        by (intro exI [of _ eof]) (simp add: reads_of_Cons payload_of_pairs)
    qed
    then obtain e where e: "pump_at cap pre e ((st(d := p)) b)"
      "(if e then [] else reads_of b reads) = (if eof then [] else reads_of b (r # reads))"
      "payload_of b (map (Pair d) is) = []" by blast
    from Cons.IH [of pre e "st(d := p)", OF e(1) Cons.prems(2)] show ?thesis
      by (simp only: run e(2,3) js fst_conv snd_conv payload_of_append append_Nil)
  qed
qed

section \<open>What the generators yield\<close>

definition is_done :: "stream_event \<Rightarrow> bool" where
  "is_done ev = (case ev of S_done _ \<Rightarrow> True | _ \<Rightarrow> False)"

lemma is_done_simps [simp]: "is_done (S_done r)" "\<not> is_done (S_stdout x)" "\<not> is_done (S_stderr x)"
  by (simp_all add: is_done_def)

lemma stream_text_not_done [simp]: "\<not> is_done (stream_text b bs)"
  by (simp add: stream_text_def)

text \<open>
  Induction over the loop: what holds of its three ways to stop, and is kept by an iteration that takes
  an end mark or a piece of output, holds of what it gives.
\<close>

lemma consume_loop [case_names Eofs Late Timeout Eof Data]:
  fixes cap ps dl
  defines "now t n \<equiv> t + nanos (Suc (ps_busy ps n))"
  assumes eofs: "\<And>n t st q eofs. 2 \<le> eofs \<Longrightarrow> P n t st q eofs ([], False, st)"
    and late: "\<And>n t st q eofs. eofs < 2 \<Longrightarrow> dl \<le> now t n \<Longrightarrow> P n t st q eofs ([], True, st)"
    and timeout: "\<And>n t st q eofs new st1. eofs < 2 \<Longrightarrow> now t n < dl \<Longrightarrow> pumps cap st (ps_reads ps n) = (new, st1) \<Longrightarrow>
      wait_for_get (dl - now t n) (ps_wait ps n) (q @ new) = None \<Longrightarrow> P n t st q eofs ([], True, st1)"
    and eof: "\<And>n t st q eofs new st1 b rest r. eofs < 2 \<Longrightarrow> now t n < dl \<Longrightarrow> pumps cap st (ps_reads ps n) = (new, st1) \<Longrightarrow>
      wait_for_get (dl - now t n) (ps_wait ps n) (q @ new) = Some ((b, None), rest) \<Longrightarrow>
      P (Suc n) (now t n + nanos (ps_wait ps n)) st1 rest (Suc eofs) r \<Longrightarrow> P n t st q eofs r"
    and data: "\<And>n t st q eofs new st1 b bs rest evs late st2. eofs < 2 \<Longrightarrow> now t n < dl \<Longrightarrow>
      pumps cap st (ps_reads ps n) = (new, st1) \<Longrightarrow>
      wait_for_get (dl - now t n) (ps_wait ps n) (q @ new) = Some ((b, Some bs), rest) \<Longrightarrow>
      P (Suc n) (now t n + nanos (ps_wait ps n)) st1 rest eofs (evs, late, st2) \<Longrightarrow>
      P n t st q eofs (stream_text b bs # evs, late, st2)"
  shows "P n t st q eofs (consume cap ps dl n t st q eofs)"
proof (induction "ns_left dl t" arbitrary: n t st q eofs rule: less_induct)
  case less
  obtain new st1 where p: "pumps cap st (ps_reads ps n) = (new, st1)" by fastforce
  have run: "eofs < 2 \<Longrightarrow> now t n < dl \<Longrightarrow> P (Suc n) (now t n + nanos (ps_wait ps n)) v u e
      (consume cap ps dl (Suc n) (now t n + nanos (ps_wait ps n)) v u e)" for v u e
    by (rule less) (simp add: now_def ns_left_less)
  consider "2 \<le> eofs" | "eofs < 2" "dl \<le> now t n"
    | "eofs < 2" "now t n < dl" "wait_for_get (dl - now t n) (ps_wait ps n) (q @ new) = None"
    | b rest where "eofs < 2" "now t n < dl" "wait_for_get (dl - now t n) (ps_wait ps n) (q @ new) = Some ((b, None), rest)"
    | b bs rest where "eofs < 2" "now t n < dl"
        "wait_for_get (dl - now t n) (ps_wait ps n) (q @ new) = Some ((b, Some bs), rest)"
    by (metis linorder_not_le option.exhaust prod.exhaust)
  then show ?case
  proof cases
    case 5
    obtain evs late st2 where c: "consume cap ps dl (Suc n) (now t n + nanos (ps_wait ps n)) st1 rest eofs = (evs, late, st2)"
      by (metis prod_cases3)
    with 5 p have "consume cap ps dl n t st q eofs = (stream_text b bs # evs, late, st2)"
      by (subst consume.simps) (simp add: Let_def now_def)
    with data [OF 5(1,2) p 5(3)] run [OF 5(1,2), of st1 rest eofs] c show ?thesis by simp
  qed (use p eofs late timeout eof run in \<open>subst consume.simps, simp add: Let_def now_def\<close>)+
qed

lemma consume_not_done: "list_all (\<lambda>ev. \<not> is_done ev) (fst (consume cap ps dl n t st q eofs))"
  by (induction rule: consume_loop) simp_all

text \<open>Each event takes time: there are no more of them than nanoseconds before the deadline.\<close>

lemma consume_count: "length (fst (consume cap ps dl n t st q eofs)) \<le> ns_left dl t"
proof (induction rule: consume_loop [where cap = cap and ps = ps and dl = dl and
      P = "\<lambda>n t st q eofs r. length (fst r) \<le> ns_left dl t"])
  case (Eof n t st q eofs new st1 b rest r)
  then show ?case using ns_left_less [of dl t "ps_busy ps n" "ps_wait ps n"] by simp
next
  case (Data n t st q eofs new st1 b bs rest evs late st2)
  then show ?case using ns_left_less [of dl t "ps_busy ps n" "ps_wait ps n"] by simp
qed simp_all

section \<open>What the loop takes\<close>

text \<open>The events of items, in order; an end mark is none.\<close>

definition texts :: "(bool \<times> byte list option) list \<Rightarrow> stream_event list" where
  "texts items = concat (map (\<lambda>(b, p). case p of None \<Rightarrow> [] | Some bs \<Rightarrow> [stream_text b bs]) items)"

definition end_marks :: "(bool \<times> byte list option) list \<Rightarrow> nat" where
  "end_marks items = length (filter (\<lambda>i. snd i = None) items)"

lemma texts_simps [simp]: "texts [] = []" "texts ((b, None) # is) = texts is"
  "texts ((b, Some bs) # is) = stream_text b bs # texts is"
  by (simp_all add: texts_def)

lemma end_marks_simps [simp]: "end_marks [] = 0" "end_marks ((b, None) # is) = Suc (end_marks is)"
  "end_marks ((b, Some bs) # is) = end_marks is" "end_marks (xs @ ys) = end_marks xs + end_marks ys"
  by (simp_all add: end_marks_def)

lemma pumps_append:
  "pumps cap st (xs @ ys) = (case pumps cap st xs of (is, st1) \<Rightarrow> case pumps cap st1 ys of (js, st2) \<Rightarrow> (is @ js, st2))"
proof (induction xs arbitrary: st)
  case (Cons r xs)
  obtain d c where r: "r = (d, c)" by (cases r)
  obtain "is" p where ps: "pump_step cap (st d) c = (is, p)" by fastforce
  obtain js st1 where js: "pumps cap (st(d := p)) xs = (js, st1)" by fastforce
  obtain ks st2 where ks: "pumps cap st1 ys = (ks, st2)" by fastforce
  from Cons.IH [of "st(d := p)"] have "pumps cap (st(d := p)) (xs @ ys) = (js @ ks, st2)" by (simp only: js ks prod.case)
  then show ?case by (simp add: r ps js ks)
qed simp

text \<open>The reads that the pumps made in the iterations from \<open>n\<close> on, \<open>k\<close> of them.\<close>

definition reads_in :: "process_stream \<Rightarrow> nat \<Rightarrow> nat \<Rightarrow> (bool \<times> byte list) list" where
  "reads_in ps n k = concat (map (ps_reads ps) [n..<n + k])"

lemma reads_in_Suc: "reads_in ps n (Suc k) = ps_reads ps n @ reads_in ps (Suc n) k"
  by (simp add: reads_in_def upt_conv_Cons del: upt_Suc)

text \<open>
  The loop takes items from the front of the queue and turns them into events; if it is not late, the
  second end mark is the last it took.
\<close>

definition took :: "int \<Rightarrow> process_stream \<Rightarrow> nat \<Rightarrow> (bool \<Rightarrow> pump_state) \<Rightarrow> (bool \<times> byte list option) list \<Rightarrow> nat \<Rightarrow>
    stream_event list \<times> bool \<times> (bool \<Rightarrow> pump_state) \<Rightarrow> bool" where
  "took cap ps n st q eofs r \<longleftrightarrow> (case r of (evs, late, st2) \<Rightarrow> \<exists>k taken rest.
     q @ fst (pumps cap st (reads_in ps n k)) = taken @ rest \<and> st2 = snd (pumps cap st (reads_in ps n k)) \<and>
     evs = texts taken \<and> (if late then True else 2 \<le> eofs + end_marks taken))"

lemma took_step:
  assumes "pumps cap st (ps_reads ps n) = (new, st1)" "q @ new = i # rest" "took cap ps (Suc n) st1 rest eofs' (evs, late, st2)"
    and "eofs' = eofs + end_marks [i]"
  shows "took cap ps n st q eofs (texts [i] @ evs, late, st2)"
proof -
  from assms(3) obtain k taken rest' where k: "rest @ fst (pumps cap st1 (reads_in ps (Suc n) k)) = taken @ rest'"
    "st2 = snd (pumps cap st1 (reads_in ps (Suc n) k))" "evs = texts taken" "late \<or> 2 \<le> eofs' + end_marks taken"
    by (auto simp: took_def split: if_splits)
  have f: "fst (pumps cap st (reads_in ps n (Suc k))) = new @ fst (pumps cap st1 (reads_in ps (Suc n) k))"
    "snd (pumps cap st (reads_in ps n (Suc k))) = snd (pumps cap st1 (reads_in ps (Suc n) k))"
    by (simp_all add: reads_in_Suc pumps_append assms(1) split: prod.splits)
  have "q @ fst (pumps cap st (reads_in ps n (Suc k))) = (q @ new) @ fst (pumps cap st1 (reads_in ps (Suc n) k))"
    by (simp add: f(1))
  then have "q @ fst (pumps cap st (reads_in ps n (Suc k))) = (i # taken) @ rest'"
    by (simp only: assms(2) append_Cons k(1))
  moreover have "texts [i] @ evs = texts (i # taken)" by (simp add: k(3) texts_def)
  moreover have "late \<or> 2 \<le> eofs + end_marks (i # taken)"
    using k(4) assms(4) end_marks_simps(4) [of "[i]" taken] by (simp add: add.assoc)
  ultimately show ?thesis
    unfolding took_def prod.case using f(2) k(2) by (intro exI [of _ "Suc k"] exI [of _ "i # taken"] exI [of _ rest']) auto
qed

lemma took_stop: "st2 = snd (pumps cap st (reads_in ps n k)) \<Longrightarrow> late \<or> 2 \<le> eofs \<Longrightarrow> took cap ps n st q eofs ([], late, st2)"
  unfolding took_def prod.case
  by (intro exI [of _ k] exI [of _ "[]"] exI [of _ "q @ fst (pumps cap st (reads_in ps n k))"]) auto

lemma wait_for_get_Some: "wait_for_get l d q = Some (i, rest) \<Longrightarrow> q = i # rest"
  by (auto simp: wait_for_get_def split: list.splits if_splits)

lemma consume_took: "took cap ps n st q eofs (consume cap ps dl n t st q eofs)"
proof (induction rule: consume_loop [where cap = cap and ps = ps and dl = dl and P = "\<lambda>n t. took cap ps n"])
  case (Eofs n t st q eofs)
  then show ?case by (intro took_stop [of _ _ _ _ _ 0]) (simp_all add: reads_in_def)
next
  case (Late n t st q eofs)
  then show ?case by (intro took_stop [of _ _ _ _ _ 0]) (simp_all add: reads_in_def)
next
  case (Timeout n t st q eofs new st1)
  then show ?case by (intro took_stop [of _ _ _ _ _ 1]) (simp_all add: reads_in_def)
next
  case (Eof n t st q eofs new st1 b rest r)
  then show ?case using took_step [OF Eof(3) wait_for_get_Some [OF Eof(4)], of "Suc eofs"] by (cases r) simp
next
  case (Data n t st q eofs new st1 b bs rest evs late st2)
  then show ?case using took_step [OF Data(3) wait_for_get_Some [OF Data(4)], of eofs] by simp
qed

text \<open>A pump puts pieces into the queue and, when its pipe has ended, one end mark behind them.\<close>

definition pipe_done :: "(bool \<times> byte list option) list \<Rightarrow> (bool \<Rightarrow> pump_state) \<Rightarrow> bool \<Rightarrow> bool" where
  "pipe_done items st b \<longleftrightarrow> (\<exists>ds. map snd (filter (\<lambda>i. fst i = b) items) = map Some ds @ (if p_eof (st b) then [None] else []))"

lemma pump_step_done:
  "pump_step cap p c = (is, p1) \<Longrightarrow>
     (p_eof p \<longrightarrow> is = [] \<and> p1 = p) \<and> (\<not> p_eof p \<longrightarrow> (\<exists>ds. is = map Some ds @ (if p_eof p1 then [None] else [])))"
  by (auto simp: pump_step_def Let_def split: if_splits intro: exI [of _ "[]"] exI [of _ "[x]" for x])

lemma pumps_done: "pipe_done pre st b \<Longrightarrow> pipe_done (pre @ fst (pumps cap st reads)) (snd (pumps cap st reads)) b"
proof (induction reads arbitrary: pre st)
  case (Cons r reads)
  obtain d c where r: "r = (d, c)" by (cases r)
  obtain "is" p where ps: "pump_step cap (st d) c = (is, p)" by fastforce
  have f: "map snd (filter (\<lambda>i. fst i = b) (map (Pair d) is)) = (if d = b then is else [])"
    by (simp add: comp_def filter_map)
  have "pipe_done (pre @ map (Pair d) is) (st(d := p)) b"
  proof (cases "d = b")
    case True
    from Cons.prems obtain ds where ds: "map snd (filter (\<lambda>i. fst i = b) pre) = map Some ds @ (if p_eof (st b) then [None] else [])"
      by (auto simp: pipe_done_def)
    show ?thesis
    proof (cases "p_eof (st b)")
      case True
      with pump_step_done [OF ps] ds f \<open>d = b\<close> show ?thesis by (auto simp: pipe_done_def)
    next
      case False
      with pump_step_done [OF ps] \<open>d = b\<close> obtain es where "is = map Some es @ (if p_eof p then [None] else [])" by blast
      with ds f False \<open>d = b\<close> show ?thesis
        by (auto simp: pipe_done_def intro!: exI [of _ "ds @ es"])
    qed
  next
    case False
    with Cons.prems f show ?thesis by (simp add: pipe_done_def)
  qed
  note ih = Cons.IH [OF this]
  obtain js st1 where js: "pumps cap (st(d := p)) reads = (js, st1)" by fastforce
  from ih show ?case by (simp only: js fst_conv snd_conv) (simp add: r ps js)
qed simp

lemma end_marks_split: "end_marks items = length (filter (\<lambda>i. i = (True, None)) items) + length (filter (\<lambda>i. i = (False, None)) items)"
  by (induction items) (auto simp: end_marks_def)

lemma mark_last:
  assumes "xs @ ys = map Some ds @ [None]" "None \<in> set xs"
  shows "ys = []"
proof (cases ys rule: rev_cases)
  case (snoc zs z)
  with assms(1) have "xs @ zs = map Some ds" by simp
  then have "set xs \<subseteq> set (map Some ds)" by (metis Un_upper1 set_append)
  with assms(2) show ?thesis by auto
qed

lemma pipe_done_marks:
  assumes "pipe_done (xs @ ys) st b" "(b, None) \<in> set xs"
  shows "p_eof (st b) \<and> filter (\<lambda>i. fst i = b) ys = []"
proof -
  from assms(1) obtain ds where ds: "map snd (filter (\<lambda>i. fst i = b) xs) @ map snd (filter (\<lambda>i. fst i = b) ys) =
      map Some ds @ (if p_eof (st b) then [None] else [])" by (auto simp: pipe_done_def)
  have n: "None \<in> set (map snd (filter (\<lambda>i. fst i = b) xs))" using assms(2) by force
  show ?thesis
  proof (cases "p_eof (st b)")
    case True
    with ds have "map snd (filter (\<lambda>i. fst i = b) xs) @ map snd (filter (\<lambda>i. fst i = b) ys) = map Some ds @ [None]" by simp
    from mark_last [OF this n] True show ?thesis by simp
  next
    case False
    with ds have "map snd (filter (\<lambda>i. fst i = b) xs) @ map snd (filter (\<lambda>i. fst i = b) ys) = map Some ds" by simp
    with n have "None \<in> set (map Some ds)" by (metis UnI1 set_append)
    then show ?thesis by auto
  qed
qed

text \<open>
  A stream that is not cut off is complete. When the loop ends before its deadline, the events are all
  that the pumps ever put into the queue, in order, and both pipes have ended.
\<close>

theorem stream_complete:
  assumes "output_loop cap ps timeout = (evs, False, st)"
  shows "\<exists>k. evs = texts (fst (pumps cap (\<lambda>_. new_pump) (reads_in ps 0 k))) \<and>
    st = snd (pumps cap (\<lambda>_. new_pump) (reads_in ps 0 k)) \<and> p_eof (st True) \<and> p_eof (st False)"
proof -
  from consume_took [of cap ps 0 "\<lambda>_. new_pump" "[]" 0 "ps_start ps + timeout" "ps_start ps"] assms
  obtain k taken rest where k: "fst (pumps cap (\<lambda>_. new_pump) (reads_in ps 0 k)) = taken @ rest"
    "st = snd (pumps cap (\<lambda>_. new_pump) (reads_in ps 0 k))" "evs = texts taken" "2 \<le> end_marks taken"
    by (auto simp: took_def)
  have d: "pipe_done (taken @ rest) st b" for b
    using pumps_done [of "[]" "\<lambda>_. new_pump" b cap "reads_in ps 0 k"] k(1,2) by (simp add: pipe_done_def new_pump_def)
  have one: "length (filter (\<lambda>i. i = (b, None)) taken) \<le> 1" for b
  proof (rule ccontr)
    assume "\<not> ?thesis"
    then have "2 \<le> length (filter (\<lambda>i. i = (b, None)) taken)" by simp
    moreover have "(b, None) \<in> set taken"
    proof (rule ccontr)
      assume "(b, None) \<notin> set taken"
      then have "filter (\<lambda>i. i = (b, None)) taken = []" by (auto simp: filter_empty_conv)
      with calculation show False by simp
    qed
    then obtain xs ys where t: "taken = xs @ (b, None) # ys" "(b, None) \<notin> set xs" by (metis split_list_first)
    moreover from t(2) have "filter (\<lambda>i. i = (b, None)) xs = []" by (auto simp: filter_empty_conv)
    ultimately have "filter (\<lambda>i. i = (b, None)) ys \<noteq> []" by auto
    then have "(b, None) \<in> set ys" by (auto simp: filter_empty_conv)
    with t(1) pipe_done_marks [of "xs @ [(b, None)]" "ys @ rest" st b] d [of b] show False
      by (auto simp: filter_empty_conv)
  qed
  have "(b, None) \<in> set taken" for b
  proof (rule ccontr)
    assume "(b, None) \<notin> set taken"
    then have "filter (\<lambda>i. i = (b, None)) taken = []" by (auto simp: filter_empty_conv)
    with k(4) one [of True] one [of False] show False by (cases b) (simp_all add: end_marks_split)
  qed
  note e = pipe_done_marks [OF d this]
  have "rest = []"
  proof (cases rest)
    case (Cons i us)
    then show ?thesis using e [of "fst i"] by simp
  qed
  with k e show ?thesis by (intro exI [of _ k]) simp
qed

section \<open>The events of a generator\<close>

lemma stream_container_events:
  "\<exists>evs. list_all (\<lambda>ev. \<not> is_done ev) evs \<and> length evs \<le> nat \<lceil>t * 1000000000\<rceil> \<and>
     (fst (stream_container S H cid d cfg stdin t l stop w) = evs \<and>
        (stop = None \<longrightarrow> isl (fst (snd (stream_container S H cid d cfg stdin t l stop w)))) \<or>
      (\<exists>ps late st. fst (stream_container S H cid d cfg stdin t l stop w) = evs @ [S_done (stream_result ps late st)] \<and>
        \<not> isl (fst (snd (stream_container S H cid d cfg stdin t l stop w)))))"
proof -
  obtain r w1 where r: "bind_act (prepare_bundle d cfg) (\<lambda>_. launch_stream H (spec_of S cid d cfg stdin t l)) w = (r, w1)"
    by fastforce
  show ?thesis
  proof (cases r)
    case (Inl e)
    with r show ?thesis by (intro exI [of _ "[]"]) (simp add: stream_container_def)
  next
    case (Inr ps)
    obtain evs late st where c: "output_loop (output_cap_bytes l) ps t = (evs, late, st)" by (metis prod_cases3)
    have nd: "list_all (\<lambda>ev. \<not> is_done ev) evs"
      using consume_not_done [of _ ps "ps_start ps + t" 0 "ps_start ps" "\<lambda>_. new_pump" "[]" 0] c by (metis fst_conv)
    have le: "length evs \<le> nat \<lceil>t * 1000000000\<rceil>"
      using consume_count [of _ ps "ps_start ps + t" 0 "ps_start ps" "\<lambda>_. new_pump" "[]" 0] c
      by (metis fst_conv ns_left_def add_diff_cancel_left')
    from nd have nk: "list_all (\<lambda>ev. \<not> is_done ev) (take k evs)" for k
      by (auto simp: list_all_iff dest: in_set_takeD)
    obtain r2 w2 where f: "finish_stream S H (path_join d ''state'') cid ps late st w1 = (r2, w2)" by fastforce
    have v: "r2 = Inr res \<Longrightarrow> res = stream_result ps late st" for res
      using f by (auto simp: finish_stream_def bind_act_def ret_def split: prod.splits sum.splits)
    show ?thesis
    proof (cases "case stop of None \<Rightarrow> False | Some k \<Rightarrow> k \<le> length evs")
      case True
      with r Inr c nk le show ?thesis
        by (intro exI [of _ "take (the stop) evs"]) (auto simp: stream_container_def split: option.splits)
    next
      case False
      with r Inr c f nd le v show ?thesis
        by (intro exI [of _ evs]) (cases r2; fastforce simp: stream_container_def)
    qed
  qed
qed

text \<open>What a complete stream yields: output, then one final result.\<close>

lemma stream_body_events:
  "\<exists>evs. list_all (\<lambda>ev. \<not> is_done ev) evs \<and> length evs \<le> max 1 (nat \<lceil>run_timeout req * 1000000000\<rceil>) \<and>
     (fst (stream_body S H i req None w) = evs \<and> isl (fst (snd (stream_body S H i req None w))) \<or>
      (\<exists>res. fst (stream_body S H i req None w) = evs @ [S_done res] \<and>
         \<not> isl (fst (snd (stream_body S H i req None w)))))"
proof -
  obtain r w1 where r: "bind_act (stage_run S i req) (\<lambda>_. compile_phase S (host.truncate H) i req) w = (r, w1)"
    by fastforce
  consider e where "r = Inl e" | res where "r = Inr (Some res)" | "r = Inr None"
    by (cases r) auto
  then show ?thesis
  proof cases
    case 1
    with r show ?thesis by (intro exI [of _ "[]"]) (simp add: stream_body_def)
  next
    case 2
    with r show ?thesis
      by (intro exI [of _ "if stderr res \<noteq> [] then [S_stderr (stderr res)] else []"]) (simp add: stream_body_def)
  next
    case 3
    with r stream_container_events [of "run_timeout req" S H "i @ ''-r''" "path_join (run_dir S i) ''run''" "run_config S i req"
        "x_stdin req" "x_limits req" None w1]
    show ?thesis by (auto simp: stream_body_def le_max_iff_disj)
  qed
qed

section \<open>A stream keeps the frames of a run\<close>

text \<open>Whatever the generators' parts keep, the generators keep, also when the consumer leaves.\<close>

context step_frame
begin

lemma keeps_stream_container:
  assumes "keeps (prepare_bundle d cfg)" "keeps (launch_stream H (spec_of S cid d cfg stdin t l))"
    and "\<And>ps late st. keeps (finish_stream S H (path_join d ''state'') cid ps late st)"
  shows "R w (snd (snd (stream_container S H cid d cfg stdin t l stop w)))"
proof -
  let ?m = "bind_act (prepare_bundle d cfg) (\<lambda>_. launch_stream H (spec_of S cid d cfg stdin t l))"
  obtain r w1 where m: "?m w = (r, w1)" by fastforce
  have w1: "R w w1" using keepsD [OF keeps_bind [OF assms(1,2)], of w] m by simp
  have "\<exists>x. R w1 x \<and> snd (snd (stream_container S H cid d cfg stdin t l stop w)) = x"
  proof (cases r)
    case (Inl e)
    with m frame_refl show ?thesis by (simp add: stream_container_def)
  next
    case (Inr ps)
    obtain evs late st where c: "output_loop (output_cap_bytes l) ps t = (evs, late, st)" by (metis prod_cases3)
    obtain r2 w2 where f: "finish_stream S H (path_join d ''state'') cid ps late st w1 = (r2, w2)" by fastforce
    have "R w1 w2" using keepsD [OF assms(3), of w1 ps late st] f by simp
    with m Inr c f frame_refl show ?thesis by (cases r2) (auto simp: stream_container_def)
  qed
  with w1 frame_trans show ?thesis by blast
qed

lemma keeps_stream_body:
  assumes "keeps (stage_run S i req)" "keeps (compile_phase S (host.truncate H) i req)"
    and "\<And>u. R u (snd (snd (stream_container S H (i @ ''-r'') (path_join (run_dir S i) ''run'')
            (run_config S i req) (x_stdin req) (run_timeout req) (x_limits req) stop u)))"
  shows "R w (snd (snd (stream_body S H i req stop w)))"
proof -
  obtain r w1 where m: "bind_act (stage_run S i req) (\<lambda>_. compile_phase S (host.truncate H) i req) w = (r, w1)"
    by fastforce
  have w1: "R w w1" using keepsD [OF keeps_bind [OF assms(1,2)], of w] m by simp
  consider e where "r = Inl e" | res where "r = Inr (Some res)" | "r = Inr None" by (cases r) auto
  then show ?thesis
  proof cases
    case 3
    with m w1 assms(3) frame_trans show ?thesis by (auto simp: stream_body_def)
  qed (use m w1 in \<open>simp_all add: stream_body_def\<close>)
qed

end

definition stream_confined :: "stream_host \<Rightarrow> bool" where
  "stream_confined H \<longleftrightarrow> confined (host.truncate H) \<and> (\<forall>n sp fs ps. h_stream H n sp fs = Inr ps \<longrightarrow>
     (\<forall>p. \<not> prefix (sp_state sp) p \<and> (\<forall>s \<in> set (writable_sources (sp_config sp)). \<not> prefix (path_segs s) p) \<longrightarrow>
        ps_fs ps p = fs p))"

lemma launch_stream_touches:
  assumes "stream_confined H" "below D (sp_state sp)" "\<forall>s \<in> set (writable_sources (sp_config sp)). below D (path_segs s)"
  shows "fp.keeps D (launch_stream H sp)"
proof (rule fp.keepsI)
  fix w :: world
  have "same_outside D (files w) (ps_fs ps)" if l: "h_stream H n sp (files w) = Inr ps" for n ps
    unfolding same_outside_def
  proof (intro allI impI)
    fix p
    assume p: "\<forall>d \<in> D. \<not> prefix d p \<and> \<not> prefix p d"
    then have "\<not> prefix (sp_state sp) p" "\<forall>s \<in> set (writable_sources (sp_config sp)). \<not> prefix (path_segs s) p"
      using assms(2,3) below_not_outside by blast+
    with assms(1) l show "ps_fs ps p = files w p" by (auto simp: stream_confined_def)
  qed
  then show "touches D w (snd (launch_stream H sp w))"
    by (auto simp: launch_stream_def touches_def split: sum.splits)
qed

lemma finish_stream_touches: "fp.keeps D (finish_stream S H st cid ps late p)"
  unfolding finish_stream_def kill_def delete_container_def
  by (intro fp.keeps_basic) (auto intro: fp.keeps_basic control_touches note_touches)

lemma finish_stream_launches: "lg.keeps (launches_ok Q) (finish_stream S H st cid ps late p)"
proof -
  have "lg.keeps (launches_ok Q) (control (host.truncate H) ev c)" if "launches_ok Q ev" for ev c
    using that by (intro lg.keepsI) (simp add: logs_def)
  moreover have "lg.keeps (launches_ok Q) (note_event ev)" if "launches_ok Q ev" for ev
    using that by (intro lg.keepsI) (simp add: logs_def note_event_def)
  ultimately show ?thesis
    unfolding finish_stream_def kill_def delete_container_def
    by (intro lg.keeps_basic) (auto intro: lg.keeps_basic)
qed

lemma snd_execute_stream:
  "snd (execute_stream S H i req stop w) = (snd (snd (stream_body S H i req stop w)))
     \<lparr>files := rmtree (run_dir S i) (files (snd (snd (stream_body S H i req stop w))))\<rparr>"
  by (simp add: execute_stream_def Let_def split: prod.splits)

lemma stream_body_touches:
  assumes "stream_confined H" "plain_setup S i req"
  shows "touches (run_areas S i req) w (snd (snd (stream_body S H i req stop w)))"
proof (rule fp.keeps_stream_body [OF stage_run_touches [OF below_run_dir]])
  show "fp.keeps (run_areas S i req) (compile_phase S (host.truncate H) i req)"
    using assms by (intro compile_phase_touches) (simp_all add: stream_confined_def)
  fix u
  have b: "below (run_areas S i req) (path_join (run_dir S i) ''run'')"
    using below_run_dir [of S i req] by (simp add: path_join_plain)
  show "touches (run_areas S i req) u (snd (snd (stream_container S H (i @ ''-r'') (path_join (run_dir S i) ''run'')
            (run_config S i req) (x_stdin req) (run_timeout req) (x_limits req) stop u)))"
    using run_config_writes [of "run_areas S i req" S i req] below_run_dir [of S i req]
    by (intro fp.keeps_stream_container prepare_touches b launch_stream_touches [OF assms(1)] finish_stream_touches)
      (auto simp: spec_of_def Let_def path_join_plain writes_below_def)
qed

lemma stream_body_launches:
  "logs (launches_ok (run_spec_ok S i req)) w (snd (snd (stream_body S H i req stop w)))"
proof (rule lg.keeps_stream_body [OF _ compile_phase_launches])
  show "lg.keeps (launches_ok (run_spec_ok S i req)) (stage_run S i req)" by (rule same_log_keeps) simp
  fix u
  let ?sp = "spec_of S (i @ ''-r'') (path_join (run_dir S i) ''run'') (run_config S i req) (x_stdin req)
    (run_timeout req) (x_limits req)"
  have ok: "run_spec_ok S i req ?sp"
    by (simp add: run_spec_ok_def hardened_build_config run_config_def build_config_hardening_fields
        writable_sources_build_config opt_list_simps)
  have "lg.keeps (launches_ok (run_spec_ok S i req)) (launch_stream H ?sp)"
    by (rule lg.keepsI) (auto simp: launch_stream_def logs_def ok split: sum.splits)
  then show "logs (launches_ok (run_spec_ok S i req)) u (snd (snd (stream_container S H (i @ ''-r'')
      (path_join (run_dir S i) ''run'') (run_config S i req) (x_stdin req) (run_timeout req) (x_limits req) stop u)))"
    by (intro lg.keeps_stream_container finish_stream_launches) (auto intro: same_log_keeps)
qed

section \<open>Properties\<close>

text \<open>
  C18. A streamed run is confined as any other. Whether the consumer stays or leaves, every container
  launched is one the plain run could launch, hardened alike; nothing is left below the run's
  directory, and no other file changes except below the build cache.
\<close>

theorem stream_contained:
  assumes "stream_confined H" and "plain_setup S i req"
  shows "logs (launches_ok (run_spec_ok S i req)) w (snd (execute_stream S H i req stop w)) \<and>
    same_outside (insert (run_dir S i) (set (cache_dirs S req))) (files w) (files (snd (execute_stream S H i req stop w))) \<and>
    (\<forall>p. files (snd (execute_stream S H i req stop w)) (run_dir S i @ p) = None)"
proof -
  let ?u = "snd (snd (stream_body S H i req stop w))"
  have "same_outside (run_areas S i req) (files w) (files ?u)"
    using stream_body_touches [OF assms, of w stop] by (simp add: touches_def)
  also have "same_outside (run_areas S i req) \<dots> (rmtree (run_dir S i) (files ?u))"
    by (rule rmtree_same [of "run_dir S i"]) (simp_all add: run_areas_def)
  finally have "same_outside (run_areas S i req) (files w) (rmtree (run_dir S i) (files ?u))" .
  with stream_body_launches [of S i req w H stop] show ?thesis
    by (simp add: snd_execute_stream logs_def run_areas_def rmtree_gone)
qed

text \<open>
  What a stream carries. However the reads of the two pipes interleave, the bytes queued for one
  pipe are, in order, exactly the first \<open>cap\<close> bytes that pipe delivered before its end, and its
  truncation mark is set exactly when at least \<open>cap\<close> bytes arrived.
\<close>

theorem pumps_carry_prefix:
  "payload_of b (fst (pumps cap (\<lambda>_. new_pump) reads)) = take (nat cap) (concat (reads_of b reads)) \<and>
   p_trunc (snd (pumps cap (\<lambda>_. new_pump) reads) b) =
     (reads_of b reads \<noteq> [] \<and> cap \<le> int (length (concat (reads_of b reads))))"
  using pumps_spec [of cap "[]" False "\<lambda>_. new_pump" b reads]
  by (simp add: pump_at_def new_pump_def Let_def)

text \<open>
  C17. A stream ends, by its deadline. Whatever the run does, and were it to print for ever, an
  undisturbed \<open>execute_stream\<close> yields no more output events than there are nanoseconds in the run's
  time limit (one, if the compile phase fails), then exactly one \<open>done\<close> event, and nothing of the
  run's directory is left.
\<close>

theorem stream_ends_with_done:
  "\<exists>evs res. fst (execute_stream S H i req None w) = evs @ [S_done res] \<and>
     list_all (\<lambda>ev. \<not> is_done ev) evs \<and> length evs \<le> max 1 (nat \<lceil>run_timeout req * 1000000000\<rceil>) \<and>
     (\<forall>p. files (snd (execute_stream S H i req None w)) (run_dir S i @ p) = None)"
proof -
  obtain evs r w1 where b: "stream_body S H i req None w = (evs, r, w1)" by (metis prod_cases3)
  with stream_body_events [of req S H i w] show ?thesis
    by (cases r) (auto simp: execute_stream_def rmtree_def)
qed

text \<open>
  C37. A client that leaves a stream leaves its container running. If the consumer goes away after
  receiving some of the output and before the final result, nothing more is done to the container:
  it is not killed, its process is not killed, it is not deleted, and no deadline is left to stop it.
\<close>

theorem abandoned_stream_leaks:
  assumes "ready (files w) d" and "\<forall>n sp f. h_stream H n sp f = Inr ps"
    and "k \<le> length (fst (output_loop (output_cap_bytes l) ps t))"
  shows "done_log (snd (snd (stream_container S H cid d cfg stdin t l (Some k) w))) =
           done_log w @ [Launched (spec_of S cid d cfg stdin t l)]"
proof -
  obtain g where g: "prepare_bundle d cfg w = (Inr (), w\<lparr>files := g\<rparr>)"
    using prepare_ready [OF assms(1)] by blast
  obtain evs late st where c: "output_loop (output_cap_bytes l) ps t = (evs, late, st)" by (metis prod_cases3)
  from assms(3) c have "k \<le> length evs" by simp
  with g assms(2) c show ?thesis
    by (simp add: stream_container_def bind_act_def launch_stream_def)
qed

definition example_reads :: "(bool \<times> byte list) list" where
  "example_reads = [(True, [104, 105]), (True, [195]), (True, [169]), (True, []), (False, [])]"

definition example_stream :: process_stream where
  "example_stream = \<lparr>ps_reads = (\<lambda>n. take 1 (drop n example_reads)),
     ps_start = 0, ps_busy = (\<lambda>n. 1000), ps_wait = (\<lambda>n. 1000), ps_returncode = Some 0, ps_elapsed = 5, ps_fs = (\<lambda>p. None)\<rparr>"

definition example_stream_host :: stream_host where
  "example_stream_host = host.extend (example_host (Some 0) []) \<lparr>h_stream = (\<lambda>n sp f. Inr example_stream)\<rparr>"

definition quiet_stream_host :: stream_host where
  "quiet_stream_host = host.extend (example_host (Some 0) [])
     \<lparr>h_stream = (\<lambda>n sp f. Inr (example_stream\<lparr>ps_fs := f\<rparr>))\<rparr>"

lemma quiet_confined: "stream_confined quiet_stream_host"
proof -
  have "host.truncate quiet_stream_host = example_host (Some 0) []"
    by (simp add: quiet_stream_host_def host.extend_def host.truncate_def)
  moreover have "h_stream quiet_stream_host = (\<lambda>n sp f. Inr (example_stream\<lparr>ps_fs := f\<rparr>))"
    by (simp add: quiet_stream_host_def host.extend_def)
  ultimately show ?thesis
    using example_confined by (auto simp: stream_confined_def)
qed

theorem stream_contained_witness:
  "files (snd (execute_stream example_settings quiet_stream_host ''run-1'' example_request (Some 1) empty_world)) [''etc''] = None \<and>
   files (snd (execute_stream example_settings quiet_stream_host ''run-1'' example_request (Some 1) empty_world))
     (run_dir example_settings ''run-1'' @ [''main.py'']) = None"
proof -
  note c = stream_contained [OF quiet_confined example_plain, of empty_world "Some 1"]
  then have "files empty_world [''etc''] =
      files (snd (execute_stream example_settings quiet_stream_host ''run-1'' example_request (Some 1) empty_world)) [''etc'']"
    by (auto simp: same_outside_def example_dirs)
  with c show ?thesis by (simp add: empty_world_def)
qed

lemma example_seen: "fst (output_loop 65536 example_stream 10) = [S_stdout ''hi'', S_stdout [SUB], S_stdout [SUB]]"
  by (simp add: consume.simps example_stream_def example_reads_def pump_step_def new_pump_def wait_for_get_def
      nanos_def stream_text_def utf8_step_def Let_def)
    (auto intro!: char_of_eq [symmetric])

theorem abandoned_stream_leaks_witness:
  "done_log (snd (snd (stream_container example_settings example_stream_host ''run-1-r'' [''sb'', ''run'']
     (run_config example_settings ''run-1'' example_request) [] 10 (DEFAULT_LIMITS\<lparr>output_cap_bytes := 65536\<rparr>) (Some 1)
     empty_world))) =
   [Launched (spec_of example_settings ''run-1-r'' [''sb'', ''run'']
      (run_config example_settings ''run-1'' example_request) [] 10 (DEFAULT_LIMITS\<lparr>output_cap_bytes := 65536\<rparr>))]"
proof -
  have "ready (files empty_world) [''sb'', ''run'']" by (simp add: ready_def empty_world_def)
  moreover have "\<forall>n sp f. h_stream example_stream_host n sp f = Inr example_stream"
    by (simp add: example_stream_host_def host.extend_def)
  moreover have "(1::nat) \<le> length (fst (output_loop (output_cap_bytes (DEFAULT_LIMITS\<lparr>output_cap_bytes := 65536\<rparr>))
      example_stream 10))"
    using example_seen by simp
  ultimately show ?thesis
    by (subst abandoned_stream_leaks) (simp_all add: empty_world_def)
qed

text \<open>
  A character can be torn apart. A program that writes the text \<open>h\<close>, \<open>i\<close>, \<open>e\<close> acute, whose two-byte
  character arrives in two reads, is shown two replacement characters by the stream, while
  \<open>/execute\<close> shows the text it wrote.
\<close>

theorem stream_tears_characters:
  "fst (output_loop 65536 example_stream 10) =
     [S_stdout ''hi'', S_stdout [SUB], S_stdout [SUB]] \<and>
   utf8_decode (fst (read_capped 65536 (reads_of True (concat (map (ps_reads example_stream) [0..<5]))))) = ''hi'' @ [char_of (233::nat)]"
proof -
  have r: "reads_of True (concat (map (ps_reads example_stream) [0..<5])) = [[104, 105], [195], [169]]"
    by (simp add: reads_of_def example_stream_def example_reads_def upt_rec)
  have "fst (read_capped 65536 [[104, 105], [195], [169]]) = [104, 105, 195, 169]"
    using read_loop_spec [of "[[104, 105], [195], [169]]" "[]" 65536 "[]" False] by (simp add: read_capped_def)
  moreover have "utf8_decode [104, 105, 195, 169] = [char_of (104::nat), char_of (105::nat), char_of (233::nat)]"
    by (simp add: utf8_step_def Let_def)
  moreover have "[char_of (104::nat), char_of (105::nat)] = ''hi''"
    by (auto intro!: char_of_eq [symmetric])
  ultimately show ?thesis
    by (simp add: example_seen r)
qed

lemma no_stderr_flags: "stderr res = [] \<Longrightarrow> set (flags (classify res)) \<subseteq> {''timeout'', ''orchestration''}"
  by (auto simp: classify_def Let_def any_marker_def py_lower_def NETWORK_MARKERS_def MEMORY_MARKERS_def)

lemma stream_done_stderr:
  assumes "\<not> truthy_opt (x_compile_args req)" "S_done res \<in> set (fst (execute_stream S H i req stop w))"
  shows "stderr res = []"
proof -
  obtain evs r w1 where b: "stream_body S H i req stop w = (evs, r, w1)" by (metis prod_cases3)
  have c: "compile_phase S H' i req v = (Inr None, v)" for H' v using assms(1) by (simp add: compile_phase_def ret_def)
  from assms(2) b have "S_done res \<in> set evs \<or> (\<exists>exc. res = new_result\<lparr>error := Some (exn_text exc)\<rparr>)"
    by (cases r) (auto simp: execute_stream_def Let_def split: option.splits dest: in_set_takeD)
  moreover have "stderr res = []" if d: "S_done res \<in> set evs"
  proof -
    obtain r0 w0 where st: "stage_run S i req w = (r0, w0)" by fastforce
    show ?thesis
    proof (cases r0)
      case (Inl e)
      with st b d show ?thesis by (simp add: stream_body_def bind_act_def)
    next
      case (Inr u)
      let ?sc = "stream_container S H (i @ ''-r'') (path_join (run_dir S i) ''run'') (run_config S i req)
        (x_stdin req) (run_timeout req) (x_limits req) stop w0"
      have e: "evs = fst ?sc" using st Inr b by (simp add: stream_body_def bind_act_def c)
      have nd: "list_all (\<lambda>ev. \<not> is_done ev) xs \<Longrightarrow> S_done res \<notin> set xs" for xs
        by (auto simp: list_all_iff)
      have r: "stderr (stream_result ps late st) = []" for ps late st by (simp add: stream_result_def)
      from stream_container_events [of "run_timeout req" S H "i @ ''-r''" "path_join (run_dir S i) ''run''" "run_config S i req"
        "x_stdin req" "x_limits req" stop w0] d
      show ?thesis unfolding e by (auto simp: r dest: nd)
    qed
  qed
  ultimately show ?thesis by auto
qed

text \<open>
  Streamed runs escape the abuse markers. The final result of a streamed run of an interpreted
  language carries no stderr, so whatever the program wrote, its verdict never has the network or the
  memory flag, which the same run through \<open>/execute\<close> would get.
\<close>

theorem stream_escapes_markers:
  assumes "\<not> truthy_opt (x_compile_args req)" and "S_done res \<in> set (fst (execute_stream S H i req stop w))"
  shows "set (flags (classify res)) \<subseteq> {''timeout'', ''orchestration''}"
  by (rule no_stderr_flags [OF stream_done_stderr [OF assms]])

theorem stream_escapes_markers_witness:
  "\<exists>res. S_done res \<in> set (fst (execute_stream example_settings example_stream_host ''run-1''
       (new_request [''p'']) None empty_world)) \<and>
     set (flags (classify res)) \<subseteq> {''timeout'', ''orchestration''}"
proof -
  obtain evs r w1 where b: "stream_body example_settings example_stream_host ''run-1'' (new_request [''p'']) None
      empty_world = (evs, r, w1)"
    by (metis prod_cases3)
  have "\<exists>res. S_done res \<in> set (fst (execute_stream example_settings example_stream_host ''run-1''
      (new_request [''p'']) None empty_world))"
    using stream_body_events [of "new_request [''p'']" example_settings example_stream_host "''run-1''" empty_world] b
    by (cases r) (auto simp: execute_stream_def)
  then show ?thesis
    using stream_escapes_markers [of "new_request [''p'']" _ example_settings example_stream_host "''run-1''" None
        empty_world]
    by (auto simp: new_request_def)
qed

end
