(* ===== verification/Routes.thy ===== *)
theory Routes
  imports Registry Auth Ratelimit Jobqueue Terminal History Streaming
begin

text \<open>
  \<^verbatim>\<open>app/api/routes.py\<close>: the request handlers. The application's state is the record of the
  components; a handler that awaits is split at the await into the part before and the part after,
  so that other requests can run in between. Clock readings and generated ids are arguments.
\<close>

section \<open>Application state\<close>

record ticket =
  tk_identity :: string
  tk_is_admin :: bool
  tk_files :: "(string, string) dict"
  tk_expiry :: real

record app_state =
  limiter :: RateLimiter
  abuse :: AbuseTracker
  queue :: JobQueue
  past_runs :: history
  stream_slots :: int
  terminals :: TerminalManager
  terminal_tickets :: "(string, ticket) dict"

section \<open>Preparing a request\<close>

definition unsupported_text :: "registry_error \<Rightarrow> string" where
  "unsupported_text e = (case e of UnsupportedLanguage n names \<Rightarrow>
     ''unsupported language: '' @ py_repr n @ '' (available: '' @ py_join '', '' names @ '')'')"

definition source_size :: "FileIn list \<Rightarrow> int" where
  "source_size fs = sum_list (map (\<lambda>f. int (length (fi_content f))) fs)"

definition quarantined :: "app_state \<Rightarrow> Identity \<Rightarrow> real \<Rightarrow> bool \<times> app_state" where
  "quarantined app i now =
     (if is_admin i then (False, app)
      else (let (q, t) = is_quarantined (abuse app) (id_name i) now in (q, app\<lparr>abuse := t\<rparr>)))"

text \<open>Which file is run, and the files with the lone file under the language's main name.\<close>

definition choose_entrypoint ::
  "ExecuteRequest \<Rightarrow> LanguageDef \<Rightarrow> (string, string) dict \<Rightarrow> HTTPException + (string \<times> (string, string) dict)" where
  "choose_entrypoint req lang fs =
     (if truthy_opt (q_entrypoint req) then
        (if the (q_entrypoint req) \<notin> dom (dget fs)
         then Inl (HTTPException 400 (''entrypoint '' @ [char_of (39::nat)] @ the (q_entrypoint req) @ [char_of (39::nat)] @
                '' is not one of the files'') [])
         else Inr (the (q_entrypoint req), fs))
      else if lang_main_file lang \<in> dom (dget fs) then Inr (lang_main_file lang, fs)
      else if length fs = 1 then Inr (lang_main_file lang, [(lang_main_file lang, snd (hd fs))])
      else Inl (HTTPException 400 (''missing entrypoint file '' @ [char_of (39::nat)] @ lang_main_file lang @
                [char_of (39::nat)]) []))"

definition build_request ::
  "ExecuteRequest \<Rightarrow> LanguageDef \<Rightarrow> string \<Rightarrow> (string, string) dict \<Rightarrow> string \<Rightarrow> ExecutionRequest" where
  "build_request req lang ep fs name =
     (let timeout = (if truthy_num (q_run_timeout_ms req) then Some (real_of_int (the (q_run_timeout_ms req)) / 1000) else None);
          base = (case timeout of None \<Rightarrow> DEFAULT_LIMITS | Some t \<Rightarrow> DEFAULT_LIMITS\<lparr>wall_timeout_s := t\<rparr>);
          p = resolve lang base (Some ep)
      in \<lparr>x_args = prep_run_args p, x_files = fs, x_stdin = q_stdin req, x_limits = prep_run_limits p,
          x_timeout_s = timeout, x_compile_args = prep_compile_args p, x_compile_limits = prep_compile_limits p,
          x_env = (if prep_run_env p = [] then None else Some (prep_run_env p)),
          x_compile_env = (if prep_compile_env p = [] then None else Some (prep_compile_env p)),
          x_compile_cache = prep_compile_cache p, x_identity = name\<rparr>)"

definition prepare ::
  "app_state \<Rightarrow> ExecuteRequest \<Rightarrow> Identity \<Rightarrow> real \<Rightarrow>
   (HTTPException + ExecutionRequest \<times> (string, string) dict) \<times> app_state" where
  "prepare app req i now =
     (case get_language (q_language req) of
        Inl e \<Rightarrow> (Inl (HTTPException 400 (py_repr (unsupported_text e)) []), app)
      | Inr lang \<Rightarrow>
          if source_cap_bytes DEFAULT_LIMITS < source_size (q_files req)
          then (Inl (HTTPException 413 ''source too large'' []), app)
          else (let (q, app1) = quarantined app i now in
            if q then (Inl (HTTPException 403 ''identity quarantined for abusive activity'' []), app1)
            else (case choose_entrypoint req lang (dict_of (map (\<lambda>f. (fi_name f, fi_content f)) (q_files req))) of
                Inl e \<Rightarrow> (Inl e, app1)
              | Inr (ep, fs) \<Rightarrow> (Inr (build_request req lang ep fs (id_name i), fs), app1))))"

section \<open>Slots\<close>

definition rl_acquire :: "app_state \<Rightarrow> Identity \<Rightarrow> real \<Rightarrow> (RateLimited + unit) \<times> app_state" where
  "rl_acquire app i now =
     (if is_admin i then (Inr (), app)
      else (let (r, l) = acquire (limiter app) (id_name i) now in (r, app\<lparr>limiter := l\<rparr>)))"

definition rl_release :: "app_state \<Rightarrow> Identity \<Rightarrow> app_state" where
  "rl_release app i = (if is_admin i then app else app\<lparr>limiter := release (limiter app) (id_name i)\<rparr>)"

definition rate_limited_response :: "RateLimited \<Rightarrow> HTTPException" where
  "rate_limited_response e = HTTPException 429 (reason e) [(''Retry-After'', show_int (retry_after e))]"

definition queue_full_response :: HTTPException where
  "queue_full_response = HTTPException 429 ''server busy, queue full'' [(''Retry-After'', ''2'')]"

section \<open>Bookkeeping after a run\<close>

definition record_of ::
  "string \<Rightarrow> ExecuteRequest \<Rightarrow> (string, string) dict \<Rightarrow> ExecutionResult \<Rightarrow> string \<Rightarrow> string \<Rightarrow> RunRecord" where
  "record_of name req fs res rid created =
     (let v = classify res in
      \<lparr>rec_identity = name, rec_language = q_language req, rec_files = fs, rec_stdin = q_stdin req,
       rec_run_timeout_ms = q_run_timeout_ms req, rec_result = res, rec_suspicious = suspicious v,
       rec_flags = flags v, rec_id = rid, rec_created_at = created\<rparr>)"

definition finalize ::
  "app_state \<Rightarrow> string \<Rightarrow> ExecuteRequest \<Rightarrow> (string, string) dict \<Rightarrow> ExecutionResult \<Rightarrow> string \<Rightarrow> string \<Rightarrow> real \<Rightarrow>
   (exn + string option \<times> Verdict) \<times> app_state" where
  "finalize app name req fs res rid created now =
     (let v = classify res;
          app1 = app\<lparr>abuse := snd (abuse_record (abuse app) name v now)\<rparr>
      in case save_run (record_of name req fs res rid created) (past_runs app1) of
           Inl e \<Rightarrow> (Inl e, app1)
         | Inr h \<Rightarrow> (Inr (if PERSIST_ENABLED h then Some rid else None, v), app1\<lparr>past_runs := h\<rparr>))"

section \<open>The handlers of a run\<close>

text \<open>
  The part of a handler before its await: prepare, take a slot, and hand the run on. \<open>enter\<close> is what
  the three handlers share, up to the slot.
\<close>

definition enter ::
  "app_state \<Rightarrow> ExecuteRequest \<Rightarrow> Identity \<Rightarrow> real \<Rightarrow>
   (HTTPException + ExecutionRequest \<times> (string, string) dict) \<times> app_state" where
  "enter app req i now =
     (case prepare app req i now of
        (Inl e, app1) \<Rightarrow> (Inl e, app1)
      | (Inr xf, app1) \<Rightarrow>
          (case rl_acquire app1 i now of
             (Inl e, app2) \<Rightarrow> (Inl (rate_limited_response e), app2)
           | (Inr u, app2) \<Rightarrow> (Inr xf, app2)))"

text \<open>\<open>POST /execute\<close> until the job is queued: the reference of the job whose future is awaited.\<close>

definition execute_code_enter ::
  "app_state \<Rightarrow> ExecuteRequest \<Rightarrow> Identity \<Rightarrow> real \<Rightarrow> string \<Rightarrow>
   (HTTPException + nat \<times> (string, string) dict) \<times> app_state" where
  "execute_code_enter app req i now jid =
     (case enter app req i now of
        (Inl e, app1) \<Rightarrow> (Inl e, app1)
      | (Inr (x, fs), app1) \<Rightarrow>
          (case submit (queue app1) x (id_name i) jid of
             None \<Rightarrow> (Inl queue_full_response, rl_release app1 i)
           | Some (r, q) \<Rightarrow> (Inr (r, fs), app1\<lparr>queue := q\<rparr>)))"

text \<open>And after it: the slot goes back whatever the future gave, then a result is booked.\<close>

definition execute_code_leave ::
  "app_state \<Rightarrow> ExecuteRequest \<Rightarrow> Identity \<Rightarrow> (string, string) dict \<Rightarrow> future \<Rightarrow> string \<Rightarrow> string \<Rightarrow> real \<Rightarrow>
   (exn + ExecuteResponse) \<times> app_state" where
  "execute_code_leave app req i fs fut rid created now =
     (let app1 = rl_release app i in
      case fut of
        Resolved res \<Rightarrow>
          (case finalize app1 (id_name i) req fs res rid created now of
             (Inl e, app2) \<Rightarrow> (Inl e, app2)
           | (Inr (hist, v), app2) \<Rightarrow> (Inr (make_response res hist), app2))
      | Failed e \<Rightarrow> (Inl e, app1)
      | _ \<Rightarrow> (Inl (Exn ''CancelledError'' []), app1))"

text \<open>\<open>POST /jobs\<close>, which does not wait, and its completion hook.\<close>

definition submit_job ::
  "app_state \<Rightarrow> ExecuteRequest \<Rightarrow> Identity \<Rightarrow> real \<Rightarrow> string \<Rightarrow>
   (HTTPException + JobSubmitResponse \<times> (string, string) dict) \<times> app_state" where
  "submit_job app req i now jid =
     (case enter app req i now of
        (Inl e, app1) \<Rightarrow> (Inl e, app1)
      | (Inr (x, fs), app1) \<Rightarrow>
          (case submit_async (queue app1) now x (id_name i) jid True of
             (None, q) \<Rightarrow> (Inl queue_full_response, rl_release (app1\<lparr>queue := q\<rparr>) i)
           | (Some k, q) \<Rightarrow> (Inr (\<lparr>js_id = k, js_status = ''queued''\<rparr>, fs), app1\<lparr>queue := q\<rparr>)))"

definition on_complete ::
  "app_state \<Rightarrow> ExecuteRequest \<Rightarrow> Identity \<Rightarrow> (string, string) dict \<Rightarrow> ExecutionResult \<Rightarrow> string \<Rightarrow> string \<Rightarrow> real \<Rightarrow>
   (exn + string option) \<times> app_state" where
  "on_complete app req i fs res rid created now =
     (case finalize app (id_name i) req fs res rid created now of
        (Inl e, app1) \<Rightarrow> (Inl e, rl_release app1 i)
      | (Inr (hist, v), app1) \<Rightarrow> (Inr hist, rl_release app1 i))"

definition get_job_response ::
  "app_state \<Rightarrow> string \<Rightarrow> Identity \<Rightarrow> real \<Rightarrow> (HTTPException + JobStatusResponse) \<times> app_state" where
  "get_job_response app jid i now =
     (case get_job (queue app) now jid (id_name i) of
        (None, q) \<Rightarrow> (Inl (HTTPException 404 ''job not found'' []), app\<lparr>queue := q\<rparr>)
      | (Some j, q) \<Rightarrow>
          (Inr \<lparr>jr_id = job_id j, jr_status = status j,
                jr_result = (if (status j = ''done'' \<or> status j = ''error'')
                   then map_option (\<lambda>r. make_response r (opt_default (dget (job_meta j) ''history_id'') None)) (job_result j)
                   else None)\<rparr>, app\<lparr>queue := q\<rparr>))"

text \<open>
  \<open>POST /execute/stream\<close>: the generator first takes a streaming slot, or tells the client that the
  server is busy; its \<open>finally\<close> gives back what it took.
\<close>

datatype sse = Sse_event stream_event | Sse_busy | Sse_done ExecutionResult "string option"

definition stream_begin :: "app_state \<Rightarrow> Identity \<Rightarrow> (sse list + unit) \<times> app_state" where
  "stream_begin app i =
     (if 0 < stream_slots app then (Inr (), app\<lparr>stream_slots := stream_slots app - 1\<rparr>)
      else (Inl [Sse_busy], rl_release app i))"

definition stream_end :: "app_state \<Rightarrow> Identity \<Rightarrow> app_state" where
  "stream_end app i = rl_release (app\<lparr>stream_slots := stream_slots app + 1\<rparr>) i"

definition stream_record ::
  "app_state \<Rightarrow> ExecuteRequest \<Rightarrow> Identity \<Rightarrow> (string, string) dict \<Rightarrow> stream_event \<Rightarrow> string \<Rightarrow> string \<Rightarrow> real \<Rightarrow>
   (exn + sse) \<times> app_state" where
  "stream_record app req i fs ev rid created now =
     (case ev of
        S_done res \<Rightarrow>
          (case finalize app (id_name i) req fs res rid created now of
             (Inl e, app1) \<Rightarrow> (Inl e, app1)
           | (Inr (hist, v), app1) \<Rightarrow> (Inr (Sse_done res hist), app1))
      | _ \<Rightarrow> (Inr (Sse_event ev), app))"

section \<open>Other handlers\<close>

record stats_response =
  sr_queue :: queue_stats
  sr_rate_limit :: limiter_stats
  sr_terminals :: terminal_stats

definition stats :: "app_state \<Rightarrow> stats_response" where
  "stats app = \<lparr>sr_queue = queue_stats (queue app), sr_rate_limit = limiter_stats (limiter app),
     sr_terminals = terminal_stats (terminals app)\<rparr>"

definition languages :: "(string \<Rightarrow> string) \<Rightarrow> keys_file \<Rightarrow> string \<Rightarrow> LanguagesResponse" where
  "languages sha f env =
     \<lparr>lr_languages = map (\<lambda>n. \<lparr>li_name = n,
          li_main_file = (case get_language n of Inr l \<Rightarrow> lang_main_file l | Inl _ \<Rightarrow> [])\<rparr>) list_languages,
      lr_defaults = default_limits_dict, lr_auth_required = auth_enabled sha f env\<rparr>"

definition abuse_report_route ::
  "app_state \<Rightarrow> Identity \<Rightarrow> real \<Rightarrow> (string \<Rightarrow> real) \<Rightarrow> (HTTPException + abuse_report) \<times> app_state" where
  "abuse_report_route app i now later =
     (case require_admin i of Inl e \<Rightarrow> (Inl e, app)
      | Inr _ \<Rightarrow> (let (r, t) = report (abuse app) now later in (Inr r, app\<lparr>abuse := t\<rparr>)))"

text \<open>The bounds that the query parameters declare; \<open>None\<close> is the framework's refusal.\<close>

definition list_runs_route ::
  "(row list \<Rightarrow> row list) \<Rightarrow> app_state \<Rightarrow> Identity \<Rightarrow> int \<Rightarrow> int \<Rightarrow> RunListResponse option" where
  "list_runs_route order app i limit offset =
     (if 1 \<le> limit \<and> limit \<le> 200 \<and> 0 \<le> offset
      then Some \<lparr>rl_runs = list_runs order (id_name i) (nat limit) (nat offset) (past_runs app),
                 rl_limit = limit, rl_offset = offset\<rparr>
      else None)"

definition get_run_route :: "app_state \<Rightarrow> string \<Rightarrow> Identity \<Rightarrow> HTTPException + RunDetail" where
  "get_run_route app rid i = (case get_run (id_name i) rid (past_runs app) of
     None \<Rightarrow> Inl (HTTPException 404 ''run not found'' []) | Some d \<Rightarrow> Inr d)"

definition delete_run_route :: "app_state \<Rightarrow> string \<Rightarrow> Identity \<Rightarrow> (HTTPException + unit) \<times> app_state" where
  "delete_run_route app rid i =
     (let (found, h) = delete_run (id_name i) rid (past_runs app)
      in (if found then Inr () else Inl (HTTPException 404 ''run not found'' []), app\<lparr>past_runs := h\<rparr>))"

section \<open>Terminal tickets\<close>

definition TERMINAL_TICKET_TTL_S :: real where
  "TERMINAL_TICKET_TTL_S = 30"

text \<open>\<open>token\<close> is the random ticket; the clock is read for the quarantine and for the expiry.\<close>

definition terminal_ticket ::
  "app_state \<Rightarrow> ExecuteRequest \<Rightarrow> Identity \<Rightarrow> real \<Rightarrow> real \<Rightarrow> string \<Rightarrow> (HTTPException + string) \<times> app_state" where
  "terminal_ticket app req i mnow now token =
     (if source_cap_bytes DEFAULT_LIMITS < source_size (q_files req)
      then (Inl (HTTPException 413 ''source too large'' []), app)
      else (let (q, app1) = quarantined app i mnow in
        if q then (Inl (HTTPException 403 ''identity quarantined for abusive activity'' []), app1)
        else (case rejection (terminals app1) (id_name i) (is_admin i) of
            Some why \<Rightarrow> (Inl (HTTPException 429 why []), app1)
          | None \<Rightarrow> (Inr token, app1\<lparr>terminal_tickets := dset token
              \<lparr>tk_identity = id_name i, tk_is_admin = is_admin i,
               tk_files = dict_of (map (\<lambda>f. (fi_name f, fi_content f)) (q_files req)),
               tk_expiry = now + TERMINAL_TICKET_TTL_S\<rparr> (terminal_tickets app1)\<rparr>))))"

definition consume_ticket :: "app_state \<Rightarrow> string \<Rightarrow> real \<Rightarrow> ticket option \<times> app_state" where
  "consume_ticket app token now =
     (let live = filter (\<lambda>(k, v). \<not> tk_expiry v < now) (terminal_tickets app);
          data = dget live token
      in (case data of None \<Rightarrow> None | Some d \<Rightarrow> if tk_expiry d < now then None else Some d,
          app\<lparr>terminal_tickets := dpop token live\<rparr>))"

text \<open>
  The \<open>/terminal\<close> WebSocket until the shell is ready, taken as one step: the ticket is used up, the
  manager asked, the session registered and started. A session that \<open>start\<close> closed has
  unregistered itself already when the handler does it. \<open>sid\<close> is the random session id, \<open>net\<close>
  tells which operations on the socket succeed. One that raises ends the handler there, save that
  the report of a failed start may fail; \<open>Ws_gone\<close> is a client that was lost before it was told how
  its connection went. A client lost at the last of them, the word that the shell is ready, leaves
  its session registered and running, since the handler has not reached its \<^verbatim>\<open>try\<close>.
\<close>

datatype ws_op = Op_accept | Op_error | Op_ready | Op_close

datatype ws_reply = Ws_closed nat | Ws_error string | Ws_ready | Ws_gone

definition terminal_ws ::
  "settings \<Rightarrow> host \<Rightarrow> (ws_op \<Rightarrow> bool) \<Rightarrow> console \<Rightarrow> string \<Rightarrow> string \<Rightarrow> real \<Rightarrow> app_state \<Rightarrow> world \<Rightarrow>
   ws_reply \<times> TerminalSession option \<times> app_state \<times> world" where
  "terminal_ws S H net con sid token now app w =
     (let (data, app1) = consume_ticket app token now in
      case data of None \<Rightarrow> (if net Op_close then Ws_closed 4401 else Ws_gone, None, app1, w)
      | Some d \<Rightarrow>
          (case rejection (terminals app1) (tk_identity d) (tk_is_admin d) of
             Some why \<Rightarrow> (if net Op_accept \<and> net Op_error \<and> net Op_close then Ws_error why else Ws_gone, None, app1, w)
           | None \<Rightarrow>
               if \<not> net Op_accept then (Ws_gone, None, app1, w)
               else
               (let m = register (terminals app1) sid (tk_identity d);
                    (r, s, w1) = start_terminal S H con (new_session sid (tk_identity d) (tk_files d), w);
                    m1 = (if 0 < t_close_calls s then unregister m sid (tk_identity d) else m)
                in case r of
                     Inl e \<Rightarrow> (if net Op_error \<and> net Op_close then Ws_error (exn_msg e) else Ws_gone,
                        Some s, app1\<lparr>terminals := unregister m1 sid (tk_identity d)\<rparr>, w1)
                   | Inr u \<Rightarrow> (if net Op_ready then Ws_ready else Ws_gone, Some s, app1\<lparr>terminals := m1\<rparr>, w1))))"

text \<open>
  A frame of the client once its JSON is read: input, a new size, raw bytes, something ignored, or
  something that raises (JSON that is no object, a size that is no number), which like a
  disconnection ends the session. \<open>ns\<close> are the counts \<open>os.write\<close> returns.
\<close>

datatype client_frame = F_input string | F_resize int int | F_bytes "byte list" | F_ignored | F_raises | F_disconnect

definition pump_client ::
  "settings \<Rightarrow> host \<Rightarrow> real \<Rightarrow> nat list \<Rightarrow> bool \<Rightarrow> client_frame \<Rightarrow> TerminalSession \<times> world \<Rightarrow>
   byte list \<times> (16 word \<times> 16 word) option \<times> TerminalSession \<times> world" where
  "pump_client S H now ns broken fr sw =
     (let feed = (\<lambda>bs. let (out, stop, s) = write_session now ns broken bs (fst sw)
                        in (out, None, if stop then close S H None (s, snd sw) else (s, snd sw)))
      in case fr of
           F_input str \<Rightarrow> feed (utf8_encode str)
         | F_bytes bs \<Rightarrow> feed bs
         | F_resize rows cols \<Rightarrow> ([], resize rows cols (fst sw), sw)
         | F_ignored \<Rightarrow> ([], None, sw)
         | _ \<Rightarrow> ([], None, close S H None sw))"

section \<open>What an accepted request is turned into\<close>

lemma prepare_Inr:
  assumes "fst (prepare app req i now) = Inr (x, fs)"
  obtains lang ep where "get_language (q_language req) = Inr lang"
    "source_size (q_files req) \<le> source_cap_bytes DEFAULT_LIMITS"
    "choose_entrypoint req lang (dict_of (map (\<lambda>f. (fi_name f, fi_content f)) (q_files req))) = Inr (ep, fs)"
    "x = build_request req lang ep fs (id_name i)"
    "\<not> fst (quarantined app i now)"
  using assms by (auto simp: prepare_def not_less split: sum.splits prod.splits if_splits)

lemma build_request_fields [simp]:
  "x_files (build_request req lang ep fs n) = fs" "x_identity (build_request req lang ep fs n) = n"
  "x_stdin (build_request req lang ep fs n) = q_stdin req"
  by (simp_all add: build_request_def Let_def)

lemma build_request_cache:
  assumes "get_language (q_language req) = Inr lang"
  shows "truthy_opt (x_compile_cache (build_request req lang ep fs n)) = (q_language req = ''go'')"
    and "q_language req = ''go'' \<Longrightarrow> x_compile_cache (build_request req lang ep fs n) = Some ''go''"
    and "truthy_opt (x_compile_args (build_request req lang ep fs n)) =
      (q_language req \<in> {''cpp'', ''rust'', ''go''})"
  using assms unfolding get_language_Inr
  by (auto simp: language_table build_request_def Let_def resolve_fields)

lemma build_request_timeout:
  assumes "case q_run_timeout_ms req of None \<Rightarrow> True | Some t \<Rightarrow> 100 \<le> t \<and> t \<le> 30000"
  shows "1 / 10 \<le> run_timeout (build_request req lang ep fs n) \<and>
    run_timeout (build_request req lang ep fs n) \<le> 30"
proof (cases "q_run_timeout_ms req")
  case None
  then show ?thesis
    by (simp add: run_timeout_def build_request_def resolve_def Let_def DEFAULT_LIMITS_def)
next
  case (Some t)
  with assms show ?thesis
    by (simp add: run_timeout_def build_request_def resolve_def Let_def)
qed

lemma dict_of_files:
  "ExecuteRequest_ok req \<Longrightarrow> dict_of (map (\<lambda>f. (fi_name f, fi_content f)) (q_files req)) =
     map (\<lambda>f. (fi_name f, fi_content f)) (q_files req)"
  using ExecuteRequest_ok_files(2) [of req] by (intro dict_of_distinct) (simp add: comp_def)

lemma main_file_plain:
  assumes "get_language n = Inr lang"
  shows "plain_segment (lang_main_file lang)" "\<not> prefix ''.'' (lang_main_file lang)" "lang_main_file lang \<noteq> []"
  using assms unfolding get_language_Inr by (auto simp: language_table plain_segment_def)

text \<open>The files staged are the ones sent, or the lone file under the language's main name.\<close>

lemma choose_entrypoint_Inr:
  assumes "choose_entrypoint req lang fs = Inr (ep, gs)"
  shows "ep \<in> dom (dget gs) \<and> (gs = fs \<or> length fs = 1 \<and> gs = [(lang_main_file lang, snd (hd fs))])"
  using assms by (auto simp: choose_entrypoint_def split: if_splits)

lemma accepted_plain_setup:
  assumes "list_all plain_segment (RUNTIME_ROOT S)" "plain_segment rid"
    and "fst (prepare app req i now) = Inr (x, fs)"
  shows "plain_setup S rid x"
    and "set (cache_dirs S x) \<subseteq> (if q_language req = ''go'' then {cache_path S (id_name i) ''go''} else {})"
proof -
  obtain lang ep where l: "get_language (q_language req) = Inr lang"
    and x: "x = build_request req lang ep fs (id_name i)"
    by (rule prepare_Inr [OF assms(3)])
  note c = build_request_cache [OF l, of ep fs "id_name i", folded x]
  show "plain_setup S rid x"
    using assms(1,2) c(1,2) by (auto simp: plain_setup_def plain_segment_def)
  show "set (cache_dirs S x) \<subseteq> (if q_language req = ''go'' then {cache_path S (id_name i) ''go''} else {})"
    using c by (auto simp: cache_dirs_def x)
qed

text \<open>A name that the sanitizer rejects stops the staging, and with it the run.\<close>

lemma stage_files_illegal:
  "n \<in> fst ` set fs \<Longrightarrow> isl (sanitize_filename n) \<Longrightarrow> isl (fst (stage_files src staged fs w))"
proof (induction fs arbitrary: staged w)
  case (Cons f fs)
  obtain m c where f: "f = (m, c)" by (cases f)
  show ?case
  proof (cases "m = n")
    case True
    with Cons.prems show ?thesis by (cases "sanitize_filename n") (simp_all add: f raise_def)
  next
    case False
    with Cons.prems f have "n \<in> fst ` set fs" by auto
    from Cons.IH [OF this Cons.prems(2)] show ?thesis
      by (auto simp: f bind_act_def raise_def split: sum.splits prod.splits)
  qed
qed simp

lemma bind_isl: "isl (fst (m w)) \<Longrightarrow> bind_act m f w = (Inl (projl (fst (m w))), snd (m w))"
  by (cases "m w") (auto simp: bind_act_def isl_def)

lemma bind_isl_right: "(\<And>x w. isl (fst (f x w))) \<Longrightarrow> isl (fst (bind_act m f w))"
  by (cases "m w") (auto simp: bind_act_def split: sum.splits)

lemma execute_not_staged:
  assumes "n \<in> fst ` set (x_files req)" "isl (sanitize_filename n)"
  shows "\<exists>exc. fst (execute S H i req w) = new_result\<lparr>error := Some (exn_text exc)\<rparr>"
    and "done_log (snd (execute S H i req w)) = done_log w"
proof -
  have "isl (fst (stage_run S i req w))"
    unfolding stage_run_def Let_def
    by (rule bind_isl_right, rule bind_isl_right, rule stage_files_illegal [OF assms])
  from bind_isl [of "stage_run S i req" w, OF this] have b: "execute_body S H i req w =
      (Inl (projl (fst (stage_run S i req w))), snd (stage_run S i req w))"
    by (simp add: execute_body_def)
  show "\<exists>exc. fst (execute S H i req w) = new_result\<lparr>error := Some (exn_text exc)\<rparr>"
    "done_log (snd (execute S H i req w)) = done_log w"
    by (auto simp: execute_def b)
qed

section \<open>Examples\<close>

definition example_app :: app_state where
  "example_app = \<lparr>limiter = new_limiter 0 0, abuse = new_tracker 0 600, queue = new_queue 4 64 600,
     past_runs = \<lparr>PERSIST_ENABLED = False, conn_open = False, runs_table = []\<rparr>, stream_slots = 4,
     terminals = new_manager 8 1, terminal_tickets = []\<rparr>"

definition example_identity :: Identity where
  "example_identity = \<lparr>id_name = ''ann'', authenticated = True, role = ''admin''\<rparr>"

definition example_body :: "string \<Rightarrow> string list \<Rightarrow> ExecuteRequest" where
  "example_body language names = \<lparr>q_language = language, q_files = map (\<lambda>n. \<lparr>fi_name = n, fi_content = ''x''\<rparr>) names,
     q_stdin = [], q_run_timeout_ms = Some 2000, q_entrypoint = None\<rparr>"

lemmas example_defs = example_app_def example_identity_def example_body_def

lemma example_prepared:
  "fst (prepare example_app (example_body ''python'' [''main.py'', ''.env'']) example_identity 0) =
     Inr (build_request (example_body ''python'' [''main.py'', ''.env'']) (the (dget LANGUAGES ''python'')) ''main.py''
       [(''main.py'', ''x''), (''.env'', ''x'')] ''ann'', [(''main.py'', ''x''), (''.env'', ''x'')])"
  "fst (prepare example_app (example_body ''go'' [''a.go'']) example_identity 0) =
     Inr (build_request (example_body ''go'' [''a.go'']) (the (dget LANGUAGES ''go'')) ''main.go''
       [(''main.go'', ''x'')] ''ann'', [(''main.go'', ''x'')])"
  by (simp_all add: prepare_def example_defs get_language_def language_table source_size_def quarantined_def
      is_admin_def choose_entrypoint_def dupdate_def DEFAULT_LIMITS_def)

lemma backslash_code: "char_of (92::nat) = CHR 0x5C"
  by code_simp

lemma example_request_ok: "ExecuteRequest_ok (example_body ''python'' [''main.py'', ''.env''])"
  by (simp add: ExecuteRequest_ok_def example_defs FileIn_ok_def safe_name_def unique_names_def MAX_FILES_def
      backslash_code)

section \<open>Properties\<close>

text \<open>
  C5. From the API to the file system. Whatever request the API accepts, when its run is over
  nothing is left below the run's directory, and no other file has changed except, for Go only,
  below the build cache of the identity.
\<close>

theorem api_run_contained:
  assumes "confined H" and "list_all plain_segment (RUNTIME_ROOT S)" and "plain_segment rid"
    and "fst (prepare app req i now) = Inr (x, fs)"
  shows "same_outside (insert (run_dir S rid) (if q_language req = ''go'' then {cache_path S (id_name i) ''go''} else {}))
      (files w) (files (snd (execute S H rid x w))) \<and>
    (\<forall>p. files (snd (execute S H rid x w)) (run_dir S rid @ p) = None)"
proof -
  note p = accepted_plain_setup [OF assms(2-4)]
  from execute_touches [OF assms(1) p(1), of w] p(2) show ?thesis
    by (auto simp: run_areas_def same_outside_def execute_removes split: if_splits)
qed

theorem api_run_contained_witness:
  "files (snd (execute example_settings (example_host (Some 0) []) ''run-1''
     (build_request (example_body ''go'' [''a.go'']) (the (dget LANGUAGES ''go'')) ''main.go'' [(''main.go'', ''x'')] ''ann'')
     empty_world)) [''etc'', ''passwd''] = None"
proof -
  have plain: "list_all plain_segment (RUNTIME_ROOT example_settings)" "plain_segment ''run-1''"
    by (simp_all add: example_settings_def plain_segment_def)
  from api_run_contained [OF example_confined [of "Some 0" "[]"] plain example_prepared(2), of empty_world]
  show ?thesis
    by (simp add: same_outside_def run_dir_def RUNS_DIR_def cache_path_def example_settings_def example_body_def
        path_join_plain plain_segment_def empty_world_def)
qed

text \<open>
  C9. The bounds of an accepted request. Its language is a listed one; it stages between one and
  sixteen files with distinct plain names and no more text than the source cap; the entry point is
  one of them and makes up the command line; the run's time limit is between a tenth of a second
  and thirty seconds; the caps on processes, output and descriptors are the defaults; and the run
  is the identity's own.
\<close>

theorem accepted_request_bounds:
  assumes "ExecuteRequest_ok req" and "fst (prepare app req i now) = Inr (x, fs)"
  shows "q_language req \<in> set list_languages \<and> x_files x = fs \<and> 1 \<le> length fs \<and> length fs \<le> MAX_FILES \<and>
    distinct (map fst fs) \<and> list_all (\<lambda>(n, c). plain_segment n) fs \<and>
    sum_list (map (\<lambda>(n, c). int (length c)) fs) \<le> source_cap_bytes DEFAULT_LIMITS \<and>
    (\<exists>ep \<in> fst ` set fs. x_args x = map (py_replace ''{main}'' ep)
       (lang_run_args (the (dget LANGUAGES (q_language req))))) \<and>
    1 / 10 \<le> run_timeout x \<and> run_timeout x \<le> 30 \<and> same_caps (x_limits x) DEFAULT_LIMITS \<and>
    x_identity x = id_name i"
proof (rule prepare_Inr [OF assms(2)])
  fix lang ep
  let ?fs = "map (\<lambda>f. (fi_name f, fi_content f)) (q_files req)"
  assume l: "get_language (q_language req) = Inr lang"
    and s: "source_size (q_files req) \<le> source_cap_bytes DEFAULT_LIMITS"
    and c: "choose_entrypoint req lang (dict_of ?fs) = Inr (ep, fs)"
    and x: "x = build_request req lang ep fs (id_name i)"
  note c1 = choose_entrypoint_Inr [OF c, unfolded dict_of_files [OF assms(1)]]
  note q = ExecuteRequest_ok_files [OF assms(1)]
  have ep: "ep \<in> fst ` set fs" using c1 by (auto simp: dom_map_of_conv_image_fst)
  have n: "1 \<le> length (q_files req)" "length (q_files req) \<le> MAX_FILES"
    using assms(1) by (simp_all add: ExecuteRequest_ok_def)
  have sum: "sum_list (map (\<lambda>(n, c). int (length c)) fs) = source_size (q_files req)"
    using c1 by (cases "q_files req") (auto simp: source_size_def comp_def)
  have names: "distinct (map fst fs) \<and> list_all (\<lambda>(n, c). plain_segment n) fs \<and> 1 \<le> length fs \<and> length fs \<le> MAX_FILES"
    using c1 q n main_file_plain(1) [OF l] by (auto simp: list_all_iff comp_def MAX_FILES_def FileIn_ok_plain)
  have epne: "ep \<noteq> []"
    using ep names by (auto simp: list_all_iff plain_segment_def)
  have t: "1 / 10 \<le> run_timeout x \<and> run_timeout x \<le> 30"
    unfolding x by (rule build_request_timeout) (use assms(1) in \<open>simp add: ExecuteRequest_ok_def\<close>)
  have lst: "q_language req \<in> set list_languages" "the (dget LANGUAGES (q_language req)) = lang"
    using l by (auto simp: set_list_languages get_language_def split: option.splits)
  have "x_args x = map (py_replace ''{main}'' ep) (lang_run_args lang)"
    "same_caps (x_limits x) DEFAULT_LIMITS"
    using epne by (simp_all add: x build_request_def Let_def resolve_fields resolve_def split: option.splits)
  then show ?thesis
    using lst ep names sum s t x by auto
qed

theorem accepted_request_bounds_witness:
  "''python'' \<in> set list_languages \<and>
   run_timeout (build_request (example_body ''python'' [''main.py'', ''.env'']) (the (dget LANGUAGES ''python'')) ''main.py''
       [(''main.py'', ''x''), (''.env'', ''x'')] ''ann'') \<le> 30"
proof -
  have "q_language (example_body ''python'' [''main.py'', ''.env'']) = ''python''" by (simp add: example_body_def)
  with accepted_request_bounds [OF example_request_ok example_prepared(1)] show ?thesis by metis
qed

text \<open>
  C23. A ticket opens one terminal. A ticket that was issued is worth the files and the identity it
  was issued for, for thirty seconds and once; taking it leaves every other ticket that has not
  expired as it was.
\<close>

theorem ticket_lifecycle:
  assumes "terminal_ticket app req i mnow issued token = (Inr tok, app1)" and "wf_dict (terminal_tickets app)"
  shows "tok = token \<and>
    fst (consume_ticket app1 tok now) = (if issued + 30 < now then None
      else Some \<lparr>tk_identity = id_name i, tk_is_admin = is_admin i,
        tk_files = dict_of (map (\<lambda>f. (fi_name f, fi_content f)) (q_files req)), tk_expiry = issued + 30\<rparr>) \<and>
    fst (consume_ticket (snd (consume_ticket app1 tok now)) tok later) = None \<and>
    (\<forall>other. other = tok \<or> dget (terminal_tickets (snd (consume_ticket app1 tok now))) other =
       (case dget (terminal_tickets app) other of None \<Rightarrow> None
        | Some d \<Rightarrow> if tk_expiry d < now then None else Some d))"
proof -
  let ?T = "\<lparr>tk_identity = id_name i, tk_is_admin = is_admin i,
        tk_files = dict_of (map (\<lambda>f. (fi_name f, fi_content f)) (q_files req)), tk_expiry = issued + 30\<rparr>"
  obtain q app0 where q: "quarantined app i mnow = (q, app0)" by fastforce
  then have t0: "terminal_tickets app0 = terminal_tickets app"
    by (auto simp: quarantined_def split: if_splits prod.splits)
  from assms(1) q have tok: "tok = token" "terminal_tickets app1 = dset token ?T (terminal_tickets app0)"
    by (auto simp: terminal_ticket_def TERMINAL_TICKET_TTL_S_def split: if_splits option.splits)
  have w: "wf_dict (terminal_tickets app1)" using assms(2) by (simp add: tok t0)
  have get: "dget (filter (\<lambda>(k, v). \<not> tk_expiry v < x) d) k =
      (case dget d k of None \<Rightarrow> None | Some v \<Rightarrow> if tk_expiry v < x then None else Some v)"
    if "wf_dict d" for d x k
    using dget_filter_key [OF that, of "\<lambda>_ v. \<not> tk_expiry v < x" k] by (auto split: option.splits)
  have "fst (consume_ticket app1 tok now) = (if issued + 30 < now then None else Some ?T)"
    using get [OF w, of now tok] tok(2) by (simp add: consume_ticket_def Let_def tok(1) split: if_splits)
  moreover have "fst (consume_ticket (snd (consume_ticket app1 tok now)) tok later) = None"
    using get [of "dpop tok (filter (\<lambda>(k, v). \<not> tk_expiry v < now) (terminal_tickets app1))" later tok] w
    by (simp add: consume_ticket_def Let_def)
  moreover have "dget (terminal_tickets (snd (consume_ticket app1 tok now))) other =
      (case dget (terminal_tickets app) other of None \<Rightarrow> None | Some d \<Rightarrow> if tk_expiry d < now then None else Some d)"
    if "other \<noteq> tok" for other
    using get [OF w, of now other] that by (simp add: consume_ticket_def Let_def tok t0)
  ultimately show ?thesis using tok(1) by blast
qed

theorem ticket_lifecycle_witness:
  "fst (consume_ticket (snd (terminal_ticket example_app (example_body ''python'' [''a'']) example_identity 0 100 ''tk'')) ''tk'' 131) = None \<and>
   fst (consume_ticket (snd (terminal_ticket example_app (example_body ''python'' [''a'']) example_identity 0 100 ''tk'')) ''tk'' 130) \<noteq> None"
proof -
  have e: "terminal_ticket example_app (example_body ''python'' [''a'']) example_identity 0 100 ''tk'' =
      (Inr ''tk'', snd (terminal_ticket example_app (example_body ''python'' [''a'']) example_identity 0 100 ''tk''))"
    "wf_dict (terminal_tickets example_app)"
    by (simp_all add: terminal_ticket_def example_defs source_size_def DEFAULT_LIMITS_def quarantined_def is_admin_def
        rejection_def new_manager_def)
  from ticket_lifecycle [OF e, of 131] ticket_lifecycle [OF e, of 130] show ?thesis by simp
qed

lemma touches_refl: "touches D w w" and logs_refl: "logs P w w"
  by (rule fp.frame_refl, rule lg.frame_refl)

lemma start_close_calls:
  assumes "start_terminal S H con (new_session sid i fs, w) = (r, s, w1)"
  shows "t_close_calls s \<le> 1" "r = Inr () \<Longrightarrow> t_close_calls s = 0" "t_fd s \<longleftrightarrow> r = Inr ()"
  using assms by (auto simp: start_terminal_def Let_def new_session_def close_def split: sum.splits console.splits prod.splits)

text \<open>
  What the handler makes of a ticket it does not turn away: a session started once, registered if
  the start succeeded and told so if the client is still there.
\<close>

lemma terminal_ws_cases:
  assumes "terminal_ws S H net con sid token now app w = (r, s, app1, w1)"
  obtains (Turned_away) "s = None" "w1 = w" "terminals app1 = terminals app" "r \<noteq> Ws_ready"
  | (Failed) d x e where "fst (consume_ticket app token now) = Some d" "s = Some x" "net Op_accept"
      "rejection (terminals app) (tk_identity d) (tk_is_admin d) = None"
      "start_terminal S H con (new_session sid (tk_identity d) (tk_files d), w) = (Inl e, x, w1)" "r \<noteq> Ws_ready"
      "terminals app1 = ((\<lambda>m. unregister m sid (tk_identity d)) ^^ (if 0 < t_close_calls x then 2 else 1))
         (register (terminals app) sid (tk_identity d))"
  | (Started) d x where "fst (consume_ticket app token now) = Some d" "s = Some x" "net Op_accept"
      "rejection (terminals app) (tk_identity d) (tk_is_admin d) = None"
      "start_terminal S H con (new_session sid (tk_identity d) (tk_files d), w) = (Inr (), x, w1)"
      "r = (if net Op_ready then Ws_ready else Ws_gone)"
      "terminals app1 = register (terminals app) sid (tk_identity d)"
proof -
  obtain data app0 where c: "consume_ticket app token now = (data, app0)" by fastforce
  then have t0: "terminals app0 = terminals app" by (auto simp: consume_ticket_def Let_def)
  show thesis
  proof (cases "data = None \<or> rejection (terminals app) (tk_identity (the data)) (tk_is_admin (the data)) \<noteq> None \<or> \<not> net Op_accept")
    case True
    then show thesis
      using assms c t0 by (intro Turned_away) (auto simp: terminal_ws_def split: option.splits if_splits)
  next
    case False
    then obtain d where d: "data = Some d" and rej: "rejection (terminals app) (tk_identity d) (tk_is_admin d) = None"
      and acc: "net Op_accept" by auto
    obtain r2 x w2 where st: "start_terminal S H con (new_session sid (tk_identity d) (tk_files d), w) = (r2, x, w2)"
      by (metis prod_cases3)
    show thesis
    proof (cases r2)
      case (Inl e)
      with assms c d t0 rej acc st show thesis
        by (intro Failed [of d x e]) (auto simp: terminal_ws_def Let_def numeral_2_eq_2 split: if_splits)
    next
      case (Inr u)
      with assms c d t0 rej acc st start_close_calls(2) [OF st] show thesis
        by (intro Started [of d x]) (auto simp: terminal_ws_def Let_def)
    qed
  qed
qed

text \<open>
  The manager sees the handler as a sequence of the events of \<open>ws_step\<close>, whose interleavings bound the
  number of sessions.
\<close>

definition handler_events :: "string \<Rightarrow> ticket option \<Rightarrow> TerminalSession option \<Rightarrow> ws_event list" where
  "handler_events sid t s = (case (t, s) of
     (Some d, Some x) \<Rightarrow> [Check sid (tk_identity d), Admit sid] @
        (if t_fd x then [] else if 0 < t_close_calls x then [Start_timeout sid] else [Start_error sid])
   | _ \<Rightarrow> [])"

theorem terminal_ws_events:
  assumes "dget (sessions (terminals app)) sid = None"
    and "terminal_ws S H net con sid token now app w = (r, s, app1, w1)"
  shows "terminals app1 = manager (ws_run (\<lambda>i. case fst (consume_ticket app token now) of None \<Rightarrow> False | Some d \<Rightarrow> tk_is_admin d)
    \<lparr>manager = terminals app, pending = []\<rparr> (handler_events sid (fst (consume_ticket app token now)) s))"
proof -
  have reg: "dget (sessions (register m sid i)) sid = Some i" for m i by (simp add: register_def)
  from assms(2) show ?thesis
  proof (cases rule: terminal_ws_cases)
    case Turned_away
    then show ?thesis by (simp add: handler_events_def ws_run_def split: option.splits)
  next
    case (Failed d x e)
    then show ?thesis
      using start_close_calls(3) [OF Failed(5)] assms(1) reg
      by (auto simp: handler_events_def ws_run_def end_session_def)
  next
    case (Started d x)
    then show ?thesis
      using start_close_calls(3) [OF Started(5)] assms(1) by (simp add: handler_events_def ws_run_def)
  qed
qed

text \<open>A small terminal.\<close>

definition ticket_files :: "(string, string) dict" where
  "ticket_files = [(''a.py'', ''x'')]"

definition example_ticket :: ticket where
  "example_ticket = \<lparr>tk_identity = ''ann'', tk_is_admin = False, tk_files = ticket_files, tk_expiry = 30\<rparr>"

definition ticket_app :: app_state where
  "ticket_app = example_app\<lparr>terminal_tickets := [(''tk'', example_ticket)]\<rparr>"

lemma example_session_dir: "session_dir example_settings (new_session ''t1'' i fs) = [''sb'', ''runs'', ''t1'']"
  by (simp add: session_dir_def RUNS_DIR_def example_settings_def new_session_def path_join_plain plain_segment_def)

lemma bind_files_ok:
  "f (files w) = Inr g \<Longrightarrow> \<exists>v. k () (w\<lparr>files := g\<rparr>) = (Inr (), v) \<Longrightarrow> \<exists>v. bind_act (on_files f) k w = (Inr (), v)"
  by (simp add: bind_on_files)

lemma example_prepare:
  "\<exists>v. prepare_terminal example_settings (new_session ''t1'' i ticket_files) empty_world = (Inr (), v)"
proof -
  let ?d = "[''sb'', ''runs'', ''t1'']"
  have a: "path_join ?d ''src'' = [''sb'', ''runs'', ''t1'', ''src'']" "path_join ?d ''bundle'' = [''sb'', ''runs'', ''t1'', ''bundle'']"
    "path_join ?d ''state'' = [''sb'', ''runs'', ''t1'', ''state'']"
    "path_join [''sb'', ''runs'', ''t1'', ''bundle''] ''config.json'' = [''sb'', ''runs'', ''t1'', ''bundle'', ''config.json'']"
    "path_join ?d ''console.sock'' = [''sb'', ''runs'', ''t1'', ''console.sock'']"
    by (simp_all add: path_join_plain plain_segment_def)
  have l: "length (utf8_encode (path_str [''sb'', ''runs'', ''t1'', ''console.sock''])) < 108" by code_simp
  have c: "bind_console [''sb'', ''runs'', ''t1'', ''console.sock''] =
      on_files (write_bytes [''sb'', ''runs'', ''t1'', ''console.sock''] [])" using l by (simp add: bind_console_def fun_eq_iff)
  have safe: "sanitize_filename ''a.py'' = Inr ''a.py''" by code_simp
  have st: "bind_act (stage_files [''sb'', ''runs'', ''t1'', ''src''] [] (t_files (new_session ''t1'' i ticket_files))) k =
      bind_act (on_files (write_bytes [''sb'', ''runs'', ''t1'', ''src'', ''a.py''] (utf8_encode ''x''))) k" for k :: "unit \<Rightarrow> unit act"
    by (simp add: new_session_def ticket_files_def safe path_join_plain plain_segment_def bind_act_def ret_def fun_eq_iff
        split: prod.splits sum.splits)
  show ?thesis
    unfolding prepare_terminal_def Let_def session_state_def console_sock_def example_session_dir a c write_bundle_def
    apply (rule bind_files_ok [OF mkdir_ready], simp add: empty_world_def, simp add: empty_world_def, simp)+
    apply (simp only: st)
    apply (rule bind_files_ok [OF write_bytes_Inr], simp, simp add: empty_world_def, simp add: empty_world_def)+
    apply (simp add: on_files_def, subst write_bytes_Inr)
       apply (simp_all add: empty_world_def)
    done
qed

lemma example_launch:
  "\<exists>pr v. bind_act (prepare_terminal example_settings (new_session ''t1'' i ticket_files)) (\<lambda>_. launch (example_host (Some 0) []) sp)
     empty_world = (Inr pr, v)"
proof -
  obtain v where "prepare_terminal example_settings (new_session ''t1'' i ticket_files) empty_world = (Inr (), v)"
    using example_prepare by blast
  then show ?thesis by (simp add: bind_act_def launch_def example_host_def)
qed

lemma ticket_facts:
  "fst (consume_ticket ticket_app ''tk'' 5) = Some example_ticket"
  "terminals (snd (consume_ticket ticket_app ''tk'' 5)) = terminals ticket_app"
  "rejection (terminals ticket_app) ''ann'' False = None" "manager_ok (terminals ticket_app)"
  "sessions (terminals ticket_app) = []"
  by (simp_all add: consume_ticket_def ticket_app_def example_app_def example_ticket_def rejection_def new_manager_def
      manager_ok_def sessions_of_def)

lemma example_ready:
  "\<exists>s app1 w1. terminal_ws example_settings (example_host (Some 0) []) (\<lambda>op. True) (Handshake (Inr [(1, 1, [7, 0, 0, 0])]) 6) ''t1'' ''tk'' 5
     ticket_app empty_world = (Ws_ready, Some s, app1, w1)"
proof -
  obtain app1 where c: "consume_ticket ticket_app ''tk'' 5 = (Some example_ticket, app1)" using ticket_facts(1) by (metis prod.collapse)
  have t: "terminals app1 = terminals ticket_app" using ticket_facts(2) c by simp
  obtain pr v where b: "bind_act (prepare_terminal example_settings (new_session ''t1'' ''ann'' ticket_files))
      (\<lambda>_. launch (example_host (Some 0) []) (terminal_spec example_settings (new_session ''t1'' ''ann'' ticket_files))) empty_world = (Inr pr, v)"
    using example_launch by blast
  have "\<exists>fd. recv_fd (Inr [(1, 1, [7, 0, 0, 0])]) = Inr fd"
    by (simp add: recv_fd_def SOL_SOCKET_def SCM_RIGHTS_def FD_SIZE_def)
  then obtain fd where f: "recv_fd (Inr [(1, 1, [7, 0, 0, 0])]) = Inr fd" by blast
  have tk: "tk_identity example_ticket = ''ann''" "tk_is_admin example_ticket = False" "tk_files example_ticket = ticket_files"
    by (simp_all add: example_ticket_def)
  obtain s where st: "start_terminal example_settings (example_host (Some 0) []) (Handshake (Inr [(1, 1, [7, 0, 0, 0])]) 6)
      (new_session ''t1'' ''ann'' ticket_files, empty_world) = (Inr (), s, v)"
    by (simp add: start_terminal_def b f)
  show ?thesis
    using ticket_facts(3) by (simp add: terminal_ws_def c t tk st Let_def)
qed

text \<open>
  C22. A shell is opened by a ticket only. Whatever token a WebSocket connection brings: a container
  is launched only when the token is a live ticket, and then it is the terminal of the ticket's
  identity, in a hardened configuration without writable mounts, over the ticket's files: when the
  session gets its pty, its directory \<^verbatim>\<open>src\<close> holds each file of the ticket under its safe name
  with its text, and nothing else that was not there before. Only files below the new session's
  directory change; a session that gets its pty is registered under the ticket's identity, no other
  is; and the client is told that the shell is ready exactly when there is one, if it still listens.
\<close>

theorem terminal_ws_gate:
  assumes "confined H" and "dget (sessions (terminals app)) sid = None"
    and "terminal_ws S H net con sid token now app w = (r, s, app1, w1)"
  shows "touches {path_join (RUNS_DIR S) sid} w w1 \<and>
    logs (launches_ok (\<lambda>sp. case fst (consume_ticket app token now) of None \<Rightarrow> False
      | Some d \<Rightarrow> sp = terminal_spec S (new_session sid (tk_identity d) (tk_files d)) \<and>
          hardened (sp_config sp) \<and> writable_sources (sp_config sp) = [])) w w1 \<and>
    (case s of None \<Rightarrow> w1 = w \<and> r \<noteq> Ws_ready \<and> dget (sessions (terminals app1)) sid = None
     | Some x \<Rightarrow> (case fst (consume_ticket app token now) of None \<Rightarrow> False
       | Some d \<Rightarrow> t_id x = sid \<and> identity_name x = tk_identity d \<and> t_files x = tk_files d \<and>
          (r = Ws_ready) = (t_fd x \<and> net Op_ready) \<and>
          (if t_fd x
           then dget (sessions (terminals app1)) sid = Some (tk_identity d) \<and>
             done_log w1 = done_log w @ [Launched (terminal_spec S (new_session sid (tk_identity d) (tk_files d)))] \<and>
             (\<forall>q. files w1 (path_join (RUNS_DIR S) sid @ ''src'' # q) =
                (if q = [] then Some Dir
                 else staged_tree (tk_files d) (path_join (RUNS_DIR S) sid @ [''src'']) (files w) q))
           else dget (sessions (terminals app1)) sid = None)))"
proof -
  have ok: "launches_ok (\<lambda>sp. sp = terminal_spec S x \<and> hardened (sp_config sp) \<and> writable_sources (sp_config sp) = []) =
      launches_ok (\<lambda>sp. sp = terminal_spec S x)" for x
    by (rule ext) (auto simp: launches_ok_def terminal_spec_def terminal_config_facts split: event.splits)
  have dir: "session_dir S (new_session sid i fs) = path_join (RUNS_DIR S) sid" for i fs
    by (simp add: session_dir_def new_session_def)
  have new: "t_id (new_session sid i fs) = sid" "identity_name (new_session sid i fs) = i" "t_files (new_session sid i fs) = fs"
    for i fs by (simp_all add: new_session_def)
  have gone: "dget (sessions (unregister m sid i)) sid = None" for m i by (simp add: unregister_def Let_def)
  from assms(3) show ?thesis
  proof (cases rule: terminal_ws_cases)
    case Turned_away
    with assms(2) show ?thesis by (simp add: touches_refl logs_refl)
  next
    case (Failed d x e)
    note w = start_terminal_world [OF Failed(5), unfolded dir new] start_close_calls(3) [OF Failed(5)]
    have "dget (sessions (terminals app1)) sid = None" by (simp add: Failed(7) gone numeral_2_eq_2)
    with w assms(1) Failed(1,2,6) show ?thesis by (simp add: ok)
  next
    case (Started d x)
    note w = start_terminal_world [OF Started(5), unfolded dir new] start_close_calls(3) [OF Started(5)]
    note f = start_terminal_src [OF assms(1) Started(5), unfolded dir new] start_terminal_ready(4) [OF Started(5)]
    have "dget (sessions (terminals app1)) sid = Some (tk_identity d)" by (simp add: Started(7) register_def)
    with w f assms(1) Started(1,2,6) show ?thesis by (simp add: ok)
  qed
qed

theorem terminal_ws_gate_witness:
  "\<exists>s app1 w1. terminal_ws example_settings (example_host (Some 0) []) (\<lambda>op. True) (Handshake (Inr [(1, 1, [7, 0, 0, 0])]) 6)
       ''t1'' ''tk'' 5 ticket_app empty_world = (Ws_ready, Some s, app1, w1) \<and>
     identity_name s = ''ann'' \<and> dget (sessions (terminals app1)) ''t1'' = Some ''ann'' \<and>
     files w1 [''sb'', ''runs'', ''t1'', ''src'', ''a.py''] = Some (File (utf8_encode ''x'')) \<and>
     files w1 [''sb'', ''runs'', ''t1'', ''src'', ''b.py''] = None"
proof -
  obtain s app1 w1 where e: "terminal_ws example_settings (example_host (Some 0) []) (\<lambda>op. True)
      (Handshake (Inr [(1, 1, [7, 0, 0, 0])]) 6) ''t1'' ''tk'' 5 ticket_app empty_world = (Ws_ready, Some s, app1, w1)"
    using example_ready by blast
  have n: "dget (sessions (terminals ticket_app)) ''t1'' = None" by (simp add: ticket_facts(5))
  have safe: "sanitize_filename ''a.py'' = Inr ''a.py''" by code_simp
  have d: "path_join (RUNS_DIR example_settings) ''t1'' = [''sb'', ''runs'', ''t1'']"
    using example_session_dir [of "''ann''" "[]"] by (simp add: session_dir_def new_session_def)
  from terminal_ws_gate [OF example_confined n e, unfolded d ticket_facts(1)]
  have g: "identity_name s = tk_identity example_ticket" "dget (sessions (terminals app1)) ''t1'' = Some (tk_identity example_ticket)"
    "\<forall>q. files w1 ([''sb'', ''runs'', ''t1''] @ ''src'' # q) = (if q = [] then Some Dir
       else staged_tree (tk_files example_ticket) ([''sb'', ''runs'', ''t1''] @ [''src'']) (files empty_world) q)"
    by (simp_all split: if_splits)
  from g(1,2) g(3) [THEN spec, of "[''a.py'']"] g(3) [THEN spec, of "[''b.py'']"] e show ?thesis
    by (simp add: example_ticket_def ticket_files_def staged_tree_def staged_file_def safe empty_world_def)
qed

text \<open>
  A hidden file costs an abuse point. The API accepts file names that begin with a dot, and the
  executor does not: such a run launches nothing, ends in an internal error, and the error is scored
  as the identity's \<open>orchestration\<close> abuse.
\<close>

theorem hidden_file_penalised:
  assumes "ExecuteRequest_ok req" and "fst (prepare app req i now) = Inr (x, fs)"
    and "list_ex (\<lambda>(n, c). prefix ''.'' n) fs"
  shows "done_log (snd (execute S H rid x w)) = done_log w \<and>
    (let v = classify (fst (execute S H rid x w))
     in flags v = [''orchestration''] \<and> weight v = 1 \<and> suspicious v)"
proof (rule prepare_Inr [OF assms(2)])
  fix lang ep
  assume l: "get_language (q_language req) = Inr lang"
    and c: "choose_entrypoint req lang (dict_of (map (\<lambda>f. (fi_name f, fi_content f)) (q_files req))) = Inr (ep, fs)"
    and x: "x = build_request req lang ep fs (id_name i)"
  from assms(3) obtain n where n: "n \<in> fst ` set fs" "prefix ''.'' n" by (force simp: list_ex_iff)
  from choose_entrypoint_Inr [OF c] n main_file_plain(2) [OF l]
  have "n \<in> fi_name ` set (q_files req)" by (auto simp: dict_of_files [OF assms(1)])
  then obtain f where f: "f \<in> set (q_files req)" "n = fi_name f" by auto
  note ok = ExecuteRequest_ok_files(1) [OF assms(1) f(1)]
  have "sanitize_filename n = Inl (ValueError (''illegal file name: '' @ py_repr n))"
    using ok n(2) sanitize_bare [of n] by (simp add: f(2) FileIn_ok_iff safe_name_Inr)
  then have "isl (sanitize_filename n)" "n \<in> fst ` set (x_files x)" using n(1) by (simp_all add: x)
  note e = execute_not_staged [OF this(2,1), of S H rid w]
  have cl: "classify (new_result\<lparr>error := Some (exn_text exc)\<rparr>) =
      \<lparr>suspicious = True, flags = [''orchestration''], weight = 1\<rparr>" for exc
    by (simp add: classify_def Let_def any_marker_def WEIGHTS_def dget_or_def py_lower_def
        NETWORK_MARKERS_def MEMORY_MARKERS_def)
  from e cl show ?thesis by auto
qed

theorem hidden_file_penalised_witness:
  "weight (classify (fst (execute example_settings (example_host (Some 0) []) ''run-1''
     (build_request (example_body ''python'' [''main.py'', ''.env'']) (the (dget LANGUAGES ''python'')) ''main.py''
       [(''main.py'', ''x''), (''.env'', ''x'')] ''ann'') empty_world))) = 1"
proof -
  have "list_ex (\<lambda>(n, c). prefix ''.'' n) [(''main.py'', ''x''), (''.env'', ''x'')]" by simp
  from hidden_file_penalised [OF example_request_ok example_prepared(1) this, of example_settings
    "example_host (Some 0) []" "''run-1''" empty_world]
  show ?thesis by (simp add: Let_def)
qed

end
