(* ===== verification/Recording.thy ===== *)
theory Recording
  imports Routes "HOL-Library.Multiset"
begin

text \<open>
  What the API keeps of a run, across its components: the answer of \<^verbatim>\<open>POST /execute\<close>, the
  history behind \<^verbatim>\<open>GET /runs/{id}\<close> and the abuse tracker, from the request that was accepted to
  the run that is read back.
\<close>

section \<open>The tracker and the history after one run\<close>

lemma abuse_score_record:
  assumes "0 < window_s t"
  shows "fst (abuse_score (snd (abuse_record t i v now)) i now) =
    fst (abuse_score t i now) + (if suspicious v then weight v else 0)"
proof -
  have idem: "pop_old sp now (pop_old sp now w @ es) = pop_old sp now w @ es"
    if "\<forall>e \<in> set es. now - fst e < sp" for sp w es
  proof (cases "pop_old sp now w")
    case Nil
    with that show ?thesis by (cases es) auto
  next
    case (Cons e w1)
    with pop_old_head [OF Cons] show ?thesis by auto
  qed
  show ?thesis
    using assms by (simp add: fst_abuse_score abuse_window_record idem window_weight_def)
qed

lemma save_other:
  assumes "save_run rec h = Inr h'" and "db_ready h" and "j \<noteq> rec_identity rec"
  shows "get_run j (rec_id rec) h' = None"
proof -
  have new: "rec_id rec \<notin> set (map r_id (runs_table h))" and h': "h' = h\<lparr>runs_table := runs_table h @ [row_of rec]\<rparr>"
    using assms(1,2) by (auto simp: save_run_def save_sync_def split: if_splits)
  have "find (\<lambda>r. r_id r = rec_id rec \<and> r_identity r = j) (runs_table h @ [row_of rec]) = None"
    using new assms(3) by (auto simp: find_None_iff row_of_def Let_def image_iff)
  then show ?thesis by (simp add: h' get_run_def get_sync_def)
qed

lemma prepared_wf: "fst (prepare app req i now) = Inr (x, fs) \<Longrightarrow> wf_dict fs"
  by (erule prepare_Inr) (auto dest!: choose_entrypoint_Inr simp: wf_dict_def [of "[_]"])

section \<open>Paging through the history\<close>

lemma pages: "concat (map (\<lambda>k. take l (drop (k * l) xs)) [0..<n]) = take (n * l) xs"
proof (induction n)
  case (Suc n)
  have "take (n * l + l) xs = take (n * l) xs @ take l (drop (n * l) xs)" by (rule take_add)
  with Suc show ?case by (simp add: add.commute)
qed simp

text \<open>
  Pages of \<open>l\<close> runs, one after the other, list every run of the identity once and nobody else's, in the
  order of the table, whose order of equal times is a parameter.
\<close>

theorem pages_complete:
  assumes "1 \<le> l" and "l \<le> 200" and "db_ready (past_runs a)" and "\<And>rs. mset (order rs) = mset rs"
    and "length (runs_table (past_runs a)) \<le> n * l"
  shows "mset (concat (map (\<lambda>k. rl_runs (the (list_runs_route order a i (int l) (int (k * l))))) [0..<n])) =
    image_mset summary_of (filter_mset (\<lambda>r. r_identity r = id_name i) (mset (runs_table (past_runs a))))"
proof -
  let ?own = "filter (\<lambda>r. r_identity r = id_name i) (runs_table (past_runs a))"
  have "rl_runs (the (list_runs_route order a i (int l) (int (k * l)))) = take l (drop (k * l) (map summary_of (order ?own)))" for k
    using assms(1-3) by (simp add: list_runs_route_def list_runs_def list_sync_def take_map drop_map nat_mult_distrib)
  then have p: "concat (map (\<lambda>k. rl_runs (the (list_runs_route order a i (int l) (int (k * l))))) [0..<n]) =
      take (n * l) (map summary_of (order ?own))"
    by (simp add: pages)
  have "length (order ?own) = length ?own" by (rule mset_eq_length [OF assms(4)])
  also have "\<dots> \<le> n * l" using assms(5) length_filter_le [of _ "runs_table (past_runs a)"] by (rule order.trans [rotated])
  finally have "take (n * l) (map summary_of (order ?own)) = map summary_of (order ?own)" by simp
  with p assms(4) [of ?own] show ?thesis by (simp add: mset_filter)
qed

theorem pages_complete_witness:
  "mset (concat (map (\<lambda>k. rl_runs (the (list_runs_route rev (example_app\<lparr>past_runs := open_history\<rparr>) example_identity 2 (int (k * 2)))))
     [0..<3])) = {#}"
  using pages_complete [of 2 "example_app\<lparr>past_runs := open_history\<rparr>" rev 3 example_identity]
  by (simp add: open_history_def db_ready_def)

section \<open>Properties\<close>

text \<open>
  C25. A run is kept for its owner. When the future of an accepted request resolves, its slot is given
  back and the client is answered with the result and the id of the stored run; under that id its
  owner, and nobody else, reads back the files that were staged, the input, the output, the error and
  the verdict; every other run is found as before; and the owner's abuse score has risen by the weight
  of the verdict, if it was suspicious.
\<close>

theorem run_recorded:
  assumes "fst (prepare app0 req i t) = Inr (x, fs)" and "db_ready (past_runs app)"
    and "rid \<notin> set (map r_id (runs_table (past_runs app)))" and "0 < window_s (abuse app)"
    and "execute_code_leave app req i fs (Resolved res) rid created now = (resp, app')"
  shows "resp = Inr (make_response res (Some rid)) \<and> limiter app' = limiter (rl_release app i) \<and>
    (\<exists>d. get_run_route app' rid i = Inr d \<and> det_files d = x_files x \<and> det_stdin d = x_stdin x \<and>
       sum_language d = q_language req \<and> det_stdout d = stdout res \<and> det_stderr d = stderr res \<and>
       sum_exit_code d = exit_code res \<and> sum_timed_out d = timed_out res \<and> det_error d = error res \<and>
       sum_flags d = flags (classify res) \<and> sum_suspicious d = suspicious (classify res)) \<and>
    (\<forall>j. get_run_route app' rid j = (if id_name j = id_name i then get_run_route app' rid i
       else Inl (HTTPException 404 ''run not found'' []))) \<and>
    (\<forall>j k. k = rid \<or> get_run_route app' k j = get_run_route app k j) \<and>
    fst (abuse_score (abuse app') (id_name i) now) =
      fst (abuse_score (abuse app) (id_name i) now) + (if suspicious (classify res) then weight (classify res) else 0)"
proof -
  let ?rec = "record_of (id_name i) req fs res rid created"
  define h where "h = (past_runs app)\<lparr>runs_table := runs_table (past_runs app) @ [row_of ?rec]\<rparr>"
  have rec [simp]: "rec_identity ?rec = id_name i" "rec_id ?rec = rid" "rec_files ?rec = fs" "rec_result ?rec = res"
    "rec_stdin ?rec = q_stdin req" "rec_language ?rec = q_language req"
    "rec_flags ?rec = flags (classify res)" "rec_suspicious ?rec = suspicious (classify res)"
    by (simp_all add: record_of_def Let_def)
  have save: "save_run ?rec (past_runs app) = Inr h"
    using assms(2,3) by (simp add: save_run_def save_sync_def h_def)
  have keep: "past_runs (rl_release app i) = past_runs app" "abuse (rl_release app i) = abuse app"
    by (simp_all add: rl_release_def)
  have on: "PERSIST_ENABLED h" using assms(2) by (simp add: h_def db_ready_def)
  have leave: "resp = Inr (make_response res (Some rid))" "limiter app' = limiter (rl_release app i)"
    "past_runs app' = h" "abuse app' = snd (abuse_record (abuse app) (id_name i) (classify res) now)"
    using assms(5) save on by (auto simp: execute_code_leave_def Let_def finalize_def keep)
  obtain lang ep where x: "x = build_request req lang ep fs (id_name i)"
    by (rule prepare_Inr [OF assms(1)])
  from save_get_roundtrip [OF assms(2) save] prepared_wf [OF assms(1)]
  obtain d where d: "get_run (id_name i) rid h = Some d" "det_files d = fs" "det_stdin d = q_stdin req"
    "sum_language d = q_language req" "det_stdout d = stdout res" "det_stderr d = stderr res"
    "sum_exit_code d = exit_code res" "sum_timed_out d = timed_out res" "det_error d = error res"
    "sum_flags d = flags (classify res)" "sum_suspicious d = suspicious (classify res)"
    "\<forall>j k. k = rid \<or> get_run j k h = get_run j k (past_runs app)"
    by auto
  have "get_run_route app' rid j = Inl (HTTPException 404 ''run not found'' [])" if "id_name j \<noteq> id_name i" for j
    using save_other [OF save assms(2), of "id_name j"] that by (simp add: get_run_route_def leave)
  moreover have "k = rid \<or> get_run_route app' k j = get_run_route app k j" for j k
    using spec [OF spec [OF d(12), of "id_name j"], of k] by (auto simp: get_run_route_def leave)
  moreover have "get_run_route app' rid j = get_run_route app' rid i" if "id_name j = id_name i" for j
    using that by (simp add: get_run_route_def)
  ultimately show ?thesis
    using d(1-11) leave abuse_score_record [OF assms(4), of "id_name i" "classify res" now]
    by (simp add: get_run_route_def x)
qed

theorem run_recorded_witness:
  "\<exists>d. get_run_route (snd (execute_code_leave (example_app\<lparr>past_runs := open_history\<rparr>)
       (example_body ''go'' [''a.go'']) example_identity [(''main.go'', ''x'')] (Resolved new_result) ''r1'' ''2025'' 5))
       ''r1'' example_identity = Inr d \<and> det_files d = [(''main.go'', ''x'')]"
proof -
  have h: "db_ready (past_runs (example_app\<lparr>past_runs := open_history\<rparr>))"
    "''r1'' \<notin> set (map r_id (runs_table (past_runs (example_app\<lparr>past_runs := open_history\<rparr>))))"
    "0 < window_s (abuse (example_app\<lparr>past_runs := open_history\<rparr>))"
    by (simp_all add: example_app_def db_ready_def open_history_def new_tracker_def)
  have "x_files (build_request (example_body ''go'' [''a.go'']) (the (dget LANGUAGES ''go'')) ''main.go''
      [(''main.go'', ''x'')] ''ann'') = [(''main.go'', ''x'')]"
    by (rule build_request_fields)
  with run_recorded [OF example_prepared(2) h prod.collapse [symmetric], of new_result "''2025''" 5]
  show ?thesis by metis
qed

end
