(* ===== verification/Accounting.thy ===== *)
theory Accounting
  imports Routes
begin

text \<open>
  The slots that the handlers of \<^verbatim>\<open>app/api/routes.py\<close> take and give back. The system is the
  application state with the requests in progress; its steps are the handlers' halves before and
  after their awaits, in any order, and arbitrary steps of the parts that hold no slots.
\<close>

section \<open>Slots are given back\<close>

abbreviation held :: "app_state \<Rightarrow> string \<Rightarrow> int" where
  "held app \<equiv> inflight_of (limiter app)"

lemma quarantined_limiter [simp, frame_simps]: "limiter (snd (quarantined app i now)) = limiter app"
  by (simp add: quarantined_def split: prod.splits)

lemma prepare_limiter [simp, frame_simps]: "limiter (snd (prepare app req i now)) = limiter app"
proof -
  obtain q app1 where q: "quarantined app i now = (q, app1)" by fastforce
  with quarantined_limiter [of app i now] have "limiter app1 = limiter app" by simp
  with q show ?thesis by (simp add: prepare_def split: sum.splits prod.splits)
qed

lemma finalize_limiter [simp, frame_simps]: "limiter (snd (finalize app n req fs res rid created now)) = limiter app"
  by (simp add: finalize_def Let_def split: sum.splits)

lemma rl_acquire_held:
  "held (snd (rl_acquire app i now)) j =
     held app j + (if \<not> is_admin i \<and> j = id_name i \<and> fst (rl_acquire app i now) = Inr () then 1 else 0)"
proof (cases "is_admin i")
  case True
  then show ?thesis by (simp add: rl_acquire_def)
next
  case False
  obtain r l where a: "acquire (limiter app) (id_name i) now = (r, l)" by fastforce
  with False acquire_inflight [of "limiter app" "id_name i" now j] show ?thesis
    by (simp add: rl_acquire_def)
qed

lemma rl_release_held:
  "held (rl_release app i) j = (if \<not> is_admin i \<and> j = id_name i then max 0 (held app j - 1) else held app j)"
  by (simp add: rl_release_def release_inflight)

lemma enter_held:
  "held (snd (enter app req i now)) j =
     held app j + (if \<not> is_admin i \<and> j = id_name i \<and> \<not> isl (fst (enter app req i now)) then 1 else 0)"
proof -
  obtain r1 app1 where p: "prepare app req i now = (r1, app1)" by fastforce
  have l1: "limiter app1 = limiter app" using prepare_limiter [of app req i now] p by simp
  obtain r2 app2 where a: "rl_acquire app1 i now = (r2, app2)" by fastforce
  from rl_acquire_held [of app1 i now j] a l1
  have h2: "held app2 j = held app j + (if \<not> is_admin i \<and> j = id_name i \<and> r2 = Inr () then 1 else 0)" by simp
  show ?thesis
    using p a l1 h2 by (cases r1; cases r2) (auto simp: enter_def)
qed

text \<open>The requests in progress that hold a slot.\<close>

datatype flight_kind = Awaiting | In_job | Opening | In_stream

record flight =
  f_identity :: Identity
  f_kind :: flight_kind
  f_request :: ExecuteRequest
  f_files :: "(string, string) dict"

record system =
  app :: app_state
  flights :: "(nat, flight) dict"
  next_flight :: nat

datatype request_event =
    Execute ExecuteRequest Identity real string
  | Execute_end nat future string string real
  | Job ExecuteRequest Identity real string
  | Job_hook nat ExecutionResult string string real
  | Stream ExecuteRequest Identity real
  | Stream_start nat
  | Stream_end nat
  | Ticket ExecuteRequest Identity real real string
  | Report Identity real
  | Internal "JobQueue \<Rightarrow> JobQueue" "history \<Rightarrow> history" "TerminalManager \<Rightarrow> TerminalManager"

definition take_off :: "system \<Rightarrow> app_state \<Rightarrow> Identity \<Rightarrow> flight_kind \<Rightarrow> ExecuteRequest \<Rightarrow> (string, string) dict \<Rightarrow> system" where
  "take_off y a i kind req fs =
     y\<lparr>app := a, flights := dset (next_flight y) \<lparr>f_identity = i, f_kind = kind, f_request = req, f_files = fs\<rparr> (flights y),
       next_flight := next_flight y + 1\<rparr>"

text \<open>
  One step of one handler. A streaming request holds its slot from the handler on; its generator
  starts later, if it starts at all, and takes a streaming slot or tells the client that the server
  is busy. The \<open>finally\<close> of a generator that started runs.
\<close>

fun sys_step :: "system \<Rightarrow> request_event \<Rightarrow> system" where
  "sys_step y (Execute req i now jid) =
     (case execute_code_enter (app y) req i now jid of
        (Inl e, a) \<Rightarrow> y\<lparr>app := a\<rparr>
      | (Inr (r, fs), a) \<Rightarrow> take_off y a i Awaiting req fs)"
| "sys_step y (Execute_end k fut rid created now) =
     (case dget (flights y) k of
        Some f \<Rightarrow> if f_kind f = Awaiting
          then y\<lparr>app := snd (execute_code_leave (app y) (f_request f) (f_identity f) (f_files f) fut rid created now),
                 flights := dpop k (flights y)\<rparr>
          else y
      | None \<Rightarrow> y)"
| "sys_step y (Job req i now jid) =
     (case submit_job (app y) req i now jid of
        (Inl e, a) \<Rightarrow> y\<lparr>app := a\<rparr>
      | (Inr (r, fs), a) \<Rightarrow> take_off y a i In_job req fs)"
| "sys_step y (Job_hook k res rid created now) =
     (case dget (flights y) k of
        Some f \<Rightarrow> if f_kind f = In_job
          then y\<lparr>app := snd (on_complete (app y) (f_request f) (f_identity f) (f_files f) res rid created now),
                 flights := dpop k (flights y)\<rparr>
          else y
      | None \<Rightarrow> y)"
| "sys_step y (Stream req i now) =
     (case enter (app y) req i now of
        (Inl e, a) \<Rightarrow> y\<lparr>app := a\<rparr>
      | (Inr (x, fs), a) \<Rightarrow> take_off y a i Opening req fs)"
| "sys_step y (Stream_start k) =
     (case dget (flights y) k of
        Some f \<Rightarrow> if f_kind f = Opening
          then (case stream_begin (app y) (f_identity f) of
                  (Inl evs, a) \<Rightarrow> y\<lparr>app := a, flights := dpop k (flights y)\<rparr>
                | (Inr u, a) \<Rightarrow> y\<lparr>app := a, flights := dset k (f\<lparr>f_kind := In_stream\<rparr>) (flights y)\<rparr>)
          else y
      | None \<Rightarrow> y)"
| "sys_step y (Stream_end k) =
     (case dget (flights y) k of
        Some f \<Rightarrow> if f_kind f = In_stream
          then y\<lparr>app := stream_end (app y) (f_identity f), flights := dpop k (flights y)\<rparr> else y
      | None \<Rightarrow> y)"
| "sys_step y (Ticket req i mnow now token) = y\<lparr>app := snd (terminal_ticket (app y) req i mnow now token)\<rparr>"
| "sys_step y (Report i now) = y\<lparr>app := snd (abuse_report_route (app y) i now (\<lambda>_. now))\<rparr>"
| "sys_step y (Internal fq fh ft) =
     y\<lparr>app := (app y)\<lparr>queue := fq (queue (app y)), past_runs := fh (past_runs (app y)), terminals := ft (terminals (app y))\<rparr>\<rparr>"

definition sys_run :: "system \<Rightarrow> request_event list \<Rightarrow> system" where
  "sys_run y evs = foldl sys_step y evs"

definition in_progress :: "system \<Rightarrow> string \<Rightarrow> nat" where
  "in_progress y n = length (filter (\<lambda>p. \<not> is_admin (f_identity (snd p)) \<and> id_name (f_identity (snd p)) = n) (flights y))"

definition streaming :: "system \<Rightarrow> nat" where
  "streaming y = length (filter (\<lambda>p. f_kind (snd p) = In_stream) (flights y))"

text \<open>
  The books are balanced: slots held are requests in progress, for the limiter and for streaming, and
  the limiter's caps hold.
\<close>

definition balanced_books :: "int \<Rightarrow> system \<Rightarrow> bool" where
  "balanced_books slots y \<longleftrightarrow> wf_dict (flights y) \<and> (\<forall>p \<in> set (flights y). fst p < next_flight y) \<and>
     (\<forall>n. held (app y) n = int (in_progress y n)) \<and> rl.caps_hold (limiter (app y)) \<and>
     stream_slots (app y) = slots - int (streaming y) \<and> 0 \<le> stream_slots (app y)"

lemma frame_fields [simp, frame_simps]:
  "stream_slots (snd (quarantined a i now)) = stream_slots a"
  "stream_slots (snd (rl_acquire a i now)) = stream_slots a"
  "stream_slots (rl_release a i) = stream_slots a"
  "stream_slots (snd (finalize a n req fs res rid created now)) = stream_slots a"
  by (simp_all add: quarantined_def rl_acquire_def rl_release_def finalize_def Let_def split: prod.splits sum.splits)

lemma prepare_slots [simp, frame_simps]: "stream_slots (snd (prepare a req i now)) = stream_slots a"
proof -
  obtain q a1 where q: "quarantined a i now = (q, a1)" by fastforce
  with frame_fields(1) [of a i now] have "stream_slots a1 = stream_slots a" by simp
  with q show ?thesis by (simp add: prepare_def split: sum.splits prod.splits)
qed

lemma enter_slots [simp, frame_simps]: "stream_slots (snd (enter a req i now)) = stream_slots a"
  using prepare_slots [of a req i now] frame_fields(2) [of "snd (prepare a req i now)" i now]
  by (cases "prepare a req i now"; cases "rl_acquire (snd (prepare a req i now)) i now")
     (auto simp: enter_def simp del: frame_fields prepare_slots split: sum.splits)

lemma rl_acquire_caps: "rl.caps_hold (limiter a) \<Longrightarrow> rl.caps_hold (limiter (snd (rl_acquire a i now)))"
  using rl.caps_hold_take [of "limiter a" "id_name i" now] by (auto simp: rl_acquire_def split: prod.splits)

lemma rl_release_caps: "rl.caps_hold (limiter a) \<Longrightarrow> rl.caps_hold (limiter (rl_release a i))"
  by (simp add: rl_release_def rl.caps_hold_give)

lemma enter_caps: "rl.caps_hold (limiter a) \<Longrightarrow> rl.caps_hold (limiter (snd (enter a req i now)))"
  using prepare_limiter [of a req i now] rl_acquire_caps [of "snd (prepare a req i now)" i now]
  by (cases "prepare a req i now"; cases "rl_acquire (snd (prepare a req i now)) i now")
     (auto simp: enter_def simp del: prepare_limiter split: sum.splits)

lemma held_nonneg: "rl.caps_hold (limiter a) \<Longrightarrow> 0 \<le> held a n"
  by (simp add: rl.caps_hold_def)

text \<open>A request that got its slot and took off is one more in progress.\<close>

lemma take_off_books:
  assumes "balanced_books slots y"
    and "\<And>n. held a n = held (app y) n + (if \<not> is_admin i \<and> n = id_name i then 1 else 0)"
    and "rl.caps_hold (limiter a)"
    and "stream_slots a = stream_slots (app y) - (if kind = In_stream then 1 else 0)" "0 \<le> stream_slots a"
  shows "balanced_books slots (take_off y a i kind req fs)"
proof -
  have fresh: "dget (flights y) (next_flight y) = None"
    using assms(1) by (fastforce simp: balanced_books_def map_of_eq_None_iff)
  have w: "wf_dict (flights y)" using assms(1) by (simp add: balanced_books_def)
  have fl: "flights (take_off y a i kind req fs) =
      flights y @ [(next_flight y, \<lparr>f_identity = i, f_kind = kind, f_request = req, f_files = fs\<rparr>)]"
    by (simp add: take_off_def dset_fresh [OF fresh])
  have "wf_dict (flights (take_off y a i kind req fs))" using w by (simp add: take_off_def)
  with assms fl show ?thesis
    by (auto simp: balanced_books_def in_progress_def streaming_def) (auto simp: take_off_def)
qed

lemma length_filter_dpop:
  "wf_dict d \<Longrightarrow> dget d k = Some v \<Longrightarrow>
   length (filter P d) = length (filter P (dpop k d)) + (if P (k, v) then 1 else 0)"
proof (induction d)
  case (Cons p d)
  show ?case
  proof (cases "fst p = k")
    case True
    with Cons.prems have "dget d k = None" "p = (k, v)" by (cases p; auto simp: wf_dict_def map_of_eq_None_iff)+
    with True show ?thesis by (simp add: length_dpop_new)
  next
    case False
    with Cons show ?thesis by (cases p) (auto simp: wf_dict_def)
  qed
qed simp

text \<open>And one that has landed and given its slots back is one less.\<close>

lemma landed_books:
  assumes b: "balanced_books slots y" and f: "dget (flights y) k = Some f"
    and h: "\<And>n. held a n = (if \<not> is_admin (f_identity f) \<and> n = id_name (f_identity f)
        then max 0 (held (app y) n - 1) else held (app y) n)"
    and "rl.caps_hold (limiter a)"
    and s: "stream_slots a = stream_slots (app y) + (if f_kind f = In_stream then 1 else 0)"
  shows "balanced_books slots (y\<lparr>app := a, flights := dpop k (flights y)\<rparr>)"
proof -
  have w: "wf_dict (flights y)" using b by (simp add: balanced_books_def)
  note less = length_filter_dpop [OF w f]
  have sub: "set (dpop k (flights y)) \<subseteq> set (flights y)" by (auto simp: AList.delete_eq)
  have "held a n = int (in_progress (y\<lparr>app := a, flights := dpop k (flights y)\<rparr>) n)" for n
    using b h [of n] less [of "\<lambda>p. \<not> is_admin (f_identity (snd p)) \<and> id_name (f_identity (snd p)) = n"]
    by (auto simp: balanced_books_def in_progress_def split: if_splits)
  moreover have "stream_slots a = slots - int (streaming (y\<lparr>app := a, flights := dpop k (flights y)\<rparr>))"
    using b s less [of "\<lambda>p. f_kind (snd p) = In_stream"]
    by (auto simp: balanced_books_def streaming_def split: if_splits)
  ultimately show ?thesis
    using b s sub assms(4) w by (auto simp: balanced_books_def)
qed

lemma same_books:
  assumes "balanced_books slots y" "\<And>n. held a n = held (app y) n" "rl.caps_hold (limiter a)"
    "stream_slots a = stream_slots (app y)"
  shows "balanced_books slots (y\<lparr>app := a\<rparr>)"
  using assms by (simp add: balanced_books_def in_progress_def streaming_def)

text \<open>What the handlers do to the books before and after their await.\<close>

lemma entered:
  assumes "enter a req i now = (r, a1)"
  shows "held a1 n = held a n + (if \<not> is_admin i \<and> n = id_name i \<and> \<not> isl r then 1 else 0)"
    and "rl.caps_hold (limiter a) \<Longrightarrow> rl.caps_hold (limiter a1)"
    and "stream_slots a1 = stream_slots a"
  using enter_held [of a req i now n] enter_caps [of a req i now] enter_slots [of a req i now] assms
  by (simp_all del: enter_slots)

lemma rl_release_undo:
  assumes "0 \<le> held a (id_name i)" "\<And>n. held a1 n = held a n + (if \<not> is_admin i \<and> n = id_name i then 1 else 0)"
  shows "held (rl_release a1 i) n = held a n"
  using assms(1) by (simp add: rl_release_held assms(2))

lemma execute_enter_books:
  assumes "execute_code_enter a req i now jid = (r, a1)" "rl.caps_hold (limiter a)"
  shows "held a1 n = held a n + (if \<not> is_admin i \<and> n = id_name i \<and> \<not> isl r then 1 else 0)"
    and "rl.caps_hold (limiter a1)" and "stream_slots a1 = stream_slots a"
proof -
  obtain r2 a2 where e: "enter a req i now = (r2, a2)" by fastforce
  note e2 = entered [OF e]
  have "(held a1 n = held a n + (if \<not> is_admin i \<and> n = id_name i \<and> \<not> isl r then 1 else 0)) \<and>
      rl.caps_hold (limiter a1) \<and> stream_slots a1 = stream_slots a"
  proof (cases r2)
    case (Inl err)
    with assms e e2 show ?thesis by (auto simp: execute_code_enter_def)
  next
    case (Inr xf)
    have up: "held a2 n = held a n + (if \<not> is_admin i \<and> n = id_name i then 1 else 0)" for n
      using e2(1) [of n] Inr by simp
    note undo = rl_release_undo [OF held_nonneg [OF assms(2)] up]
    show ?thesis
      using assms e Inr e2(2,3) up undo rl_release_caps [of a2 i]
      by (cases xf) (auto simp: execute_code_enter_def split: option.splits)
  qed
  then show "held a1 n = held a n + (if \<not> is_admin i \<and> n = id_name i \<and> \<not> isl r then 1 else 0)"
    "rl.caps_hold (limiter a1)" "stream_slots a1 = stream_slots a" by blast+
qed

lemma submit_job_books:
  assumes "submit_job a req i now jid = (r, a1)" "rl.caps_hold (limiter a)"
  shows "held a1 n = held a n + (if \<not> is_admin i \<and> n = id_name i \<and> \<not> isl r then 1 else 0)"
    and "rl.caps_hold (limiter a1)" and "stream_slots a1 = stream_slots a"
proof -
  obtain r2 a2 where e: "enter a req i now = (r2, a2)" by fastforce
  note e2 = entered [OF e]
  have "(held a1 n = held a n + (if \<not> is_admin i \<and> n = id_name i \<and> \<not> isl r then 1 else 0)) \<and>
      rl.caps_hold (limiter a1) \<and> stream_slots a1 = stream_slots a"
  proof (cases r2)
    case (Inl err)
    with assms e e2 show ?thesis by (auto simp: submit_job_def)
  next
    case (Inr xf)
    have up: "held a2 n = held a n + (if \<not> is_admin i \<and> n = id_name i then 1 else 0)" for n
      using e2(1) [of n] Inr by simp
    obtain k q where k: "submit_async (queue a2) now (fst xf) (id_name i) jid True = (k, q)" by fastforce
    have up2: "held (a2\<lparr>queue := q\<rparr>) n = held a n + (if \<not> is_admin i \<and> n = id_name i then 1 else 0)" for n
      using up by simp
    note undo = rl_release_undo [OF held_nonneg [OF assms(2)] up2]
    show ?thesis
      using assms e Inr e2(2,3) up undo k rl_release_caps [of "a2\<lparr>queue := q\<rparr>" i]
      by (cases xf; cases k) (auto simp: submit_job_def)
  qed
  then show "held a1 n = held a n + (if \<not> is_admin i \<and> n = id_name i \<and> \<not> isl r then 1 else 0)"
    "rl.caps_hold (limiter a1)" "stream_slots a1 = stream_slots a" by blast+
qed

lemma execute_leave_books:
  assumes "rl.caps_hold (limiter a)"
  shows "held (snd (execute_code_leave a req i fs fut rid created now)) n =
       (if \<not> is_admin i \<and> n = id_name i then max 0 (held a n - 1) else held a n)"
    and "rl.caps_hold (limiter (snd (execute_code_leave a req i fs fut rid created now)))"
    and "stream_slots (snd (execute_code_leave a req i fs fut rid created now)) = stream_slots a"
proof -
  have "limiter (snd (execute_code_leave a req i fs fut rid created now)) = limiter (rl_release a i) \<and>
      stream_slots (snd (execute_code_leave a req i fs fut rid created now)) = stream_slots a"
  proof (cases fut)
    case (Resolved res)
    obtain r a2 where f: "finalize (rl_release a i) (id_name i) req fs res rid created now = (r, a2)" by fastforce
    with finalize_limiter [of "rl_release a i" "id_name i" req fs res rid created now]
      frame_fields(4) [of "rl_release a i" "id_name i" req fs res rid created now]
    have "limiter a2 = limiter (rl_release a i)" "stream_slots a2 = stream_slots a" by simp_all
    with Resolved f show ?thesis by (cases r) (auto simp: execute_code_leave_def)
  qed (simp_all add: execute_code_leave_def)
  with rl_release_held [of a i n] rl_release_caps [OF assms, of i]
  show "held (snd (execute_code_leave a req i fs fut rid created now)) n =
       (if \<not> is_admin i \<and> n = id_name i then max 0 (held a n - 1) else held a n)"
    "rl.caps_hold (limiter (snd (execute_code_leave a req i fs fut rid created now)))"
    "stream_slots (snd (execute_code_leave a req i fs fut rid created now)) = stream_slots a" by simp_all
qed

lemma on_complete_books:
  assumes "rl.caps_hold (limiter a)"
  shows "held (snd (on_complete a req i fs res rid created now)) n =
       (if \<not> is_admin i \<and> n = id_name i then max 0 (held a n - 1) else held a n)"
    and "rl.caps_hold (limiter (snd (on_complete a req i fs res rid created now)))"
    and "stream_slots (snd (on_complete a req i fs res rid created now)) = stream_slots a"
proof -
  obtain r a2 where f: "finalize a (id_name i) req fs res rid created now = (r, a2)" by fastforce
  with finalize_limiter [of a "id_name i" req fs res rid created now]
    frame_fields(4) [of a "id_name i" req fs res rid created now]
  have l: "limiter a2 = limiter a" "stream_slots a2 = stream_slots a" by simp_all
  have s: "snd (on_complete a req i fs res rid created now) = rl_release a2 i"
    using f by (cases r) (auto simp: on_complete_def)
  show "held (snd (on_complete a req i fs res rid created now)) n =
       (if \<not> is_admin i \<and> n = id_name i then max 0 (held a n - 1) else held a n)"
    using l by (simp add: s rl_release_held)
  show "rl.caps_hold (limiter (snd (on_complete a req i fs res rid created now)))"
    using assms l by (simp add: s rl_release_caps)
  show "stream_slots (snd (on_complete a req i fs res rid created now)) = stream_slots a"
    using l by (simp add: s)
qed

lemma quarantined_slots:
  assumes "quarantined a i now = (q, a1)"
  shows "limiter a1 = limiter a" "stream_slots a1 = stream_slots a"
  using quarantined_limiter [of a i now] frame_fields(1) [of a i now] assms by simp_all

lemma ticket_frame [simp, frame_simps]:
  "limiter (snd (terminal_ticket a req i mnow now token)) = limiter a"
  "stream_slots (snd (terminal_ticket a req i mnow now token)) = stream_slots a"
  by (auto simp: terminal_ticket_def split: prod.splits option.splits dest: quarantined_slots)

lemma report_frame [simp, frame_simps]:
  "limiter (snd (abuse_report_route a i now later)) = limiter a"
  "stream_slots (snd (abuse_report_route a i now later)) = stream_slots a"
  by (simp_all add: abuse_report_route_def split: sum.splits prod.splits)

lemma books_caps: "balanced_books slots y \<Longrightarrow> rl.caps_hold (limiter (app y))"
  by (simp add: balanced_books_def)

lemma books_slots: "balanced_books slots y \<Longrightarrow> 0 \<le> stream_slots (app y)"
  by (simp add: balanced_books_def)

lemma length_filter_dset:
  "wf_dict d \<Longrightarrow> dget d k = Some v \<Longrightarrow>
   length (filter P (dset k u d)) + (if P (k, v) then 1 else 0) = length (filter P d) + (if P (k, u) then 1 else 0)"
proof (induction d)
  case (Cons p d)
  then show ?case by (cases p) (auto simp: wf_dict_def)
qed simp

text \<open>A stream whose generator takes a streaming slot keeps its place among the requests in progress.\<close>

lemma opened_books:
  assumes b: "balanced_books slots y" and f: "dget (flights y) k = Some f" "f_kind f = Opening"
    and s: "0 < stream_slots (app y)"
  shows "balanced_books slots (y\<lparr>app := (app y)\<lparr>stream_slots := stream_slots (app y) - 1\<rparr>,
    flights := dset k (f\<lparr>f_kind := In_stream\<rparr>) (flights y)\<rparr>)" (is "balanced_books slots ?z")
proof -
  have w: "wf_dict (flights y)" using b by (simp add: balanced_books_def)
  note len = length_filter_dset [OF w f(1), of _ "f\<lparr>f_kind := In_stream\<rparr>"]
  have "in_progress ?z n = in_progress y n" for n
    using len [of "\<lambda>p. \<not> is_admin (f_identity (snd p)) \<and> id_name (f_identity (snd p)) = n"]
    by (simp add: in_progress_def split: if_splits)
  moreover have "streaming ?z = streaming y + 1"
    using len [of "\<lambda>p. f_kind (snd p) = In_stream"] f(2) by (simp add: streaming_def)
  moreover have "fst p < next_flight y" if "p \<in> set (dset k (f\<lparr>f_kind := In_stream\<rparr>) (flights y))" for p
  proof -
    have "(k, f) \<in> set (flights y)" using w f(1) by (simp add: dget_in_set)
    moreover have "p \<in> set (dset k u d) \<Longrightarrow> fst p = k \<or> p \<in> set d" for u d
      by (induction d) (auto split: if_splits)
    then have "fst p = k \<or> p \<in> set (flights y)" using that by blast
    ultimately show ?thesis using b by (auto simp: balanced_books_def)
  qed
  ultimately show ?thesis using b s by (simp add: balanced_books_def)
qed

lemma sys_step_books:
  assumes b: "balanced_books slots y"
  shows "balanced_books slots (sys_step y ev)"
proof (cases ev)
  case (Execute req i now jid)
  obtain r a where e: "execute_code_enter (app y) req i now jid = (r, a)" by fastforce
  note e1 = execute_enter_books [OF e books_caps [OF b]]
  show ?thesis
    using e same_books [OF b, of a] take_off_books [OF b, of a i Awaiting] e1 books_slots [OF b]
    by (cases r) (auto simp: Execute)
next
  case (Job req i now jid)
  obtain r a where e: "submit_job (app y) req i now jid = (r, a)" by fastforce
  note e1 = submit_job_books [OF e books_caps [OF b]]
  show ?thesis
    using e same_books [OF b, of a] take_off_books [OF b, of a i In_job] e1 books_slots [OF b]
    by (cases r) (auto simp: Job)
next
  case (Execute_end k fut rid created now)
  show ?thesis
    using b landed_books [OF b, of k] execute_leave_books [OF books_caps [OF b]]
    by (auto simp: Execute_end split: option.splits)
next
  case (Job_hook k res rid created now)
  show ?thesis
    using b landed_books [OF b, of k] on_complete_books [OF books_caps [OF b]]
    by (auto simp: Job_hook split: option.splits)
next
  case (Stream req i now)
  obtain r a where e: "enter (app y) req i now = (r, a)" by fastforce
  note e1 = entered [OF e]
  show ?thesis
    using e same_books [OF b, of a] take_off_books [OF b, of a i Opening] e1 books_slots [OF b] books_caps [OF b]
    by (cases r) (auto simp: Stream)
next
  case (Stream_start k)
  show ?thesis
  proof (cases "\<exists>f. dget (flights y) k = Some f \<and> f_kind f = Opening")
    case True
    then obtain f where f: "dget (flights y) k = Some f" "f_kind f = Opening" by blast
    have "balanced_books slots (y\<lparr>app := rl_release (app y) (f_identity f), flights := dpop k (flights y)\<rparr>)"
      by (rule landed_books [OF b f(1)]) (use f rl_release_caps [OF books_caps [OF b]] in \<open>auto simp: rl_release_held\<close>)
    with opened_books [OF b f] f show ?thesis by (simp add: Stream_start stream_begin_def)
  next
    case False
    with b show ?thesis by (auto simp: Stream_start split: option.splits)
  qed
next
  case (Stream_end k)
  have "held (stream_end (app y) j) n =
      (if \<not> is_admin j \<and> n = id_name j then max 0 (held (app y) n - 1) else held (app y) n)"
    "rl.caps_hold (limiter (stream_end (app y) j))"
    "stream_slots (stream_end (app y) j) = stream_slots (app y) + 1" for j n
    using rl_release_caps [of "app y\<lparr>stream_slots := stream_slots (app y) + 1\<rparr>" j] books_caps [OF b]
    by (simp_all add: stream_end_def rl_release_held)
  with b landed_books [OF b, of k] show ?thesis
    by (auto simp: Stream_end split: option.splits)
qed (use same_books [OF b] books_caps [OF b] in simp_all)

lemma sys_run_books: "balanced_books slots y \<Longrightarrow> balanced_books slots (sys_run y evs)"
  unfolding sys_run_def by (induction evs arbitrary: y) (simp_all add: sys_step_books del: sys_step.simps)

text \<open>No step changes the limiter's cap.\<close>

definition cap_of :: "app_state \<Rightarrow> int" where
  "cap_of a = max_inflight (limiter a)"

lemma acquire_cap: "acquire l i now = (r, l1) \<Longrightarrow> max_inflight l1 = max_inflight l"
  by (metis acquire_config(2) snd_conv)

lemma cap_frames [simp]:
  "cap_of (snd (rl_acquire a i now)) = cap_of a" "cap_of (rl_release a i) = cap_of a"
  "cap_of (a\<lparr>queue := q\<rparr>) = cap_of a" "cap_of (a\<lparr>stream_slots := k\<rparr>) = cap_of a"
  "cap_of (snd (prepare a req i now)) = cap_of a"
  "cap_of (snd (finalize a m req fs res rid created now)) = cap_of a"
  by (auto simp: cap_of_def rl_acquire_def rl_release_def dest: acquire_cap split: prod.splits)

lemma cap_enter: "enter a req i now = (r, a1) \<Longrightarrow> cap_of a1 = cap_of a"
  using cap_frames(5) [of a req i now] cap_frames(1) [of "snd (prepare a req i now)" i now]
  by (cases "prepare a req i now"; cases "rl_acquire (snd (prepare a req i now)) i now")
    (auto simp: enter_def simp del: cap_frames split: sum.splits)

lemma cap_execute: "execute_code_enter a req i now jid = (r, a1) \<Longrightarrow> cap_of a1 = cap_of a"
  by (auto simp: execute_code_enter_def dest: cap_enter split: prod.splits sum.splits option.splits)

lemma cap_submit: "submit_job a req i now jid = (r, a1) \<Longrightarrow> cap_of a1 = cap_of a"
  by (auto simp: submit_job_def dest: cap_enter split: prod.splits sum.splits option.splits)

lemma cap_leave: "cap_of (snd (execute_code_leave a req i fs fut rid created now)) = cap_of a"
proof (cases fut)
  case (Resolved res)
  obtain r a2 where f: "finalize (rl_release a i) (id_name i) req fs res rid created now = (r, a2)" by fastforce
  with cap_frames(6) [of "rl_release a i" "id_name i" req fs res rid created now] have "cap_of a2 = cap_of a" by simp
  with Resolved f show ?thesis by (cases r) (auto simp: execute_code_leave_def)
qed (simp_all add: execute_code_leave_def)

lemma cap_complete: "cap_of (snd (on_complete a req i fs res rid created now)) = cap_of a"
proof -
  obtain r a2 where f: "finalize a (id_name i) req fs res rid created now = (r, a2)" by fastforce
  with cap_frames(6) [of a "id_name i" req fs res rid created now] have "cap_of a2 = cap_of a" by simp
  with f show ?thesis by (cases r) (auto simp: on_complete_def)
qed

lemma sys_step_cap: "max_inflight (limiter (app (sys_step y ev))) = max_inflight (limiter (app y))"
  unfolding cap_of_def [symmetric]
proof (cases ev)
  case (Stream_start k)
  then show "cap_of (app (sys_step y ev)) = cap_of (app y)"
    by (auto simp: stream_begin_def split: option.splits)
next
  case (Ticket req i mnow now token)
  then show "cap_of (app (sys_step y ev)) = cap_of (app y)" by (simp add: cap_of_def)
next
  case (Report i now)
  then show "cap_of (app (sys_step y ev)) = cap_of (app y)" by (simp add: cap_of_def)
next
  case (Internal fq fh ft)
  then show "cap_of (app (sys_step y ev)) = cap_of (app y)" by (simp add: cap_of_def)
qed (auto simp: take_off_def stream_end_def cap_leave cap_complete dest: cap_execute cap_submit cap_enter
    split: prod.splits sum.splits option.splits)

end
