(* ===== verification/Janitor.thy ===== *)
theory Janitor
  imports Exec
begin

text \<open>
  \<^verbatim>\<open>app/executor/runner.py\<close>, housekeeping: bounding the build caches and removing what
  crashed runs left behind. The order in which the operating system lists a directory and walks a
  tree, and the modification times, are parameters.
\<close>

section \<open>Build caches\<close>

text \<open>\<open>walk d f\<close>: the regular files below \<open>d\<close>, in the order \<open>os.walk\<close> reports them.\<close>

definition dir_size :: "(path \<Rightarrow> fs \<Rightarrow> path list) \<Rightarrow> path \<Rightarrow> fs \<Rightarrow> int" where
  "dir_size walk d f =
     sum_list (map (\<lambda>p. case f p of Some (File bs) \<Rightarrow> int (length bs) | _ \<Rightarrow> 0) (walk d f))"

fun evict_loop :: "(path \<Rightarrow> fs \<Rightarrow> path list) \<Rightarrow> int \<Rightarrow> path list \<Rightarrow> int \<Rightarrow> fs \<Rightarrow> int \<times> fs" where
  "evict_loop walk max_bytes [] evicted f = (evicted, f)"
| "evict_loop walk max_bytes (sub # subs) evicted f =
     (if f sub = Some Dir \<and> max_bytes < dir_size walk sub f
      then evict_loop walk max_bytes subs (evicted + 1) (rmtree sub f)
      else evict_loop walk max_bytes subs evicted f)"

definition enforce_cache_limit ::
  "settings \<Rightarrow> (path \<Rightarrow> fs \<Rightarrow> string list) \<Rightarrow> (path \<Rightarrow> fs \<Rightarrow> path list) \<Rightarrow> int \<Rightarrow> fs \<Rightarrow> int \<times> fs" where
  "enforce_cache_limit S listing walk max_bytes f =
     (if f (CACHE_DIR S) = None \<or> max_bytes \<le> 0 then (0, f)
      else evict_loop walk max_bytes (map (path_join (CACHE_DIR S)) (listing (CACHE_DIR S) f)) 0 f)"

section \<open>Orphaned runs\<close>

text \<open>One phase's container: its deletion is tried when its state directory exists.\<close>

definition sweep_phase :: "settings \<Rightarrow> host \<Rightarrow> path \<Rightarrow> string \<Rightarrow> string \<Rightarrow> string \<Rightarrow> unit act" where
  "sweep_phase S H d rid phase sfx w =
     (let st = path_join (path_join d phase) ''state''
      in if files w st \<noteq> None then delete_container S H st (rid @ sfx) w else (Inr (), w))"

definition sweep_run :: "settings \<Rightarrow> host \<Rightarrow> string \<Rightarrow> unit act" where
  "sweep_run S H rid =
     (let d = path_join (RUNS_DIR S) rid
      in bind_act (sweep_phase S H d rid ''compile'' ''-c'') (\<lambda>_.
         bind_act (sweep_phase S H d rid ''run'' ''-r'') (\<lambda>_.
         (\<lambda>w. (Inr (), w\<lparr>files := rmtree d (files w)\<rparr>)))))"

text \<open>Whether the sweep passes over a directory: too young, or its age cannot be read.\<close>

definition sweep_skips :: "real option \<Rightarrow> real \<Rightarrow> real option \<Rightarrow> bool" where
  "sweep_skips max_age now mtime = (case max_age of None \<Rightarrow> False
     | Some age \<Rightarrow> (case mtime of None \<Rightarrow> True | Some t \<Rightarrow> now - t < age))"

fun sweep_loop ::
  "settings \<Rightarrow> host \<Rightarrow> real option \<Rightarrow> real \<Rightarrow> (string \<Rightarrow> real option) \<Rightarrow> string list \<Rightarrow> int \<Rightarrow> int act" where
  "sweep_loop S H max_age now mtime [] n = ret n"
| "sweep_loop S H max_age now mtime (rid # rids) n =
     (if sweep_skips max_age now (mtime rid) then sweep_loop S H max_age now mtime rids n
      else bind_act (sweep_run S H rid) (\<lambda>_. sweep_loop S H max_age now mtime rids (n + 1)))"

definition sweep_orphans ::
  "settings \<Rightarrow> host \<Rightarrow> (path \<Rightarrow> fs \<Rightarrow> string list) \<Rightarrow> real \<Rightarrow> (string \<Rightarrow> real option) \<Rightarrow> real option \<Rightarrow> int act" where
  "sweep_orphans S H listing now mtime max_age w =
     (if files w (RUNS_DIR S) = None then (Inr 0, w)
      else sweep_loop S H max_age now mtime (listing (RUNS_DIR S) (files w)) 0 w)"

section \<open>Sweeping\<close>

lemma sweep_phase_files [simp]: "files (snd (sweep_phase S H d rid ph sf w)) = files w"
  by (simp add: sweep_phase_def delete_container_def control_def Let_def split: option.splits)

text \<open>What sweeping one run does to the files, whether or not a deletion raises.\<close>

lemma sweep_run_files:
  "files (snd (sweep_run S H rid w)) = files w \<and> isl (fst (sweep_run S H rid w)) \<or>
   files (snd (sweep_run S H rid w)) = rmtree (path_join (RUNS_DIR S) rid) (files w) \<and> fst (sweep_run S H rid w) = Inr ()"
proof -
  let ?d = "path_join (RUNS_DIR S) rid"
  obtain r1 w1 where a: "sweep_phase S H ?d rid ''compile'' ''-c'' w = (r1, w1)" by fastforce
  obtain r2 w2 where b: "sweep_phase S H ?d rid ''run'' ''-r'' w1 = (r2, w2)" by fastforce
  from sweep_phase_files [of S H ?d rid "''compile''" "''-c''" w] a have "files w1 = files w" by simp
  moreover from sweep_phase_files [of S H ?d rid "''run''" "''-r''" w1] b have "files w2 = files w1" by simp
  ultimately show ?thesis
    using a b by (cases r1; cases r2) (auto simp: sweep_run_def bind_act_def Let_def)
qed

lemma plain_siblings:
  "plain_segment x \<Longrightarrow> plain_segment y \<Longrightarrow> x \<noteq> y \<Longrightarrow> \<not> prefix (path_join d x) (path_join d y @ q)"
  by (simp add: path_join_plain)

lemma sweep_loop_keeps:
  assumes "list_all plain_segment rids" "plain_segment y" "sweep_skips max_age now (mtime y)"
  shows "files (snd (sweep_loop S H max_age now mtime rids n w)) (path_join (RUNS_DIR S) y @ q) =
    files w (path_join (RUNS_DIR S) y @ q)"
  using assms(1)
proof (induction rids arbitrary: n w)
  case (Cons x rids)
  show ?case
  proof (cases "sweep_skips max_age now (mtime x)")
    case True
    with Cons show ?thesis by simp
  next
    case False
    with assms(3) have ne: "x \<noteq> y" by auto
    have np: "\<not> prefix (path_join (RUNS_DIR S) x) (path_join (RUNS_DIR S) y @ q)"
      using Cons.prems assms(2) ne by (intro plain_siblings) simp_all
    obtain r w1 where s: "sweep_run S H x w = (r, w1)" by fastforce
    from sweep_run_files [of S H x w] s np have "files w1 (path_join (RUNS_DIR S) y @ q) = files w (path_join (RUNS_DIR S) y @ q)"
      by (auto simp: rmtree_other)
    with s False Cons show ?thesis by (cases r) (auto simp: bind_act_def)
  qed
qed (simp add: ret_def)

lemma sweep_loop_removes:
  assumes "fst (sweep_loop S H None now mtime rids n w) = Inr m"
  shows "files (snd (sweep_loop S H None now mtime rids n w)) p =
    (if \<exists>x \<in> set rids. prefix (path_join (RUNS_DIR S) x) p then None else files w p) \<and> m = n + int (length rids)"
  using assms
proof (induction rids arbitrary: n w)
  case (Cons x rids)
  obtain r w1 where s: "sweep_run S H x w = (r, w1)" by fastforce
  with Cons.prems have r: "r = Inr ()" by (cases r) (auto simp: bind_act_def sweep_skips_def)
  from sweep_run_files [of S H x w] s r have f: "files w1 = rmtree (path_join (RUNS_DIR S) x) (files w)" by auto
  from Cons.prems s r have "fst (sweep_loop S H None now mtime rids (n + 1) w1) = Inr m"
    by (simp add: bind_act_def sweep_skips_def)
  from Cons.IH [OF this] s r f show ?case
    by (auto simp: bind_act_def sweep_skips_def rmtree_def)
qed (simp add: ret_def)

text \<open>A sweep never creates a file, and what it removes stays removed.\<close>

lemma sweep_run_shrinks: "files w p = None \<Longrightarrow> files (snd (sweep_run S H x w)) p = None"
  using sweep_run_files [of S H x w] by (auto simp: rmtree_def)

lemma sweep_loop_shrinks: "files w p = None \<Longrightarrow> files (snd (sweep_loop S H mx now mtime rids n w)) p = None"
proof (induction rids arbitrary: n w)
  case (Cons x rids)
  obtain r w1 where s: "sweep_run S H x w = (r, w1)" by fastforce
  with sweep_run_shrinks [OF Cons.prems, of S H x] have "files w1 p = None" by simp
  with s Cons show ?case by (cases r) (auto simp: bind_act_def)
qed (simp add: ret_def)

lemma sweep_loop_old:
  assumes "fst (sweep_loop S H mx now mtime rids n w) = Inr m" "x \<in> set rids" "\<not> sweep_skips mx now (mtime x)"
    and "prefix (path_join (RUNS_DIR S) x) p"
  shows "files (snd (sweep_loop S H mx now mtime rids n w)) p = None"
  using assms(1,2)
proof (induction rids arbitrary: n w)
  case (Cons y rids)
  show ?case
  proof (cases "sweep_skips mx now (mtime y)")
    case True
    with Cons assms(3) show ?thesis by auto
  next
    case False
    obtain r w1 where s: "sweep_run S H y w = (r, w1)" by fastforce
    with Cons.prems False obtain u where r: "r = Inr u" by (cases r) (auto simp: bind_act_def)
    have rest: "fst (sweep_loop S H mx now mtime rids (n + 1) w1) = Inr m"
      using Cons.prems(1) False s r by (simp add: bind_act_def)
    have "files (snd (sweep_loop S H mx now mtime rids (n + 1) w1)) p = None"
    proof (cases "x = y")
      case True
      with sweep_run_files [of S H y w] s r assms(4) have "files w1 p = None"
        by (auto simp: rmtree_def)
      then show ?thesis by (rule sweep_loop_shrinks)
    next
      case ne: False
      with Cons.IH [OF rest] Cons.prems(2) show ?thesis by auto
    qed
    with False s r show ?thesis by (simp add: bind_act_def)
  qed
qed simp

section \<open>Properties\<close>

text \<open>
  C34. The janitor while the server is live. A periodic sweep leaves every file of a run directory
  that is younger than the limit as it was, however the other directories are swept.
\<close>

theorem sweep_keeps_young:
  assumes "list_all plain_segment (listing (RUNS_DIR S) (files w))" and "plain_segment rid"
    and "mtime rid = Some t" and "now - t < age"
  shows "files (snd (sweep_orphans S H listing now mtime (Some age) w)) (path_join (RUNS_DIR S) rid @ q) =
         files w (path_join (RUNS_DIR S) rid @ q)"
  using assms sweep_loop_keeps [OF assms(1,2), of "Some age" now mtime S H 0 w q]
  by (simp add: sweep_orphans_def sweep_skips_def)

theorem sweep_keeps_young_witness:
  "files (snd (sweep_orphans example_settings (example_host (Some 0) []) (\<lambda>d f. [''run-1'', ''run-2'']) 1000
      [''run-1'' \<mapsto> 100, ''run-2'' \<mapsto> 900] (Some 300)
      \<lparr>files = (\<lambda>p. Some Dir), done_log = []\<rparr>)) (path_join (RUNS_DIR example_settings) ''run-2'' @ [''src'']) = Some Dir"
  by (subst sweep_keeps_young [where t = 900]) (simp_all add: plain_segment_def)

text \<open>
  The janitor at startup. When the sweep without an age limit finishes, everything below each
  listed run directory is gone, nothing else has changed, and the count is the number of directories.
\<close>

theorem sweep_startup_clears:
  assumes "files w (RUNS_DIR S) = Some Dir"
    and "fst (sweep_orphans S H listing now mtime None w) = Inr n"
  shows "files (snd (sweep_orphans S H listing now mtime None w)) p =
           (if \<exists>x \<in> set (listing (RUNS_DIR S) (files w)). prefix (path_join (RUNS_DIR S) x) p then None
            else files w p) \<and>
         n = int (length (listing (RUNS_DIR S) (files w)))"
  using assms sweep_loop_removes [of S H now mtime "listing (RUNS_DIR S) (files w)" 0 w n p]
  by (simp add: sweep_orphans_def)

theorem sweep_startup_clears_witness:
  "files (snd (sweep_orphans example_settings (example_host (Some 0) []) (\<lambda>d f. [''run-1'', ''run-2'']) 1000
      (\<lambda>_. None) None \<lparr>files = (\<lambda>p. Some Dir), done_log = []\<rparr>)) [''sb'', ''runs'', ''run-2'', ''src''] = None"
proof -
  let ?w = "\<lparr>files = (\<lambda>p. Some Dir), done_log = []\<rparr>" and ?l = "\<lambda>d f. [''run-1'', ''run-2'']"
  have r: "path_join (RUNS_DIR example_settings) ''run-2'' = [''sb'', ''runs'', ''run-2'']"
    by (simp add: RUNS_DIR_def example_settings_def path_join_plain plain_segment_def)
  have "fst (sweep_orphans example_settings (example_host (Some 0) []) ?l 1000 (\<lambda>_. None) None ?w) = Inr 2"
    by (simp add: sweep_orphans_def sweep_skips_def sweep_run_def bind_act_def sweep_phase_def Let_def
        delete_container_def control_def example_host_def ret_def)
  from sweep_startup_clears [OF _ this, of "[''sb'', ''runs'', ''run-2'', ''src'']"] show ?thesis
    by (simp add: r)
qed

text \<open>
  The sweep looks for a container's state only in the two phase directories, so a directory with its
  state elsewhere, as a terminal session's and a retried attempt's is, is removed without its
  container being deleted.
\<close>

lemma sweep_misses_other_states:
  assumes "files w (path_join (path_join (path_join (RUNS_DIR S) rid) ''compile'') ''state'') = None"
    and "files w (path_join (path_join (path_join (RUNS_DIR S) rid) ''run'') ''state'') = None"
  shows "sweep_run S H rid w = (Inr (), w\<lparr>files := rmtree (path_join (RUNS_DIR S) rid) (files w)\<rparr>)"
  using assms by (simp add: sweep_run_def bind_act_def sweep_phase_def Let_def)

text \<open>A walk that depends only on what is below the directory it walks.\<close>

definition local_walk :: "(path \<Rightarrow> fs \<Rightarrow> path list) \<Rightarrow> bool" where
  "local_walk walk \<longleftrightarrow> (\<forall>d f g. (\<forall>q. f (d @ q) = g (d @ q)) \<longrightarrow> walk d f = walk d g) \<and>
     (\<forall>d f. \<forall>p \<in> set (walk d f). prefix d p)"

lemma dir_size_local:
  assumes "local_walk walk" "\<And>q. f (d @ q) = g (d @ q)"
  shows "dir_size walk d f = dir_size walk d g"
proof -
  have "walk d f = walk d g" using assms by (simp add: local_walk_def)
  moreover have "f p = g p" if "p \<in> set (walk d g)" for p
  proof -
    have "prefix d p" using that assms(1) by (auto simp: local_walk_def)
    then obtain q where "p = d @ q" by (auto elim: prefixE)
    with assms(2) show ?thesis by simp
  qed
  ultimately show ?thesis by (simp add: dir_size_def cong: map_cong)
qed

lemma evict_other:
  assumes "\<forall>x \<in> set subs. \<not> prefix x p"
  shows "snd (evict_loop walk mx subs n f) p = f p"
  using assms
proof (induction subs arbitrary: n f)
  case (Cons s subs)
  then show ?case by (simp add: rmtree_other)
qed simp

lemma evict_bounded:
  assumes "local_walk walk" "0 < mx" "distinct subs" "\<forall>x \<in> set subs. \<forall>q. \<forall>y \<in> set subs. prefix x (y @ q) \<longrightarrow> x = y" "s \<in> set subs"
  shows "snd (evict_loop walk mx subs n f) s \<noteq> Some Dir \<or>
    dir_size walk s (snd (evict_loop walk mx subs n f)) \<le> mx"
  using assms(3-)
proof (induction subs arbitrary: n f)
  case (Cons x subs)
  have disj: "\<not> prefix y (x @ q)" if "y \<in> set subs" for y q
    using Cons.prems(1,2) that by auto
  show ?case
  proof (cases "s = x")
    case False
    with Cons show ?thesis by auto
  next
    case True
    have kept: "snd (evict_loop walk mx subs m g) (x @ q) = g (x @ q)" for m g q
      using disj by (intro evict_other) blast
    show ?thesis
    proof (cases "f x = Some Dir \<and> mx < dir_size walk x f")
      case gone: True
      with kept [of "n + 1" "rmtree x f" "[]"] show ?thesis by (simp add: True rmtree_gone)
    next
      case False
      have "dir_size walk x (snd (evict_loop walk mx subs n f)) = dir_size walk x f"
        using assms(1) kept by (intro dir_size_local) auto
      with False kept [of n f "[]"] show ?thesis by (auto simp: True)
    qed
  qed
qed simp

lemma evict_shrinks: "f p = None \<Longrightarrow> snd (evict_loop walk mx subs n f) p = None"
  by (induction subs arbitrary: n f) (auto simp: rmtree_def)

lemma enforce_shrinks: "f p = None \<Longrightarrow> snd (enforce_cache_limit S listing walk mx f) p = None"
  by (simp add: enforce_cache_limit_def evict_shrinks)

text \<open>
  Bounded caches. After the limit was enforced no entry of the cache directory is a directory
  with more bytes than the limit. The entries are the languages' caches only while caches are shared:
  with one cache per identity an entry is all of an identity's caches together.
\<close>

theorem cache_limit_enforced:
  assumes "local_walk walk" and "0 < max_bytes" and "f (CACHE_DIR S) = Some Dir"
    and "distinct (listing (CACHE_DIR S) f)" and "list_all plain_segment (listing (CACHE_DIR S) f)"
    and "x \<in> set (listing (CACHE_DIR S) f)"
  shows "case snd (enforce_cache_limit S listing walk max_bytes f) (path_join (CACHE_DIR S) x) of
           Some Dir \<Rightarrow> dir_size walk (path_join (CACHE_DIR S) x)
                         (snd (enforce_cache_limit S listing walk max_bytes f)) \<le> max_bytes
         | _ \<Rightarrow> True"
proof -
  let ?subs = "map (path_join (CACHE_DIR S)) (listing (CACHE_DIR S) f)"
  have j: "path_join (CACHE_DIR S) y = CACHE_DIR S @ [y]" if "y \<in> set (listing (CACHE_DIR S) f)" for y
    using that assms(5) by (simp add: list_all_iff path_join_plain)
  have "distinct ?subs"
    using assms(4) j by (auto simp: distinct_map intro!: inj_onI)
  moreover have "\<forall>y \<in> set ?subs. \<forall>q. \<forall>z \<in> set ?subs. prefix y (z @ q) \<longrightarrow> y = z"
    using j by auto
  ultimately show ?thesis
    using evict_bounded [OF assms(1,2), of ?subs "path_join (CACHE_DIR S) x" 0 f] assms(2,3,6)
    by (auto simp: enforce_cache_limit_def split: option.splits node.splits)
qed

definition full_cache :: fs where
  "full_cache = (\<lambda>p. if p = path_join (CACHE_DIR example_settings) ''go'' @ [''x''] then Some (File (replicate 20 0))
     else Some Dir)"

theorem cache_limit_enforced_witness:
  "case snd (enforce_cache_limit example_settings (\<lambda>d f. [''go'']) (\<lambda>d f. [d @ [''x'']]) 10 full_cache)
       (path_join (CACHE_DIR example_settings) ''go'') of
     Some Dir \<Rightarrow> dir_size (\<lambda>d f. [d @ [''x'']]) (path_join (CACHE_DIR example_settings) ''go'')
       (snd (enforce_cache_limit example_settings (\<lambda>d f. [''go'']) (\<lambda>d f. [d @ [''x'']]) 10 full_cache)) \<le> 10
   | _ \<Rightarrow> True"
proof (rule cache_limit_enforced)
  show "full_cache (CACHE_DIR example_settings) = Some Dir"
    by (simp add: full_cache_def CACHE_DIR_def path_join_plain plain_segment_def)
qed (simp_all add: local_walk_def plain_segment_def)

end
