(* ===== verification/App.thy ===== *)
theory App
  imports Accounting Janitor
begin

text \<open>
  \<^verbatim>\<open>app/main.py\<close>: the application's life. Starting it sweeps what a crash left behind and builds
  the state the handlers share; the janitor's loop does one tick at a time; stopping closes the
  terminals, drains the queue and closes the database. The state is the one without Redis.
\<close>

section \<open>Configuration\<close>

text \<open>The numbers the modules read from the environment.\<close>

record app_config = terminal_settings +
  JANITOR_INTERVAL_S :: real
  JANITOR_MAX_AGE_S :: real
  TERMINAL_MAX_TOTAL :: int
  TERMINAL_PER_USER :: int
  WORKERS :: nat
  QUEUE_DEPTH :: int
  JOB_TTL_S :: real
  RATE_PER_MIN :: int
  MAX_INFLIGHT :: int
  ABUSE_THRESHOLD :: int
  ABUSE_WINDOW_S :: real
  CACHE_MAX_BYTES :: int
  PERSIST :: bool

abbreviation settings_of :: "app_config \<Rightarrow> settings" where
  "settings_of C \<equiv> settings.truncate C"

section \<open>Start\<close>

definition start_app :: "app_config \<Rightarrow> row list \<Rightarrow> app_state" where
  "start_app C past = \<lparr>
     limiter = new_limiter (RATE_PER_MIN C) (MAX_INFLIGHT C),
     abuse = new_tracker (ABUSE_THRESHOLD C) (ABUSE_WINDOW_S C),
     queue = start (new_queue (WORKERS C) (QUEUE_DEPTH C) (JOB_TTL_S C)),
     past_runs = init_db \<lparr>PERSIST_ENABLED = PERSIST C, conn_open = False, runs_table = past\<rparr>,
     stream_slots = int (WORKERS C),
     terminals = new_manager (TERMINAL_MAX_TOTAL C) (TERMINAL_PER_USER C),
     terminal_tickets = []\<rparr>"

text \<open>
  The part of \<open>lifespan\<close> before its \<open>yield\<close>, with the line it prints: a sweep that raises keeps the
  server from starting.
\<close>

definition lifespan_start ::
  "app_config \<Rightarrow> host \<Rightarrow> (path \<Rightarrow> fs \<Rightarrow> string list) \<Rightarrow> real \<Rightarrow> (string \<Rightarrow> real option) \<Rightarrow> row list \<Rightarrow> world \<Rightarrow>
   (exn + app_state \<times> string list) \<times> world" where
  "lifespan_start C H listing now mtime past w =
     (case sweep_orphans (settings_of C) H listing now mtime None w of
        (Inl e, w1) \<Rightarrow> (Inl e, w1)
      | (Inr n, w1) \<Rightarrow> (Inr (start_app C past,
          if n = 0 then [] else [''janitor: swept '' @ show_int n @ '' orphaned run dir(s) at startup'']), w1))"

section \<open>The janitor\<close>

text \<open>One turn of the loop after its sleep: what it prints, and the world. An exception is printed.\<close>

definition janitor_tick ::
  "app_config \<Rightarrow> host \<Rightarrow> (path \<Rightarrow> fs \<Rightarrow> string list) \<Rightarrow> (path \<Rightarrow> fs \<Rightarrow> path list) \<Rightarrow> real \<Rightarrow> (string \<Rightarrow> real option) \<Rightarrow>
   world \<Rightarrow> string list \<times> world" where
  "janitor_tick C H listing walk now mtime w =
     (case sweep_orphans (settings_of C) H listing now mtime (Some (JANITOR_MAX_AGE_S C)) w of
        (Inl e, w1) \<Rightarrow> ([''janitor: sweep failed: '' @ exn_msg e], w1)
      | (Inr n, w1) \<Rightarrow>
          (let (ev, f) = enforce_cache_limit (settings_of C) listing walk (CACHE_MAX_BYTES C) (files w1)
           in ((if n = 0 then [] else [''janitor: swept '' @ show_int n @ '' stale run dir(s)'']) @
               (if ev = 0 then [] else [''janitor: evicted '' @ show_int ev @ '' oversized build cache(s)'']),
               w1\<lparr>files := f\<rparr>)))"

section \<open>Stop\<close>

text \<open>
  The end of \<open>lifespan\<close>: the terminals are closed and the queue stops accepting jobs; then, when the
  workers have drained the queue or the grace time is over, the rest of \<open>stop\<close> and \<open>close_db\<close>.
\<close>

definition lifespan_stop_begin ::
  "app_config \<Rightarrow> host \<Rightarrow> (string \<Rightarrow> TerminalSession) \<Rightarrow> app_state \<Rightarrow> world \<Rightarrow>
   (string \<Rightarrow> TerminalSession) \<times> app_state \<times> world" where
  "lifespan_stop_begin C H get a w =
     (let (get1, m, w1) = shutdown_terminals (settings_of C) H get (terminals a) w
      in (get1, a\<lparr>terminals := m, queue := begin_stop (queue a)\<rparr>, w1))"

definition lifespan_stop_end :: "real \<Rightarrow> app_state \<Rightarrow> app_state" where
  "lifespan_stop_end now a = a\<lparr>queue := end_stop now (queue a), past_runs := close_db (past_runs a)\<rparr>"

section \<open>Properties\<close>

definition started :: "app_config \<Rightarrow> row list \<Rightarrow> system" where
  "started C past = \<lparr>app = start_app C past, flights = [], next_flight = 0\<rparr>"

lemma started_books: "balanced_books (int (WORKERS C)) (started C past)"
  by (simp add: balanced_books_def started_def start_app_def in_progress_def streaming_def rl.caps_hold_def)

text \<open>
  C3. Every slot is given back. From the start of the application on, however requests and their
  ends interleave, the limiter holds for every identity exactly as many slots as the identity has
  requests in progress, the free streaming slots are the workers less the streams in progress and
  never negative, and with a cap on concurrent runs no identity has more requests in progress than
  that. With nothing in progress nothing is held.
\<close>

theorem slot_accounting:
  "let y = sys_run (started C past) evs in
     held (app y) n = int (in_progress y n) \<and>
     stream_slots (app y) = int (WORKERS C) - int (streaming y) \<and> streaming y \<le> WORKERS C \<and>
     (if 0 < MAX_INFLIGHT C then int (in_progress y n) \<le> MAX_INFLIGHT C else True)"
proof -
  let ?y = "sys_run (started C past) evs"
  note b = sys_run_books [OF started_books, of C past evs]
  have "max_inflight (limiter (app (sys_step y ev))) = max_inflight (limiter (app y))" for y ev
    by (rule sys_step_cap)
  then have "max_inflight (limiter (app (sys_run y evs))) = max_inflight (limiter (app y))" for y
    unfolding sys_run_def by (induction evs arbitrary: y) (simp_all del: sys_step.simps)
  then have "max_inflight (limiter (app ?y)) = MAX_INFLIGHT C" by (simp add: started_def start_app_def)
  with b show ?thesis by (auto simp: balanced_books_def rl.caps_hold_def Let_def)
qed

text \<open>
  C40. The janitor removes live terminals' directories. A session that the watchdog leaves open
  because it is younger than its maximum lifetime loses its whole directory, the staged files with
  it, to the first janitor tick that finds the directory older than the janitor's age limit.
\<close>

theorem janitor_sweeps_live_terminal:
  assumes "files w (RUNS_DIR (settings_of C)) \<noteq> None" and "t_id s \<in> set (listing (RUNS_DIR (settings_of C)) (files w))"
    and "mtime (t_id s) = Some made" and "JANITOR_MAX_AGE_S C \<le> now - made"
    and "\<not> t_closed s" and "now - t_start s < MAX_LIFETIME_S C" and "now - t_last_input s < IDLE_TIMEOUT_S C"
    and "\<forall>n c. h_control H n c = None"
  shows "watchdog (terminal_settings.truncate C) H now (s, w) = (s, w) \<and>
    files (snd (janitor_tick C H listing walk now mtime w)) (session_dir (settings_of C) s @ p) = None"
proof -
  let ?S = "settings_of C" and ?rids = "listing (RUNS_DIR (settings_of C)) (files w)"
  let ?loop = "sweep_loop ?S H (Some (JANITOR_MAX_AGE_S C)) now mtime ?rids 0 w"
  have run_ok: "\<exists>v. sweep_run ?S H x v' = (Inr (), v)" for x v'
    using assms(8) by (simp add: sweep_run_def bind_act_def sweep_phase_def delete_container_def control_def Let_def)
  have "\<exists>n. fst (sweep_loop ?S H mx now mtime rids k v) = Inr n" for mx rids k v
  proof (induction rids arbitrary: k v)
    case (Cons x rids)
    from run_ok [of x v] obtain v1 where "sweep_run ?S H x v = (Inr (), v1)" by blast
    with Cons show ?case by (simp add: bind_act_def)
  qed (simp add: ret_def)
  then obtain n where n: "fst ?loop = Inr n" by blast
  have "\<not> sweep_skips (Some (JANITOR_MAX_AGE_S C)) now (mtime (t_id s))"
    using assms(3,4) by (simp add: sweep_skips_def)
  from sweep_loop_old [OF n assms(2) this, of "session_dir ?S s @ p"]
  have gone: "files (snd ?loop) (session_dir ?S s @ p) = None" by (simp add: session_dir_def)
  obtain w1 where loop: "?loop = (Inr n, w1)" using n by (cases ?loop) auto
  obtain ev f where e: "enforce_cache_limit ?S listing walk (CACHE_MAX_BYTES C) (files w1) = (ev, f)" by fastforce
  with loop gone enforce_shrinks [of "files w1" "session_dir ?S s @ p" ?S listing walk "CACHE_MAX_BYTES C"]
  have "f (session_dir ?S s @ p) = None" by simp
  moreover from assms(1) obtain y where "files w (RUNS_DIR ?S) = Some y" by auto
  ultimately have "files (snd (janitor_tick C H listing walk now mtime w)) (session_dir ?S s @ p) = None"
    using loop e by (simp add: janitor_tick_def sweep_orphans_def)
  then show ?thesis
    using assms(5-7) by (simp add: watchdog_def terminal_settings.defs)
qed

definition example_config :: app_config where
  "example_config = \<lparr>RUNTIME_ROOT = [''sb''], RUNSC = ''runsc'', sandbox_debug = False,
     LAUNCH_RETRIES = 2, CACHE_PER_IDENTITY = False, MAX_LIFETIME_S = 1200, IDLE_TIMEOUT_S = 300,
     JANITOR_INTERVAL_S = 60, JANITOR_MAX_AGE_S = 300, TERMINAL_MAX_TOTAL = 8, TERMINAL_PER_USER = 1,
     WORKERS = 4, QUEUE_DEPTH = 32, JOB_TTL_S = 300, RATE_PER_MIN = 0, MAX_INFLIGHT = 0,
     ABUSE_THRESHOLD = 0, ABUSE_WINDOW_S = 3600, CACHE_MAX_BYTES = 0, PERSIST = False\<rparr>"

definition example_session :: TerminalSession where
  "example_session = (new_session ''term-1'' ''ann'' [(''main.py'', ''x'')])\<lparr>t_fd := True, t_start := 100, t_last_input := 490\<rparr>"

theorem janitor_sweeps_live_terminal_witness:
  "fst (watchdog (terminal_settings.truncate example_config) (example_host (Some 0) []) 500
     (example_session, empty_world\<lparr>files := (\<lambda>p. Some Dir)\<rparr>)) = example_session \<and>
   files (snd (janitor_tick example_config (example_host (Some 0) []) (\<lambda>d f. [''term-1'']) (\<lambda>d f. []) 500 [''term-1'' \<mapsto> 100]
     (empty_world\<lparr>files := (\<lambda>p. Some Dir)\<rparr>))) (session_dir (settings_of example_config) example_session @ [''src'']) = None"
proof -
  have "t_id example_session = ''term-1''" "\<not> t_closed example_session" "t_start example_session = 100"
    "t_last_input example_session = 490"
    by (simp_all add: example_session_def new_session_def)
  then show ?thesis
    using janitor_sweeps_live_terminal [of "empty_world\<lparr>files := (\<lambda>p. Some Dir)\<rparr>" example_config example_session
        "\<lambda>d f. [''term-1'']" "[''term-1'' \<mapsto> 100]" 100 500 "example_host (Some 0) []" "\<lambda>d f. []" "[''src'']"]
    by (simp add: example_config_def example_host_def)
qed

text \<open>
  C35. Stopping. However many terminals are open, after the first half of the shutdown each is closed
  and none is registered, the queue accepts no more runs, and after the second half the queue has no
  workers and the history takes and gives no more runs.
\<close>

theorem lifespan_stop_closes:
  assumes "wf_dict (sessions (terminals a))" and "\<forall>sid \<in> set (dkeys (sessions (terminals a))). \<not> t_closed (get sid)"
    and "lifespan_stop_begin C H get a w = (get1, a1, w1)"
  shows "sessions (terminals a1) = [] \<and> (\<forall>sid \<in> set (dkeys (sessions (terminals a))). t_closed (get1 sid)) \<and>
    submit (queue a1) x i jid = None \<and> fst (submit_async (queue a1) now x i jid hook) = None \<and>
    workers (queue (lifespan_stop_end now a1)) = [] \<and> \<not> db_ready (past_runs (lifespan_stop_end now a1))"
proof -
  obtain m where sh: "shutdown_loop (settings_of C) H (dkeys (sessions (terminals a))) get (terminals a) w = (get1, m, w1)"
    and a1: "a1 = a\<lparr>terminals := m, queue := begin_stop (queue a)\<rparr>"
    using assms(3) by (auto simp: lifespan_stop_begin_def shutdown_terminals_def split: prod.splits)
  have "distinct (dkeys (sessions (terminals a)))" using assms(1) by (simp add: wf_dict_def dkeys_def)
  from shutdown_loop_gone [OF assms(2) this sh]
  have "\<forall>sid \<in> set (dkeys (sessions (terminals a))). t_closed (get1 sid)" "sessions m = []"
    by (auto simp: dkeys_def filter_empty_conv)
  then show ?thesis
    by (auto simp: a1 begin_stop_def submit_def submit_async_def enqueue_def prune_def Let_def lifespan_stop_end_def
        end_stop_def close_db_def db_ready_def)
qed

theorem lifespan_stop_closes_witness:
  "sessions (terminals (fst (snd (lifespan_stop_begin example_config (example_host (Some 0) []) (\<lambda>_. example_session)
     (example_app\<lparr>terminals := register (new_manager 8 1) ''term-1'' ''ann''\<rparr>) empty_world)))) = []"
proof -
  let ?a = "example_app\<lparr>terminals := register (new_manager 8 1) ''term-1'' ''ann''\<rparr>"
  obtain g a1 w1 where e: "lifespan_stop_begin example_config (example_host (Some 0) []) (\<lambda>_. example_session) ?a empty_world
      = (g, a1, w1)" by (metis prod_cases3)
  have "wf_dict (sessions (terminals ?a))" "\<forall>sid \<in> set (dkeys (sessions (terminals ?a))). \<not> t_closed example_session"
    by (simp_all add: register_def new_manager_def example_session_def new_session_def wf_dict_def)
  from lifespan_stop_closes [OF this e] e show ?thesis by simp
qed

end
