(* ===== verification/Sse.thy ===== *)
theory Sse
  imports Routes
begin

text \<open>
  What leaves the program as text: a result as JSON, and the events of a streamed run in the framing
  of server-sent events (\<^verbatim>\<open>_sse\<close> and the generator of \<^verbatim>\<open>app/api/routes.py\<close>).
\<close>

section \<open>Writing\<close>

definition opt_json :: "('a \<Rightarrow> json) \<Rightarrow> 'a option \<Rightarrow> json" where
  "opt_json f x = (case x of None \<Rightarrow> JNull | Some v \<Rightarrow> f v)"

text \<open>\<open>as_dict\<close>: the fields of the data class in their order.\<close>

definition result_fields :: "ExecutionResult \<Rightarrow> (string \<times> json) list" where
  "result_fields r = [(''stdout'', JStr (stdout r)), (''stderr'', JStr (stderr r)),
     (''exit_code'', opt_json JInt (exit_code r)), (''timed_out'', JBool (timed_out r)),
     (''truncated_stdout'', JBool (truncated_stdout r)), (''truncated_stderr'', JBool (truncated_stderr r)),
     (''wall_time_ms'', JInt (wall_time_ms r)), (''error'', opt_json JStr (error r)), (''stage'', JStr (stage r))]"

definition busy_json :: json where
  "busy_json = JObj [(''type'', JStr ''done''), (''error'', JStr ''server busy''), (''exit_code'', JNull),
     (''stdout'', JStr []), (''stderr'', JStr []), (''timed_out'', JBool False),
     (''truncated_stdout'', JBool False), (''truncated_stderr'', JBool False),
     (''wall_time_ms'', JInt 0), (''stage'', JStr ''run'')]"

definition sse_json :: "sse \<Rightarrow> json" where
  "sse_json e = (case e of
     Sse_busy \<Rightarrow> busy_json
   | Sse_done r hist \<Rightarrow> JObj ((''type'', JStr ''done'') # result_fields r @ [(''id'', opt_json JStr hist)])
   | Sse_event (S_stdout str) \<Rightarrow> JObj [(''type'', JStr ''stdout''), (''data'', JStr str)]
   | Sse_event (S_stderr str) \<Rightarrow> JObj [(''type'', JStr ''stderr''), (''data'', JStr str)]
   | Sse_event (S_done r) \<Rightarrow> JObj ((''type'', JStr ''done'') # result_fields r))"

abbreviation newline_char :: char where
  "newline_char \<equiv> char_of (10::nat)"

definition data_field :: string where
  "data_field = ''data: ''"

definition sse_text :: "json \<Rightarrow> string" where
  "sse_text j = data_field @ dumps j @ [newline_char, newline_char]"

section \<open>Reading, as a client does\<close>

text \<open>Frames end at a blank line; a frame's data follows \<open>data: \<close>. Text without a blank line is no frame yet.\<close>

fun frames :: "string \<Rightarrow> string \<Rightarrow> string list" where
  "frames acc (c # d # cs) =
     (if c = newline_char \<and> d = newline_char then acc # frames [] cs else frames (acc @ [c]) (d # cs))"
| "frames acc cs = []"

definition frame_json :: "string \<Rightarrow> json option" where
  "frame_json s = (if prefix data_field s then loads (drop (length data_field) s) else None)"

definition read_sse :: "string \<Rightarrow> json option list" where
  "read_sse s = map frame_json (frames [] s)"

section \<open>No event breaks the framing\<close>

text \<open>What \<open>dumps\<close> writes has no control characters, so no line ends inside it.\<close>

definition no_ctl :: "string \<Rightarrow> bool" where
  "no_ctl s \<longleftrightarrow> list_all (\<lambda>c. 32 \<le> ord_c c) s"

lemma no_ctl_simps [simp]:
  "no_ctl []" "no_ctl (c # s) = (32 \<le> ord_c c \<and> no_ctl s)" "no_ctl (s @ u) = (no_ctl s \<and> no_ctl u)"
  by (auto simp: no_ctl_def)

lemma no_ctl_concat: "(\<And>s. s \<in> set ss \<Longrightarrow> no_ctl s) \<Longrightarrow> no_ctl (concat ss)"
  by (induction ss) auto

lemma no_ctl_join: "no_ctl sep \<Longrightarrow> (\<And>s. s \<in> set ss \<Longrightarrow> no_ctl s) \<Longrightarrow> no_ctl (py_join sep ss)"
  by (induction sep ss rule: py_join.induct) auto

lemma hex_digit_no_ctl: "n < 16 \<Longrightarrow> 32 \<le> ord_c (hex_digit n)"
  by (simp add: hex_digit_def)

lemma esc_char_no_ctl: "no_ctl (esc_char c)"
proof (cases c rule: esc_char_cases)
  case (2 e)
  then show ?thesis by (auto simp: unesc_def split: if_splits)
next
  case 3
  have "ord_c c div 16 < 16" using ord_c_bound [of c] by linarith
  then have "no_ctl (hex4 (ord_c c))" by (simp add: hex4_def hex_digit_no_ctl)
  with 3 show ?thesis by simp
qed simp

lemma quote_no_ctl: "no_ctl (quote s)"
  by (auto simp: quote_def intro!: no_ctl_concat esc_char_no_ctl)

lemma show_nat_no_ctl: "no_ctl (show_nat n)"
  using show_nat_digits [of n] by (auto simp: no_ctl_def is_digit_def list_all_iff)

lemma dumps_no_ctl: "wf_json j \<Longrightarrow> no_ctl (dumps j)"
  by (induction j rule: dumps.induct)
    (auto simp: show_int_def show_nat_no_ctl quote_no_ctl list_all_iff intro!: no_ctl_join, fast)

lemma frames_step:
  "no_ctl s \<Longrightarrow> frames acc (s @ newline_char # newline_char # rest) = (acc @ s) # frames [] rest"
proof (induction s arbitrary: acc)
  case (Cons c s)
  then have "c \<noteq> newline_char" by auto
  with Cons show ?case by (cases s) auto
qed simp

lemma frames_sse: "list_all wf_json js \<Longrightarrow> frames [] (concat (map sse_text js)) = map (\<lambda>j. data_field @ dumps j) js"
proof (induction js)
  case (Cons j js)
  have "no_ctl (data_field @ dumps j)" using Cons.prems by (simp add: dumps_no_ctl data_field_def)
  from frames_step [OF this, of "[]" "concat (map sse_text js)"] Cons show ?case
    by (simp add: sse_text_def [of j])
qed simp

lemma sse_json_wf: "wf_json (sse_json e)"
  by (auto simp: sse_json_def busy_json_def result_fields_def opt_json_def
      split: sse.splits stream_event.splits option.splits)

lemma read_events:
  "read_sse (concat (map (\<lambda>e. sse_text (sse_json e)) evs)) = map (\<lambda>e. Some (sse_json e)) evs"
proof -
  have "map (\<lambda>e. sse_text (sse_json e)) evs = map sse_text (map sse_json evs)" by simp
  moreover have "list_all wf_json (map sse_json evs)" by (simp add: list_all_iff sse_json_wf)
  ultimately show ?thesis
    unfolding read_sse_def by (simp only: frames_sse) (simp add: frame_json_def loads_dumps sse_json_wf)
qed

section \<open>Properties\<close>

text \<open>
  C29. A client reads what was sent. Whatever text programs print, blank lines included, the events of
  a streamed run put one after the other on the wire are read back as the same JSON values, in order
  and one frame each.
\<close>

theorem sse_roundtrip:
  "read_sse (concat (map (\<lambda>e. sse_text (sse_json e)) evs)) = map (\<lambda>e. Some (sse_json e)) evs"
  by (rule read_events)

end
