(* ===== verification/Cli.thy ===== *)
theory Cli
  imports Sse Janitor
begin

text \<open>
  \<^verbatim>\<open>app/cli.py\<close>: one source file run in a sandbox from the command line. Parsing the command
  line is \<open>argparse\<close>'s; reading the source file is a parameter, its text or the exception.
\<close>

definition cli_request :: "LanguageDef \<Rightarrow> string \<Rightarrow> string \<Rightarrow> real option \<Rightarrow> ExecutionRequest" where
  "cli_request lang code stdin timeout =
     (let base = (if truthy_num timeout then DEFAULT_LIMITS\<lparr>wall_timeout_s := the timeout\<rparr> else DEFAULT_LIMITS);
          p = resolve lang base None
      in \<lparr>x_args = prep_run_args p, x_files = [(lang_main_file lang, code)], x_stdin = stdin,
          x_limits = prep_run_limits p, x_timeout_s = timeout, x_compile_args = prep_compile_args p,
          x_compile_limits = prep_compile_limits p,
          x_env = (if prep_run_env p = [] then None else Some (prep_run_env p)),
          x_compile_env = (if prep_compile_env p = [] then None else Some (prep_compile_env p)),
          x_compile_cache = prep_compile_cache p, x_identity = ''local''\<rparr>)"

text \<open>The exit code and what is printed; \<open>run_id\<close> is the random id of the run.\<close>

definition cli_main ::
  "settings \<Rightarrow> host \<Rightarrow> (path \<Rightarrow> fs \<Rightarrow> string list) \<Rightarrow> real \<Rightarrow> (string \<Rightarrow> real option) \<Rightarrow> string \<Rightarrow>
   string \<Rightarrow> exn + string \<Rightarrow> string \<Rightarrow> real option \<Rightarrow> (int \<times> string) act" where
  "cli_main S H listing now mtime run_id language source stdin timeout w =
     (case get_language language of
        Inl e \<Rightarrow> (Inl (Exn ''KeyError'' (unsupported_text e)), w)
      | Inr lang \<Rightarrow>
          (case source of
             Inl e \<Rightarrow> (Inl e, w)
           | Inr code \<Rightarrow>
               bind_act (sweep_orphans S H listing now mtime None) (\<lambda>_ w1.
                 let (res, w2) = execute S H run_id (cli_request lang code stdin timeout) w1
                 in (Inr (if error res = None then 0 else 1,
                          dumps_ind 2 0 (JObj (result_fields res)) @ [newline_char]), w2)) w))"

section \<open>Properties\<close>

text \<open>
  C30. The command line and the API run the same thing. A request to the API with one file and no
  entry point, accepted for the identity \<open>local\<close>, is turned into the very request that the command
  line makes from that file.
\<close>

theorem cli_same_as_api:
  assumes "ExecuteRequest_ok req" and "fst (prepare app req i now) = Inr (x, fs)"
    and "q_files req = [f]" and "\<not> truthy_opt (q_entrypoint req)" and "id_name i = ''local''"
  shows "cli_request (the (dget LANGUAGES (q_language req))) (fi_content f) (q_stdin req)
     (map_option (\<lambda>t. real_of_int t / 1000) (q_run_timeout_ms req)) = x"
proof (rule prepare_Inr [OF assms(2)])
  fix lang ep
  assume l: "get_language (q_language req) = Inr lang"
    and c: "choose_entrypoint req lang (dict_of (map (\<lambda>f. (fi_name f, fi_content f)) (q_files req))) = Inr (ep, fs)"
    and x: "x = build_request req lang ep fs (id_name i)"
  have lang: "the (dget LANGUAGES (q_language req)) = lang"
    using l by (auto simp: get_language_def split: option.splits)
  have "dict_of [(fi_name f, fi_content f)] = [(fi_name f, fi_content f)]" by (simp add: dict_of_distinct)
  with c assms(3,4) have ep: "ep = lang_main_file lang" "fs = [(lang_main_file lang, fi_content f)]"
    by (auto simp: choose_entrypoint_def split: if_splits)
  have same: "resolve lang base (Some (lang_main_file lang)) = resolve lang base None" for base
    using main_file_plain(3) [OF l] by (simp add: resolve_def)
  have "\<exists>t. q_run_timeout_ms req = Some t \<and> t \<noteq> 0" if "q_run_timeout_ms req \<noteq> None"
    using that assms(1) by (auto simp: ExecuteRequest_ok_def)
  then have "(if truthy_num (q_run_timeout_ms req) then Some (real_of_int (the (q_run_timeout_ms req)) / 1000) else None)
      = map_option (\<lambda>t. real_of_int t / 1000) (q_run_timeout_ms req)"
    "truthy_num (map_option (\<lambda>t. real_of_int t / 1000) (q_run_timeout_ms req)) = (q_run_timeout_ms req \<noteq> None)"
    by (cases "q_run_timeout_ms req"; auto)+
  then show ?thesis
    by (cases "q_run_timeout_ms req") (simp_all add: lang x ep cli_request_def build_request_def same assms(5) Let_def)
qed

theorem cli_same_as_api_witness:
  "cli_request (the (dget LANGUAGES ''go'')) ''x'' [] (Some 2) =
     build_request (example_body ''go'' [''a.go'']) (the (dget LANGUAGES ''go'')) ''main.go'' [(''main.go'', ''x'')] ''local''"
proof -
  let ?i = "example_identity\<lparr>id_name := ''local''\<rparr>"
  have ok: "ExecuteRequest_ok (example_body ''go'' [''a.go''])"
    by (simp add: ExecuteRequest_ok_def example_defs FileIn_ok_def safe_name_def unique_names_def MAX_FILES_def
        backslash_code)
  have p: "fst (prepare example_app (example_body ''go'' [''a.go'']) ?i 0) =
     Inr (build_request (example_body ''go'' [''a.go'']) (the (dget LANGUAGES ''go'')) ''main.go''
       [(''main.go'', ''x'')] ''local'', [(''main.go'', ''x'')])"
    by (simp add: prepare_def example_defs get_language_def language_table source_size_def quarantined_def
      is_admin_def choose_entrypoint_def dupdate_def DEFAULT_LIMITS_def)
  have f: "q_files (example_body ''go'' [''a.go'']) = [\<lparr>fi_name = ''a.go'', fi_content = ''x''\<rparr>]"
    "\<not> truthy_opt (q_entrypoint (example_body ''go'' [''a.go'']))" "q_language (example_body ''go'' [''a.go'']) = ''go''"
    "q_stdin (example_body ''go'' [''a.go'']) = []" "q_run_timeout_ms (example_body ''go'' [''a.go'']) = Some 2000"
    by (simp_all add: example_body_def)
  from cli_same_as_api [OF ok p f(1,2)] show ?thesis unfolding f(3-) by simp
qed

text \<open>
  The command line sweeps as the server does at startup, so it ends a live server's runs: whenever
  it reaches its own run, nothing is left below any directory of the runs directory, however young.
\<close>

theorem cli_clears_live_runs:
  assumes "files w (RUNS_DIR S) = Some Dir" and "rid \<in> set (listing (RUNS_DIR S) (files w))"
    and "fst (cli_main S H listing now mtime run_id language (Inr code) stdin timeout w) = Inr r"
    and "confined H" and "list_all plain_segment (RUNTIME_ROOT S)" and "plain_segment run_id" and "plain_segment rid"
    and "rid \<noteq> run_id"
  shows "files (snd (cli_main S H listing now mtime run_id language (Inr code) stdin timeout w))
    (path_join (RUNS_DIR S) rid @ p) = None"
proof -
  obtain lang where l: "get_language language = Inr lang"
    using assms(3) by (cases "get_language language") (auto simp: cli_main_def)
  let ?x = "cli_request lang code stdin timeout"
  obtain s w1 where sw: "sweep_orphans S H listing now mtime None w = (s, w1)" by fastforce
  with assms(3) l obtain n where n: "s = Inr n" by (cases s) (auto simp: cli_main_def bind_act_def)
  have w1: "files w1 (path_join (RUNS_DIR S) rid @ p) = None"
    using sw n assms(1,2) sweep_loop_removes [of S H now mtime "listing (RUNS_DIR S) (files w)" 0 w n "path_join (RUNS_DIR S) rid @ p"]
    by (auto simp: sweep_orphans_def)
  have out: "snd (cli_main S H listing now mtime run_id language (Inr code) stdin timeout w) = snd (execute S H run_id ?x w1)"
    by (simp add: cli_main_def l bind_act_def sw n split: prod.splits)
  have su: "plain_setup S run_id ?x"
    using l assms(5,6) unfolding get_language_Inr
    by (auto simp: plain_setup_def cli_request_def Let_def resolve_fields language_table plain_segment_def)
  from execute_touches [OF assms(4) su, of w1]
  have "same_outside (run_areas S run_id ?x) (files w1) (files (snd (execute S H run_id ?x w1)))" .
  moreover have "\<not> prefix d (path_join (RUNS_DIR S) rid @ p) \<and> \<not> prefix (path_join (RUNS_DIR S) rid @ p) d"
    if "d \<in> run_areas S run_id ?x" for d
  proof -
    have d: "d = RUNS_DIR S @ [run_id] \<or> prefix (CACHE_DIR S) d"
      using that assms(6) su by (auto simp: run_areas_def run_dir_def path_join_plain cache_dirs_def
          plain_setup_def cache_path_below split: if_splits)
    have "path_join (RUNS_DIR S) rid = RUNS_DIR S @ [rid]" using assms(7) by (simp add: path_join_plain)
    moreover have "RUNS_DIR S = RUNTIME_ROOT S @ [''runs'']" "CACHE_DIR S = RUNTIME_ROOT S @ [''cache'']"
      by (simp_all add: RUNS_DIR_def CACHE_DIR_def path_join_plain plain_segment_def)
    ultimately show ?thesis using d assms(8) by (auto simp: prefix_def)
  qed
  ultimately show ?thesis using w1 out by (auto simp: same_outside_def)
qed

theorem cli_clears_live_runs_witness:
  "files (snd (cli_main example_settings (example_host (Some 0) []) (\<lambda>d f. [''run-2'']) 0 (\<lambda>_. None) ''run-1''
     ''python'' (Inr ''x'') [] None \<lparr>files = (\<lambda>p. if prefix [''sb'', ''runs'', ''run-1''] p then None else Some Dir), done_log = []\<rparr>))
     (path_join (RUNS_DIR example_settings) ''run-2'' @ [''src'']) = None"
proof -
  let ?w = "\<lparr>files = (\<lambda>p. if prefix [''sb'', ''runs'', ''run-1''] p then None else Some Dir), done_log = []\<rparr>"
  let ?m = "cli_main example_settings (example_host (Some 0) []) (\<lambda>d f. [''run-2'']) 0 (\<lambda>_. None) ''run-1''
     ''python'' (Inr ''x'') [] None ?w"
  have r: "RUNS_DIR example_settings = [''sb'', ''runs'']"
    by (simp add: RUNS_DIR_def example_settings_def path_join_plain plain_segment_def)
  have "sweep_orphans example_settings (example_host (Some 0) []) (\<lambda>d f. [''run-2'']) 0 (\<lambda>_. None) None ?w =
      (Inr 1, snd (sweep_orphans example_settings (example_host (Some 0) []) (\<lambda>d f. [''run-2'']) 0 (\<lambda>_. None) None ?w))"
    by (simp add: sweep_orphans_def sweep_skips_def sweep_run_def bind_act_def sweep_phase_def Let_def
        delete_container_def control_def example_host_def ret_def r)
  then obtain w1 where sw: "sweep_orphans example_settings (example_host (Some 0) []) (\<lambda>d f. [''run-2'']) 0 (\<lambda>_. None) None ?w
      = (Inr 1, w1)" by metis
  have "\<exists>res. fst ?m = Inr res"
    by (simp add: cli_main_def get_language_def language_table bind_act_def sw split: prod.splits)
  then obtain res where m: "fst ?m = Inr res" by blast
  show ?thesis
    by (rule cli_clears_live_runs [OF _ _ m example_confined])
       (simp_all add: r, simp_all add: example_settings_def plain_segment_def)
qed

end
