(* ===== verification/Backends.thy ===== *)
theory Backends
  imports Ratelimit Abuse Json "HOL-Library.Multiset"
begin

text \<open>
  \<^verbatim>\<open>app/backends.py\<close>: the rate limiter and the abuse tracker on Redis. Redis is not part of
  the repository: its commands are the fields of a record, and \<open>redis_ok\<close> states what its documentation
  says of them. The two Lua scripts and the classes around them are definitions over that record. An
  expiry set by \<open>EXPIRE\<close> has no effect at the instant it is set; keys that expire later are not modelled.
\<close>

section \<open>The server\<close>

text \<open>
  \<open>zrange\<close> gives all members of a sorted set with their scores, in ascending order; \<open>get_num\<close> reads a
  key that holds an integer.
\<close>

record 's redis =
  zremrangebyscore :: "string \<Rightarrow> real \<Rightarrow> real \<Rightarrow> 's \<Rightarrow> 's"
  zadd :: "string \<Rightarrow> real \<Rightarrow> string \<Rightarrow> 's \<Rightarrow> 's"
  zcard :: "string \<Rightarrow> 's \<Rightarrow> nat"
  zrange :: "string \<Rightarrow> 's \<Rightarrow> (string \<times> real) list"
  expire :: "string \<Rightarrow> int \<Rightarrow> 's \<Rightarrow> 's"
  get_num :: "string \<Rightarrow> 's \<Rightarrow> int option"
  incr :: "string \<Rightarrow> 's \<Rightarrow> 's"
  decr :: "string \<Rightarrow> 's \<Rightarrow> 's"

definition redis_ok :: "'s redis \<Rightarrow> bool" where
  "redis_ok R \<longleftrightarrow>
     (\<forall>k s. sorted (map snd (zrange R k s)) \<and> zcard R k s = length (zrange R k s)) \<and>
     (\<forall>k j lo hi s. zrange R j (zremrangebyscore R k lo hi s) =
        (if j = k then filter (\<lambda>(m, t). \<not> (lo \<le> t \<and> t \<le> hi)) (zrange R k s) else zrange R j s)) \<and>
     (\<forall>k j lo hi s. get_num R j (zremrangebyscore R k lo hi s) = get_num R j s) \<and>
     (\<forall>k x m s. m \<notin> fst ` set (zrange R k s) \<longrightarrow> mset (zrange R k (zadd R k x m s)) = add_mset (m, x) (mset (zrange R k s))) \<and>
     (\<forall>k j x m s. j \<noteq> k \<longrightarrow> zrange R j (zadd R k x m s) = zrange R j s) \<and>
     (\<forall>k j x m s. get_num R j (zadd R k x m s) = get_num R j s) \<and>
     (\<forall>k j n s. zrange R j (expire R k n s) = zrange R j s \<and> get_num R j (expire R k n s) = get_num R j s) \<and>
     (\<forall>k j s. zrange R j (incr R k s) = zrange R j s \<and> zrange R j (decr R k s) = zrange R j s) \<and>
     (\<forall>k j s. get_num R j (incr R k s) = (if j = k then Some (opt_default (get_num R k s) 0 + 1) else get_num R j s)) \<and>
     (\<forall>k j s. get_num R j (decr R k s) = (if j = k then Some (opt_default (get_num R k s) 0 - 1) else get_num R j s))"

section \<open>The rate limiter\<close>

definition rl_ev_key :: "string \<Rightarrow> string" where
  "rl_ev_key identity = ''rl:ev:'' @ identity"

definition rl_inf_key :: "string \<Rightarrow> string" where
  "rl_inf_key identity = ''rl:inf:'' @ identity"

text \<open>The script \<open>_RL_ACQUIRE\<close>: the three values it returns, and the server.\<close>

definition RL_ACQUIRE ::
  "'s redis \<Rightarrow> string \<Rightarrow> string \<Rightarrow> real \<Rightarrow> real \<Rightarrow> int \<Rightarrow> int \<Rightarrow> string \<Rightarrow> 's \<Rightarrow> (int \<times> int \<times> string) \<times> 's" where
  "RL_ACQUIRE R k1 k2 now win per maxin tok s =
     (let s1 = (if 0 < per then zremrangebyscore R k1 0 (now - win) s else s);
          inf = opt_default (get_num R k2 s1) 0
      in if 0 < per \<and> per \<le> int (zcard R k1 s1)
         then (let retry = (case zrange R k1 s1 of [] \<Rightarrow> \<lceil>win\<rceil> | (m, t) # rest \<Rightarrow> \<lceil>t + win - now\<rceil>)
               in ((0, max 1 retry, ''request rate limit exceeded''), s1))
         else if 0 < maxin \<and> maxin \<le> inf then ((0, 1, ''too many concurrent runs''), s1)
         else (let s2 = (if 0 < per then expire R k1 (\<lceil>win\<rceil> + 1) (zadd R k1 now tok s1) else s1)
               in ((1, 0, []), expire R k2 3600 (incr R k2 s2))))"

definition RL_RELEASE :: "'s redis \<Rightarrow> string \<Rightarrow> 's \<Rightarrow> 's" where
  "RL_RELEASE R k s = (if 0 < opt_default (get_num R k s) 0 then decr R k s else s)"

text \<open>
  \<open>RedisRateLimiter\<close>. Its two numbers are the fields of a limiter; \<open>tok\<close> is the member the call makes
  up from the time and a random id.
\<close>

definition redis_acquire :: "'s redis \<Rightarrow> int \<Rightarrow> int \<Rightarrow> string \<Rightarrow> real \<Rightarrow> string \<Rightarrow> 's \<Rightarrow> (RateLimited + unit) \<times> 's" where
  "redis_acquire R per maxin identity now tok s =
     (if \<not> (0 < per \<or> 0 < maxin) then (Inr (), s)
      else (let ((ok, retry, why), s1) = RL_ACQUIRE R (rl_ev_key identity) (rl_inf_key identity) now WINDOW_S per maxin tok s
            in (if ok = 0 then Inl (RateLimited retry why) else Inr (), s1)))"

definition redis_release :: "'s redis \<Rightarrow> int \<Rightarrow> int \<Rightarrow> string \<Rightarrow> 's \<Rightarrow> 's" where
  "redis_release R per maxin identity s =
     (if \<not> (0 < per \<or> 0 < maxin) then s else RL_RELEASE R (rl_inf_key identity) s)"

text \<open>The fields of the in-memory statistics, and the name of the backend.\<close>

definition redis_limiter_stats :: "int \<Rightarrow> int \<Rightarrow> limiter_stats \<times> string" where
  "redis_limiter_stats per maxin =
     (\<lparr>rl_enabled = (0 < per \<or> 0 < maxin), rl_per_min = per, rl_max_inflight = maxin\<rparr>, ''redis'')"

section \<open>The abuse tracker\<close>

definition ab_key :: "string \<Rightarrow> string" where
  "ab_key identity = ''ab:'' @ identity"

text \<open>The number a member begins with, which Lua matches and Python splits off.\<close>

definition leading_number :: "string \<Rightarrow> int" where
  "leading_number m = int (digits_val (takeWhile is_digit m))"

definition AB_RECORD ::
  "'s redis \<Rightarrow> string \<Rightarrow> real \<Rightarrow> real \<Rightarrow> string \<Rightarrow> string \<Rightarrow> string \<Rightarrow> string \<Rightarrow> 's \<Rightarrow> int \<times> 's" where
  "AB_RECORD R k now win weight_s flags_s susp tok s =
     (let s1 = zremrangebyscore R k 0 (now - win) s;
          s2 = (if susp = ''1''
                then expire R k (\<lceil>win\<rceil> + 1) (zadd R k now (weight_s @ ''|'' @ flags_s @ ''|'' @ tok) s1) else s1)
      in (sum_list (map (\<lambda>(m, t). leading_number m) (zrange R k s2)), s2))"

definition redis_record :: "'s redis \<Rightarrow> real \<Rightarrow> string \<Rightarrow> Verdict \<Rightarrow> real \<Rightarrow> string \<Rightarrow> 's \<Rightarrow> int \<times> 's" where
  "redis_record R win identity v now tok s =
     AB_RECORD R (ab_key identity) now win (show_int (weight v)) (py_join '','' (flags v))
       (if suspicious v then ''1'' else ''0'') tok s"

definition redis_score :: "'s redis \<Rightarrow> real \<Rightarrow> string \<Rightarrow> real \<Rightarrow> string \<Rightarrow> 's \<Rightarrow> int \<times> 's" where
  "redis_score R win identity now tok s =
     redis_record R win identity \<lparr>suspicious = False, flags = [], weight = 0\<rparr> now tok s"

definition redis_is_quarantined :: "'s redis \<Rightarrow> int \<Rightarrow> real \<Rightarrow> string \<Rightarrow> real \<Rightarrow> string \<Rightarrow> 's \<Rightarrow> bool \<times> 's" where
  "redis_is_quarantined R th win identity now tok s =
     (if 0 < th then (let (sc, s1) = redis_score R win identity now tok s in (th \<le> sc, s1)) else (False, s))"

text \<open>The report over the keys that the scan yields.\<close>

definition member_flags :: "string \<Rightarrow> string list" where
  "member_flags m = (let parts = py_split (CHR ''|'') m
     in if 1 < length parts \<and> parts ! 1 \<noteq> [] then py_split (CHR '','') (parts ! 1) else [])"

fun redis_report_loop ::
  "'s redis \<Rightarrow> int \<Rightarrow> real \<Rightarrow> real \<Rightarrow> string list \<Rightarrow> (string, identity_report) dict \<Rightarrow> 's \<Rightarrow>
   (string, identity_report) dict \<times> 's" where
  "redis_report_loop R th win now [] out s = (out, s)"
| "redis_report_loop R th win now (k # ks) out s =
     (let identity = drop 3 k; s1 = zremrangebyscore R k 0 (now - win) s; ms = map fst (zrange R k s1)
      in if ms = [] then redis_report_loop R th win now ks out s1
         else (let sc = sum_list (map leading_number ms);
                   fc = fold (\<lambda>f d. dset f (dget_or d f 0 + 1) d) (concat (map member_flags ms)) []
               in redis_report_loop R th win now ks
                    (dset identity \<lparr>rep_score = sc, rep_events = int (length ms), rep_flags = fc,
                       rep_quarantined = (0 < th \<and> th \<le> sc)\<rparr> out) s1))"

definition redis_report :: "'s redis \<Rightarrow> int \<Rightarrow> real \<Rightarrow> real \<Rightarrow> string list \<Rightarrow> 's \<Rightarrow> (abuse_report \<times> string) \<times> 's" where
  "redis_report R th win now scanned s =
     (let (out, s1) = redis_report_loop R th win now scanned [] s
      in ((\<lparr>rep_threshold = th, rep_window_s = win, rep_identities = out\<rparr>, ''redis''), s1))"

section \<open>Consequences of the server's laws\<close>

lemma redis_laws:
  assumes "redis_ok R"
  shows "sorted (map snd (zrange R k s))" "zcard R k s = length (zrange R k s)"
    and "zrange R j (zremrangebyscore R k lo hi s) =
        (if j = k then filter (\<lambda>(m, t). \<not> (lo \<le> t \<and> t \<le> hi)) (zrange R k s) else zrange R j s)"
    and "get_num R j (zremrangebyscore R k lo hi s) = get_num R j s"
    and "j \<noteq> k \<Longrightarrow> zrange R j (zadd R k x m s) = zrange R j s"
    and "get_num R j (zadd R k x m s) = get_num R j s"
    and "zrange R j (expire R k n s) = zrange R j s" "get_num R j (expire R k n s) = get_num R j s"
    and "zrange R j (incr R k s) = zrange R j s" "zrange R j (decr R k s) = zrange R j s"
    and "get_num R j (incr R k s) = (if j = k then Some (opt_default (get_num R k s) 0 + 1) else get_num R j s)"
    and "get_num R j (decr R k s) = (if j = k then Some (opt_default (get_num R k s) 0 - 1) else get_num R j s)"
  using assms unfolding redis_ok_def by simp_all

lemma zadd_mset:
  assumes "redis_ok R" "m \<notin> fst ` set (zrange R k s)"
  shows "mset (zrange R k (zadd R k x m s)) = add_mset (m, x) (mset (zrange R k s))"
  using assms unfolding redis_ok_def by simp

text \<open>Adding a member with the latest score puts its score last.\<close>

lemma zadd_scores:
  assumes "redis_ok R" "m \<notin> fst ` set (zrange R k s)" "\<forall>t \<in> snd ` set (zrange R k s). t \<le> x"
  shows "map snd (zrange R k (zadd R k x m s)) = map snd (zrange R k s) @ [x]"
proof -
  let ?new = "map snd (zrange R k (zadd R k x m s))" and ?old = "map snd (zrange R k s) @ [x]"
  have "mset ?new = mset ?old"
    using arg_cong [OF zadd_mset [OF assms(1,2)], of "image_mset snd"] by simp
  moreover have "sorted ?new" "sorted ?old"
    using redis_laws(1) [OF assms(1)] assms(3) by (auto simp: sorted_append)
  ultimately show ?thesis
    using properties_for_sort [of ?new ?new] properties_for_sort [of ?old ?new] by simp
qed

lemma keys_distinct [simp]:
  "rl_ev_key i = rl_ev_key j \<longleftrightarrow> i = j" "rl_inf_key i = rl_inf_key j \<longleftrightarrow> i = j" "ab_key i = ab_key j \<longleftrightarrow> i = j"
  "rl_ev_key i \<noteq> rl_inf_key j" "rl_inf_key i \<noteq> rl_ev_key j"
  by (simp_all add: rl_ev_key_def rl_inf_key_def ab_key_def)

section \<open>Refinement of the in-memory limiter\<close>

text \<open>The server's sorted set of an identity holds its window, and its counter its slots.\<close>

definition rl_stores :: "'s redis \<Rightarrow> RateLimiter \<Rightarrow> 's \<Rightarrow> bool" where
  "rl_stores R l s \<longleftrightarrow> (\<forall>i. map snd (zrange R (rl_ev_key i) s) = events_of l i \<and>
     opt_default (get_num R (rl_inf_key i) s) 0 = inflight_of l i)"

text \<open>The times in the windows are between zero and now.\<close>

definition clocked :: "RateLimiter \<Rightarrow> real \<Rightarrow> bool" where
  "clocked l now \<longleftrightarrow> (\<forall>i. \<forall>t \<in> set (events_of l i). 0 \<le> t \<and> t \<le> now)"

lemma stored_pruned:
  assumes "redis_ok R" "rl_stores R l s" "clocked l now"
  shows "map snd (zrange R (rl_ev_key i) (zremrangebyscore R (rl_ev_key i) 0 (now - WINDOW_S) s)) =
    pop_expired now (events_of l i)"
proof -
  have ev: "map snd (zrange R (rl_ev_key i) s) = events_of l i" using assms(2) by (simp add: rl_stores_def)
  with redis_laws(1) [OF assms(1), of "rl_ev_key i" s] have "rlw.in_order (events_of l i)" by (simp add: rlw.in_order_def)
  from rlw.prune_filter [OF this] have "pop_expired now (events_of l i) =
      map snd (filter (\<lambda>p. rlw.fresh now (snd p)) (zrange R (rl_ev_key i) s))"
    by (simp add: ev [symmetric] filter_map comp_def)
  moreover have "filter (\<lambda>p. rlw.fresh now (snd p)) (zrange R (rl_ev_key i) s) =
      filter (\<lambda>(m, t). \<not> (0 \<le> t \<and> t \<le> now - WINDOW_S)) (zrange R (rl_ev_key i) s)"
  proof (rule filter_cong [OF refl])
    fix p
    assume "p \<in> set (zrange R (rl_ev_key i) s)"
    then have "snd p \<in> set (events_of l i)" by (metis ev image_eqI set_map)
    with assms(3) have "0 \<le> snd p" by (simp add: clocked_def)
    then show "rlw.fresh now (snd p) = (case p of (m, t) \<Rightarrow> \<not> (0 \<le> t \<and> t \<le> now - WINDOW_S))"
      by (auto simp: rlw.fresh_def split: prod.splits)
  qed
  ultimately show ?thesis using redis_laws(3) [OF assms(1)] by simp
qed

lemma ceiling_floor_bounds: "\<lfloor>x\<rfloor> \<le> max 1 \<lceil>x\<rceil> \<and> \<lceil>x\<rceil> \<le> max 1 \<lfloor>x\<rfloor> + 1" for x :: real
  by linarith

text \<open>The state after the script's first command, and after a grant.\<close>

definition rl_pruned :: "'s redis \<Rightarrow> RateLimiter \<Rightarrow> string \<Rightarrow> real \<Rightarrow> 's \<Rightarrow> 's" where
  "rl_pruned R l i now s = (if 0 < per_min l then zremrangebyscore R (rl_ev_key i) 0 (now - WINDOW_S) s else s)"

lemma rl_pruned_reads:
  assumes "redis_ok R" "rl_stores R l s" "clocked l now"
  shows "map snd (zrange R (rl_ev_key j) (rl_pruned R l i now s)) =
      (if j = i \<and> 0 < per_min l then pop_expired now (events_of l i) else events_of l j)"
    and "opt_default (get_num R (rl_inf_key j) (rl_pruned R l i now s)) 0 = inflight_of l j"
    and "fst ` set (zrange R (rl_ev_key i) (rl_pruned R l i now s)) \<subseteq> fst ` set (zrange R (rl_ev_key i) s)"
proof -
  note st = assms(2) [unfolded rl_stores_def]
  show "map snd (zrange R (rl_ev_key j) (rl_pruned R l i now s)) =
      (if j = i \<and> 0 < per_min l then pop_expired now (events_of l i) else events_of l j)"
    using st stored_pruned [OF assms, of i] redis_laws(3) [OF assms(1)]
    by (auto simp: rl_pruned_def)
  show "opt_default (get_num R (rl_inf_key j) (rl_pruned R l i now s)) 0 = inflight_of l j"
    using st redis_laws(4) [OF assms(1)] by (simp add: rl_pruned_def)
  show "fst ` set (zrange R (rl_ev_key i) (rl_pruned R l i now s)) \<subseteq> fst ` set (zrange R (rl_ev_key i) s)"
    using redis_laws(3) [OF assms(1)] by (auto simp: rl_pruned_def)
qed

lemma clocked_acquire:
  assumes "clocked l now" "0 \<le> now"
  shows "clocked (snd (acquire l i now)) now"
proof -
  have "set (pop_expired now w) \<subseteq> set w" for w by (rule rlw.prune_subset)
  with assms show ?thesis by (fastforce simp: clocked_def acquire_events)
qed

text \<open>The whole of a call, over the pruned server.\<close>

lemma redis_acquire_eq:
  assumes "redis_ok R" "0 < per_min l \<or> 0 < max_inflight l"
  shows "redis_acquire R (per_min l) (max_inflight l) i now tok s =
    (let s1 = rl_pruned R l i now s; zs = zrange R (rl_ev_key i) s1 in
     if 0 < per_min l \<and> per_min l \<le> int (length zs)
     then (Inl (RateLimited (max 1 (case zs of [] \<Rightarrow> \<lceil>WINDOW_S\<rceil> | (m, t) # rest \<Rightarrow> \<lceil>t + WINDOW_S - now\<rceil>))
             ''request rate limit exceeded''), s1)
     else if 0 < max_inflight l \<and> max_inflight l \<le> opt_default (get_num R (rl_inf_key i) s1) 0
     then (Inl (RateLimited 1 ''too many concurrent runs''), s1)
     else (Inr (), expire R (rl_inf_key i) 3600 (incr R (rl_inf_key i)
        (if 0 < per_min l then expire R (rl_ev_key i) (\<lceil>WINDOW_S\<rceil> + 1) (zadd R (rl_ev_key i) now tok s1) else s1))))"
  using assms(2) redis_laws(2) [OF assms(1)]
  by (simp add: redis_acquire_def RL_ACQUIRE_def rl_pruned_def Let_def)

lemma redis_release_refines:
  assumes "redis_ok R" "rl_stores R l s" "0 < per_min l \<or> 0 < max_inflight l" "0 \<le> inflight_of l i"
  shows "rl_stores R (release l i) (redis_release R (per_min l) (max_inflight l) i s)"
  using assms redis_laws [OF assms(1)]
  by (auto simp: rl_stores_def redis_release_def RL_RELEASE_def release_inflight max_def)

section \<open>Refinement of the in-memory tracker\<close>

text \<open>The members of an identity's sorted set carry the times and weights of its window.\<close>

definition weighted :: "string \<times> real \<Rightarrow> real \<times> int" where
  "weighted p = (snd p, leading_number (fst p))"

definition ab_stores :: "'s redis \<Rightarrow> AbuseTracker \<Rightarrow> 's \<Rightarrow> bool" where
  "ab_stores R t s \<longleftrightarrow> (\<forall>i. image_mset weighted (mset (zrange R (ab_key i) s)) =
     mset (map (\<lambda>e. (fst e, fst (snd e))) (abuse_window t i)))"

definition ab_clocked :: "AbuseTracker \<Rightarrow> real \<Rightarrow> bool" where
  "ab_clocked t now \<longleftrightarrow> (\<forall>i. abw.in_order (abuse_window t i) \<and> (\<forall>e \<in> set (abuse_window t i). 0 \<le> fst e \<and> fst e \<le> now))"

definition ab_member :: "Verdict \<Rightarrow> string \<Rightarrow> string" where
  "ab_member v tok = show_int (weight v) @ ''|'' @ py_join '','' (flags v) @ ''|'' @ tok"

lemma leading_number_show: "0 \<le> n \<Longrightarrow> leading_number (show_int n @ CHR ''|'' # r) = n"
proof -
  assume n: "0 \<le> n"
  have "takeWhile is_digit (show_nat (nat n) @ CHR ''|'' # r) = show_nat (nat n)"
    using show_nat_digits [of "nat n"] by (simp add: takeWhile_append2 list_all_iff is_digit_def)
  with n show ?thesis by (simp add: leading_number_def show_int_def digits_val_show)
qed

lemma weights_sum:
  assumes "image_mset weighted (mset ps) = mset (map (\<lambda>e. (fst e, fst (snd e))) w)"
  shows "sum_list (map (\<lambda>(m, t). leading_number m) ps) = window_weight w"
proof -
  have "sum_list (map (\<lambda>(m, t). leading_number m) ps) = sum_mset (image_mset snd (image_mset weighted (mset ps)))"
  proof -
    have "(\<lambda>(m, t). leading_number m) = snd \<circ> weighted" by (auto simp: weighted_def)
    then show ?thesis by (simp flip: sum_mset_sum_list mset_map)
  qed
  also have "\<dots> = sum_list (map snd (map (\<lambda>e. (fst e, fst (snd e))) w))"
    unfolding assms by (simp flip: sum_mset_sum_list mset_map)
  finally show ?thesis by (simp add: window_weight_def comp_def)
qed

lemma ab_pruned:
  assumes "redis_ok R" "ab_stores R t s" "ab_clocked t now"
  shows "image_mset weighted (mset (zrange R (ab_key j) (zremrangebyscore R (ab_key i) 0 (now - window_s t) s))) =
    mset (map (\<lambda>e. (fst e, fst (snd e))) (abuse_window (abuse_prune t i now) j))"
proof (cases "j = i")
  case True
  let ?old = "\<lambda>x. \<not> (0 \<le> fst x \<and> fst x \<le> now - window_s t)"
  have st: "image_mset weighted (mset (zrange R (ab_key i) s)) = mset (map (\<lambda>e. (fst e, fst (snd e))) (abuse_window t i))"
    using assms(2) by (simp add: ab_stores_def)
  have "pop_old (window_s t) now (abuse_window t i) = filter (abw.fresh (window_s t) now) (abuse_window t i)"
    by (rule abw.prune_filter) (use assms(3) in \<open>simp add: ab_clocked_def\<close>)
  also have "\<dots> = filter ?old (abuse_window t i)"
    using assms(3) by (intro filter_cong refl) (auto simp: abw.fresh_def ab_clocked_def)
  finally have pop: "pop_old (window_s t) now (abuse_window t i) = filter ?old (abuse_window t i)" .
  have "mset (map (\<lambda>e. (fst e, fst (snd e))) (filter ?old w)) = filter_mset ?old (mset (map (\<lambda>e. (fst e, fst (snd e))) w))"
    for w :: "abuse_event list" by (induction w) auto
  moreover have "image_mset weighted (mset (filter (\<lambda>(m, x). \<not> (0 \<le> x \<and> x \<le> now - window_s t)) ps)) =
      filter_mset ?old (image_mset weighted (mset ps))" for ps
    by (induction ps) (auto simp: weighted_def)
  ultimately show ?thesis
    using redis_laws(3) [OF assms(1)] by (simp add: True abuse_window_prune pop st)
next
  case False
  with assms(2) redis_laws(3) [OF assms(1)] show ?thesis by (simp add: abuse_window_prune ab_stores_def)
qed

lemma redis_record_result:
  "redis_record R win i v now tok s = (let s1 = zremrangebyscore R (ab_key i) 0 (now - win) s;
     s2 = (if suspicious v then expire R (ab_key i) (\<lceil>win\<rceil> + 1) (zadd R (ab_key i) now (ab_member v tok) s1) else s1)
   in (sum_list (map (\<lambda>(m, t). leading_number m) (zrange R (ab_key i) s2)), s2))"
  by (simp add: redis_record_def AB_RECORD_def ab_member_def Let_def)

lemma redis_record_stores:
  assumes "redis_ok R" "ab_stores R t s" "ab_clocked t now" "0 \<le> weight v"
    "ab_member v tok \<notin> fst ` set (zrange R (ab_key i) s)"
  shows "ab_stores R (snd (abuse_record t i v now)) (snd (redis_record R (window_s t) i v now tok s))"
proof (cases "suspicious v")
  case False
  then show ?thesis
    using ab_pruned [OF assms(1-3), of _ i] by (simp add: ab_stores_def redis_record_result abuse_record_def Let_def)
next
  case True
  let ?s1 = "zremrangebyscore R (ab_key i) 0 (now - window_s t) s"
  note laws = redis_laws [OF assms(1)]
  have fresh: "ab_member v tok \<notin> fst ` set (zrange R (ab_key i) ?s1)"
    using assms(5) laws(3) by auto
  have "weighted (ab_member v tok, now) = (now, weight v)"
    using leading_number_show [OF assms(4)] by (simp add: weighted_def ab_member_def)
  with True show ?thesis
    using ab_pruned [OF assms(1-3), of _ i] zadd_mset [OF assms(1) fresh, of now] laws(5,7)
    by (auto simp: ab_stores_def redis_record_result Let_def abuse_window_record abuse_window_prune)
qed

section \<open>A server that keeps the laws\<close>

type_synonym mem = "(string \<Rightarrow> (string \<times> real) list) \<times> (string \<Rightarrow> int option)"

definition mem_redis :: "mem redis" where
  "mem_redis = \<lparr>
     zremrangebyscore = (\<lambda>k lo hi (z, c). (z(k := filter (\<lambda>(m, t). \<not> (lo \<le> t \<and> t \<le> hi)) (z k)), c)),
     zadd = (\<lambda>k x m (z, c). (z(k := filter (\<lambda>p. fst p \<noteq> m) (z k) @ [(m, x)]), c)),
     zcard = (\<lambda>k (z, c). length (z k)),
     zrange = (\<lambda>k (z, c). sort_key snd (z k)),
     expire = (\<lambda>k n s. s),
     get_num = (\<lambda>k (z, c). c k),
     incr = (\<lambda>k (z, c). (z, c(k \<mapsto> opt_default (c k) 0 + 1))),
     decr = (\<lambda>k (z, c). (z, c(k \<mapsto> opt_default (c k) 0 - 1)))\<rparr>"

definition empty_mem :: mem where
  "empty_mem = (\<lambda>_. [], \<lambda>_. None)"

lemma mem_redis_ok: "redis_ok mem_redis"
proof -
  have "filter (\<lambda>p. fst p \<noteq> m) xs = xs" if "m \<notin> fst ` set xs" for m :: string and xs :: "(string \<times> real) list"
    using that by (intro filter_True) auto
  then show ?thesis
    by (auto simp: redis_ok_def mem_redis_def filter_sort)
qed

section \<open>Properties\<close>

text \<open>
  C13. The Redis limiter refines the one in memory. Where the server holds what the memory holds,
  both grant and refuse the same requests for the same reason and again hold the same; only the wait
  they ask for may differ: the script rounds it up where the memory rounds it down.
\<close>

theorem redis_acquire_refines:
  assumes "redis_ok R" and "rl_stores R l s" and "clocked l now" and "0 \<le> now"
    and "0 < per_min l \<or> 0 < max_inflight l" and "tok \<notin> fst ` set (zrange R (rl_ev_key i) s)"
  shows "let (r, s1) = redis_acquire R (per_min l) (max_inflight l) i now tok s; (r1, l1) = acquire l i now in
      rl_stores R l1 s1 \<and> clocked l1 now \<and>
      (case r1 of
         Inr u \<Rightarrow> r = Inr ()
       | Inl e \<Rightarrow> (\<exists>k. r = Inl (RateLimited k (reason e)) \<and> retry_after e \<le> k \<and> k \<le> retry_after e + 1))"
proof -
  let ?s1 = "rl_pruned R l i now s" and ?w = "pop_expired now (events_of l i)"
  let ?zs = "zrange R (rl_ev_key i) ?s1"
  note rd = rl_pruned_reads [OF assms(1-3)] and laws = redis_laws [OF assms(1)]
  have zs: "0 < per_min l \<Longrightarrow> map snd ?zs = ?w" using rd(1) [of i i] by simp
  have len: "0 < per_min l \<Longrightarrow> length ?zs = length ?w" using arg_cong [OF zs, of length] by simp
  have pruned: "rl_stores R (l\<lparr>events := f\<rparr>) ?s1"
    if "\<And>j. events_of (l\<lparr>events := f\<rparr>) j = (if j = i \<and> 0 < per_min l then ?w else events_of l j)" for f
    using rd(1,2) that by (simp add: rl_stores_def)
  show ?thesis
  proof (cases "0 < per_min l \<and> per_min l \<le> int (length ?w)")
    case True
    then obtain t ts where w: "?w = t # ts" by (cases ?w) auto
    with zs True obtain m rest where z: "?zs = (m, t) # rest" by (cases ?zs) auto
    have "now - t < WINDOW_S" using pop_expired_head [OF w] .
    then have "py_trunc (WINDOW_S - (now - t)) = \<lfloor>t + WINDOW_S - now\<rfloor>" by (simp add: py_trunc_def algebra_simps)
    with ceiling_floor_bounds [of "t + WINDOW_S - now"] True w z len pruned clocked_acquire [OF assms(3,4), of i]
    show ?thesis
      by (auto simp: redis_acquire_eq [OF assms(1,5)] acquire_def Let_def events_of_def)
  next
    case rate: False
    show ?thesis
    proof (cases "0 < max_inflight l \<and> max_inflight l \<le> inflight_of l i")
      case True
      with rate len rd(1,2) clocked_acquire [OF assms(3,4), of i] show ?thesis
        by (auto simp: redis_acquire_eq [OF assms(1,5)] acquire_def Let_def rl_stores_def events_of_def inflight_of_def)
    next
      case False
      have "map snd (zrange R (rl_ev_key i) (zadd R (rl_ev_key i) now tok ?s1)) = ?w @ [now]" if p: "0 < per_min l"
      proof -
        have "tok \<notin> fst ` set ?zs" using rd(3) [of i] assms(6) by blast
        moreover have "t \<le> now" if "t \<in> snd ` set ?zs" for t
        proof -
          have "t \<in> set ?w" using that zs [OF p] by (metis set_map)
          then have "t \<in> set (events_of l i)" using rlw.prune_subset by blast
          with assms(3) show ?thesis by (auto simp: clocked_def)
        qed
        ultimately show ?thesis using zadd_scores [OF assms(1)] zs [OF p] by simp
      qed
      then have "rl_stores R (snd (acquire l i now)) (snd (redis_acquire R (per_min l) (max_inflight l) i now tok s))"
        using rate False len rd(1,2) laws
        by (auto simp: redis_acquire_eq [OF assms(1,5)] Let_def rl_stores_def acquire_events acquire_inflight acquire_ok_iff)
      moreover have "fst (acquire l i now) = Inr ()" using rate False by (auto simp: acquire_ok_iff)
      moreover have "fst (redis_acquire R (per_min l) (max_inflight l) i now tok s) = Inr ()"
        using rate False len rd(2) [of i i] by (auto simp: redis_acquire_eq [OF assms(1,5)] Let_def)
      ultimately show ?thesis
        using clocked_acquire [OF assms(3,4), of i] by (auto split: prod.splits)
    qed
  qed
qed

theorem redis_acquire_refines_witness:
  "fst (redis_acquire mem_redis 2 1 ''ann'' 100 ''t1'' empty_mem) = Inr () \<and>
   rl_stores mem_redis (snd (acquire (new_limiter 2 1) ''ann'' 100))
     (snd (redis_acquire mem_redis 2 1 ''ann'' 100 ''t1'' empty_mem))"
proof -
  have "rl_stores mem_redis (new_limiter 2 1) empty_mem" "clocked (new_limiter 2 1) 100"
    "''t1'' \<notin> fst ` set (zrange mem_redis (rl_ev_key ''ann'') empty_mem)"
    by (simp_all add: rl_stores_def clocked_def mem_redis_def empty_mem_def)
  moreover have "fst (acquire (new_limiter 2 1) ''ann'' 100) = Inr ()" by (simp add: acquire_ok_iff)
  ultimately show ?thesis
    using redis_acquire_refines [OF mem_redis_ok, of "new_limiter 2 1" empty_mem 100 "''t1''" "''ann''"]
    by (auto split: prod.splits)
qed

text \<open>
  C14. The Redis tracker refines the one in memory. Where the server's members carry the times and
  weights of the windows, recording a verdict gives the same score on both and keeps them alike, and
  both quarantine the same identities.
\<close>

theorem redis_record_refines:
  assumes "redis_ok R" and "ab_stores R t s" and "ab_clocked t now" and "0 \<le> weight v"
    and "ab_member v tok \<notin> fst ` set (zrange R (ab_key i) s)"
  shows "fst (redis_record R (window_s t) i v now tok s) = fst (abuse_record t i v now) \<and>
    ab_stores R (snd (abuse_record t i v now)) (snd (redis_record R (window_s t) i v now tok s)) \<and>
    fst (redis_is_quarantined R (threshold t) (window_s t) i now tok s) = fst (is_quarantined t i now)"
proof -
  let ?s1 = "snd (redis_record R (window_s t) i v now tok s)"
  note st = redis_record_stores [OF assms]
  have "fst (redis_record R (window_s t) i v now tok s) = sum_list (map (\<lambda>(m, t). leading_number m) (zrange R (ab_key i) ?s1))"
    by (simp add: redis_record_result Let_def)
  also have "\<dots> = window_weight (abuse_window (snd (abuse_record t i v now)) i)"
    by (rule weights_sum) (use st in \<open>simp add: ab_stores_def\<close>)
  also have "\<dots> = fst (abuse_record t i v now)" by (simp add: abuse_record_def Let_def)
  finally have same: "fst (redis_record R (window_s t) i v now tok s) = fst (abuse_record t i v now)" .
  have "fst (redis_score R (window_s t) i now tok s) = fst (abuse_score t i now)"
    using weights_sum [OF ab_pruned [OF assms(1-3), of i i]]
    by (simp add: redis_score_def redis_record_result abuse_score_def Let_def)
  then have "fst (redis_is_quarantined R (threshold t) (window_s t) i now tok s) = fst (is_quarantined t i now)"
    by (simp add: redis_is_quarantined_def is_quarantined_fst case_prod_beta)
  with same st show ?thesis by blast
qed

theorem redis_record_refines_witness:
  "fst (redis_record mem_redis 300 ''ann'' \<lparr>suspicious = True, flags = [''timeout''], weight = 2\<rparr> 100 ''t1'' empty_mem) = 2"
proof -
  let ?v = "\<lparr>suspicious = True, flags = [''timeout''], weight = 2\<rparr>"
  have "ab_stores mem_redis (new_tracker 0 300) empty_mem" "ab_clocked (new_tracker 0 300) 100"
    "ab_member ?v ''t1'' \<notin> fst ` set (zrange mem_redis (ab_key ''ann'') empty_mem)"
    by (simp_all add: ab_stores_def ab_clocked_def mem_redis_def empty_mem_def abw.in_order_def)
  from redis_record_refines [OF mem_redis_ok this(1,2) _ this(3)]
  have "fst (redis_record mem_redis 300 ''ann'' ?v 100 ''t1'' empty_mem) = fst (abuse_record (new_tracker 0 300) ''ann'' ?v 100)"
    by simp
  also have "\<dots> = 2"
    by (simp add: abuse_record_def abuse_prune_def Let_def window_weight_def abuse_window_def dget_or_def new_tracker_def)
  finally show ?thesis .
qed

end
