(* ===== verification/Links.thy ===== *)
theory Links
  imports Files
begin

text \<open>
  A file tree with symbolic links, and what the operating system and Python's \<open>pathlib\<close>, \<open>os\<close> and
  \<open>shutil\<close> do with it, as far as the root file system is built with them. A tree maps the canonical
  paths, those without links and dots, to what is there; names are resolved against it the way the
  kernel does. Permissions, owners and times are not modelled.
\<close>

section \<open>Trees\<close>

datatype inode = Directory | Regular string | Symlink string

type_synonym tree = "path \<Rightarrow> inode option"

datatype errno = ENOENT | EEXIST | ENOTDIR | EISDIR | ENAMETOOLONG | ELOOP

text \<open>The kernel follows at most forty links and takes names of at most 4095 bytes.\<close>

definition MAXSYMLINKS :: nat where
  "MAXSYMLINKS = 40"

definition PATH_MAX :: nat where
  "PATH_MAX = 4096"

section \<open>Resolving a name\<close>

text \<open>
  From the canonical directory \<open>cur\<close>, with \<open>n\<close> links left to follow. The last segment need not exist
  and, unless \<open>follow\<close>, is not followed.
\<close>

function walk_path :: "tree \<Rightarrow> bool \<Rightarrow> nat \<Rightarrow> path \<Rightarrow> string list \<Rightarrow> errno + path" where
  "walk_path t follow n cur [] = Inr cur"
| "walk_path t follow n cur (c # cs) =
     (if c = ''..'' then walk_path t follow n (butlast cur) cs
      else case t (cur @ [c]) of
        None \<Rightarrow> if cs = [] then Inr (cur @ [c]) else Inl ENOENT
      | Some (Regular _) \<Rightarrow> if cs = [] then Inr (cur @ [c]) else Inl ENOTDIR
      | Some Directory \<Rightarrow> walk_path t follow n (cur @ [c]) cs
      | Some (Symlink target) \<Rightarrow>
          if cs = [] \<and> \<not> follow then Inr (cur @ [c])
          else if n = 0 then Inl ELOOP
          else walk_path t follow (n - 1) (if prefix ''/'' target then [] else cur) (path_segs target @ cs))"
  by pat_completeness auto
termination
  by (relation "measures [\<lambda>(t, follow, n, cur, cs). n, \<lambda>(t, follow, n, cur, cs). length cs]") auto

definition resolve_path :: "tree \<Rightarrow> bool \<Rightarrow> path \<Rightarrow> errno + path" where
  "resolve_path t follow p =
     (if PATH_MAX \<le> length (path_str p) then Inl ENAMETOOLONG else walk_path t follow MAXSYMLINKS [] p)"

definition lstat :: "tree \<Rightarrow> path \<Rightarrow> inode option" where
  "lstat t p = (case resolve_path t False p of Inl e \<Rightarrow> None | Inr q \<Rightarrow> t q)"

definition stat :: "tree \<Rightarrow> path \<Rightarrow> inode option" where
  "stat t p = (case resolve_path t True p of Inl e \<Rightarrow> None | Inr q \<Rightarrow> t q)"

text \<open>The predicates of \<open>pathlib\<close>: a name that cannot be resolved satisfies none.\<close>

definition is_symlink :: "tree \<Rightarrow> path \<Rightarrow> bool" where
  "is_symlink t p = (case lstat t p of Some (Symlink s) \<Rightarrow> True | _ \<Rightarrow> False)"

definition path_exists :: "tree \<Rightarrow> path \<Rightarrow> bool" where
  "path_exists t p = (stat t p \<noteq> None)"

definition is_dir :: "tree \<Rightarrow> path \<Rightarrow> bool" where
  "is_dir t p = (stat t p = Some Directory)"

definition is_file :: "tree \<Rightarrow> path \<Rightarrow> bool" where
  "is_file t p = (case stat t p of Some (Regular s) \<Rightarrow> True | _ \<Rightarrow> False)"

text \<open>\<open>os.readlink\<close> of a name that is a link.\<close>

definition readlink :: "tree \<Rightarrow> path \<Rightarrow> string" where
  "readlink t p = (case lstat t p of Some (Symlink s) \<Rightarrow> s | _ \<Rightarrow> [])"

text \<open>
  \<open>os.path.realpath\<close>, which goes on lexically where nothing exists. A chain of more than \<open>n\<close> links
  counts as a loop, at which it stops and leaves the rest as it is.
\<close>

function real_walk :: "tree \<Rightarrow> nat \<Rightarrow> path \<Rightarrow> string list \<Rightarrow> path" where
  "real_walk t n cur [] = cur"
| "real_walk t n cur (c # cs) =
     (if c = ''..'' then real_walk t n (butlast cur) cs
      else case t (cur @ [c]) of
        Some (Symlink target) \<Rightarrow>
          if n = 0 then cur @ c # cs
          else real_walk t (n - 1) (if prefix ''/'' target then [] else cur) (path_segs target @ cs)
      | _ \<Rightarrow> real_walk t n (cur @ [c]) cs)"
  by pat_completeness auto
termination
  by (relation "measures [\<lambda>(t, n, cur, cs). n, \<lambda>(t, n, cur, cs). length cs]") auto

definition realpath :: "tree \<Rightarrow> path \<Rightarrow> path" where
  "realpath t p = real_walk t MAXSYMLINKS [] p"

section \<open>Actions on a tree\<close>

text \<open>What makes a script end early, and actions that may do so and always leave a tree.\<close>

datatype script_error = Os_error errno | Value_error | Recursion_error

type_synonym 'a tree_act = "tree \<Rightarrow> (script_error + 'a) \<times> tree"

definition done_t :: "unit tree_act" where
  "done_t t = (Inr (), t)"

definition fail_t :: "script_error \<Rightarrow> 'a tree_act" where
  "fail_t e t = (Inl e, t)"

definition then_t :: "unit tree_act \<Rightarrow> 'a tree_act \<Rightarrow> 'a tree_act" where
  "then_t m k t = (case m t of (Inl e, u) \<Rightarrow> (Inl e, u) | (Inr x, u) \<Rightarrow> k u)"

fun each_t :: "('a \<Rightarrow> unit tree_act) \<Rightarrow> 'a list \<Rightarrow> unit tree_act" where
  "each_t f [] = done_t"
| "each_t f (x # xs) = then_t (f x) (each_t f xs)"

section \<open>Changing the tree\<close>

text \<open>A system call that creates, replaces or removes what a name resolves to.\<close>

definition at_path :: "bool \<Rightarrow> path \<Rightarrow> (path \<Rightarrow> tree \<Rightarrow> errno + inode option) \<Rightarrow> unit tree_act" where
  "at_path follow p f t =
     (case resolve_path t follow p of
        Inl e \<Rightarrow> (Inl (Os_error e), t)
      | Inr q \<Rightarrow> (case f q t of Inl e \<Rightarrow> (Inl (Os_error e), t) | Inr v \<Rightarrow> (Inr (), t(q := v))))"

definition os_mkdir :: "path \<Rightarrow> unit tree_act" where
  "os_mkdir p = at_path False p (\<lambda>q t. if t q = None then Inr (Some Directory) else Inl EEXIST)"

definition os_symlink :: "string \<Rightarrow> path \<Rightarrow> unit tree_act" where
  "os_symlink target p =
     (if target = [] then fail_t (Os_error ENOENT)
      else at_path False p (\<lambda>q t. if t q = None then Inr (Some (Symlink target)) else Inl EEXIST))"

definition unlink :: "path \<Rightarrow> unit tree_act" where
  "unlink p = at_path False p (\<lambda>q t. case t q of None \<Rightarrow> Inl ENOENT | Some Directory \<Rightarrow> Inl EISDIR | _ \<Rightarrow> Inr None)"

text \<open>\<open>open(p, "w")\<close> and a write.\<close>

definition write_file :: "path \<Rightarrow> string \<Rightarrow> unit tree_act" where
  "write_file p s = at_path True p (\<lambda>q t. if t q = Some Directory then Inl EISDIR else Inr (Some (Regular s)))"

text \<open>\<open>shutil.copy2(s, d, follow_symlinks=False)\<close> of a name \<open>s\<close> that is not a link to a new \<open>d\<close>.\<close>

definition copy2 :: "path \<Rightarrow> path \<Rightarrow> unit tree_act" where
  "copy2 s d t =
     (case resolve_path t True s of
        Inl e \<Rightarrow> fail_t (Os_error e) t
      | Inr q \<Rightarrow> (case t q of
           None \<Rightarrow> fail_t (Os_error ENOENT) t
         | Some (Regular c) \<Rightarrow> write_file d c t
         | Some _ \<Rightarrow> fail_t (Os_error EISDIR) t))"

text \<open>\<open>p.mkdir(exist_ok=True)\<close> and, with the parents, \<open>p.mkdir(parents=True, exist_ok=True)\<close>.\<close>

definition mkdir_ok :: "path \<Rightarrow> unit tree_act" where
  "mkdir_ok p t =
     (case os_mkdir p t of
        (Inl e, u) \<Rightarrow> if e \<noteq> Os_error ENOENT \<and> is_dir t p then (Inr (), t) else (Inl e, t)
      | (Inr x, u) \<Rightarrow> (Inr (), u))"

function mkdirs :: "path \<Rightarrow> unit tree_act" where
  "mkdirs p t =
     (if fst (os_mkdir p t) = Inl (Os_error ENOENT) \<and> p \<noteq> []
      then then_t (mkdirs (butlast p)) (mkdir_ok p) t
      else mkdir_ok p t)"
  by pat_completeness auto
termination
  by (relation "measure (\<lambda>(p, t). length p)") auto

declare mkdirs.simps [simp del]

section \<open>Staying below a directory\<close>

text \<open>
  A target that leads down from the link's own directory, and a tree in which all links do, with a
  directory \<open>R\<close> that is not reached through links.
\<close>

definition safe_target :: "string \<Rightarrow> bool" where
  "safe_target s \<longleftrightarrow> \<not> prefix ''/'' s \<and> ''..'' \<notin> set (path_segs s)"

definition real_dir :: "path \<Rightarrow> tree \<Rightarrow> bool" where
  "real_dir R t \<longleftrightarrow> ''..'' \<notin> set R \<and> (\<forall>p. prefix p R \<longrightarrow> t p = Some Directory)"

definition safe_tree :: "path \<Rightarrow> tree \<Rightarrow> bool" where
  "safe_tree R t \<longleftrightarrow> real_dir R t \<and> (\<forall>p s. t p = Some (Symlink s) \<longrightarrow> safe_target s)"

lemma walk_below:
  assumes "safe_tree R t" "prefix R cur" "''..'' \<notin> set cs" "walk_path t follow n cur cs = Inr q"
  shows "prefix R q"
  using assms
proof (induction t follow n cur cs rule: walk_path.induct)
  case (2 t follow n cur c cs)
  then show ?case
    by (auto simp: safe_tree_def safe_target_def split: option.splits inode.splits if_splits)
qed simp

lemma walk_real:
  "''..'' \<notin> set ds \<Longrightarrow> (\<And>es. prefix es ds \<Longrightarrow> t (cur @ es) = Some Directory) \<Longrightarrow>
     walk_path t follow n cur (ds @ cs) = walk_path t follow n (cur @ ds) cs"
proof (induction ds arbitrary: cur)
  case (Cons d ds)
  have "t (cur @ [d]) = Some Directory" by (rule Cons.prems(2)) simp
  moreover have "walk_path t follow n (cur @ [d]) (ds @ cs) = walk_path t follow n ((cur @ [d]) @ ds) cs"
    using Cons.prems(1) Cons.prems(2) [of "d # es" for es] by (intro Cons.IH) auto
  ultimately show ?case using Cons.prems(1) by (auto)
qed simp

lemma resolve_real:
  "real_dir R t \<Longrightarrow> resolve_path t follow (R @ q) =
     (if PATH_MAX \<le> length (path_str (R @ q)) then Inl ENAMETOOLONG else walk_path t follow MAXSYMLINKS R q)"
  using walk_real [of R t "[]" follow MAXSYMLINKS q] by (simp add: resolve_path_def real_dir_def)

lemma resolve_below:
  assumes "safe_tree R t" "''..'' \<notin> set q" "resolve_path t follow (R @ q) = Inr p"
  shows "prefix R p"
  using assms walk_below [of R t R q follow MAXSYMLINKS p] resolve_real [of R t follow q]
  by (auto simp: safe_tree_def split: if_splits)

lemma real_dir_prefix: "real_dir R t \<Longrightarrow> prefix p R \<Longrightarrow> real_dir p t"
  by (auto simp: real_dir_def dest: set_mono_prefix prefix_order.trans)

lemma resolve_dir:
  assumes "real_dir R t" "prefix p R" "resolve_path t follow p = Inr q"
  shows "q = p"
  using assms(3) resolve_real [OF real_dir_prefix [OF assms(1,2)], of follow "[]"] by (simp split: if_splits)

text \<open>An action that keeps the tree safe and changes nothing outside \<open>R\<close>.\<close>

definition stays :: "path \<Rightarrow> 'a tree_act \<Rightarrow> bool" where
  "stays R m \<longleftrightarrow> (\<forall>t. safe_tree R t \<longrightarrow> safe_tree R (snd (m t)) \<and> (\<forall>p. \<not> prefix R p \<longrightarrow> snd (m t) p = t p))"

named_theorems stays_intros \<open>actions that stay below the root\<close>

lemma stays_done [stays_intros]: "stays R done_t"
  by (simp add: stays_def done_t_def)

lemma stays_fail [stays_intros]: "stays R (fail_t e)"
  by (simp add: stays_def fail_t_def)

lemma stays_then [stays_intros]:
  assumes "stays R m" "stays R k"
  shows "stays R (then_t m k)"
  unfolding stays_def
proof (intro allI impI)
  fix t
  assume t: "safe_tree R t"
  obtain r u where m: "m t = (r, u)" by fastforce
  with assms(1) t have "safe_tree R u" "\<forall>p. \<not> prefix R p \<longrightarrow> u p = t p" by (auto simp: stays_def)
  with assms(2) m show "safe_tree R (snd (then_t m k t)) \<and> (\<forall>p. \<not> prefix R p \<longrightarrow> snd (then_t m k t) p = t p)"
    by (cases r) (auto simp: stays_def then_t_def)
qed

lemma stays_each [stays_intros]: "(\<And>x. x \<in> set xs \<Longrightarrow> stays R (f x)) \<Longrightarrow> stays R (each_t f xs)"
  by (induction xs) (auto intro: stays_intros)

text \<open>An action chosen by the tree it runs on.\<close>

lemma stays_choice:
  assumes "\<And>t. safe_tree R t \<Longrightarrow> \<exists>m. f t = m t \<and> stays R m"
  shows "stays R f"
  unfolding stays_def
proof (intro allI impI)
  fix t
  assume t: "safe_tree R t"
  from assms [OF t] obtain m where "f t = m t" "stays R m" by blast
  with t show "safe_tree R (snd (f t)) \<and> (\<forall>p. \<not> prefix R p \<longrightarrow> snd (f t) p = t p)"
    by (simp add: stays_def)
qed

lemma stays_optional: "stays R m \<Longrightarrow> (\<And>t. f t = m t \<or> f t = done_t t) \<Longrightarrow> stays R f"
  using stays_done [of R] by (intro stays_choice) metis

lemma safe_tree_update:
  assumes "safe_tree R t" "v = Some (Symlink s) \<Longrightarrow> safe_target s" "t p = Some Directory \<Longrightarrow> v = Some Directory"
    "\<And>s. v = Some (Symlink s) \<Longrightarrow> safe_target s"
  shows "safe_tree R (t(p := v))"
  using assms by (auto simp: safe_tree_def real_dir_def)

lemma stays_at:
  assumes "''..'' \<notin> set q"
    and "\<And>p t v. safe_tree R t \<Longrightarrow> f p t = Inr v \<Longrightarrow>
      (t p = Some Directory \<longrightarrow> v = Some Directory) \<and> (\<forall>s. v = Some (Symlink s) \<longrightarrow> safe_target s)"
  shows "stays R (at_path follow (R @ q) f)"
  unfolding stays_def
proof (intro allI impI)
  fix t
  assume t: "safe_tree R t"
  have "safe_tree R (t(p := v)) \<and> (\<forall>p'. \<not> prefix R p' \<longrightarrow> (t(p := v)) p' = t p')"
    if "resolve_path t follow (R @ q) = Inr p" "f p t = Inr v" for p v
    using resolve_below [OF t assms(1) that(1)] assms(2) [OF t that(2)] t by (auto intro!: safe_tree_update)
  with t show "safe_tree R (snd (at_path follow (R @ q) f t)) \<and>
      (\<forall>p. \<not> prefix R p \<longrightarrow> snd (at_path follow (R @ q) f t) p = t p)"
    by (auto simp: at_path_def split: sum.splits)
qed

lemma stays_os_mkdir: "''..'' \<notin> set q \<Longrightarrow> stays R (os_mkdir (R @ q))"
  unfolding os_mkdir_def by (rule stays_at) (auto split: if_splits)

lemma stays_os_symlink [stays_intros]:
  "''..'' \<notin> set q \<Longrightarrow> safe_target s \<Longrightarrow> stays R (os_symlink s (R @ q))"
  unfolding os_symlink_def by (auto intro!: stays_intros stays_at split: if_splits)

lemma stays_unlink [stays_intros]: "''..'' \<notin> set q \<Longrightarrow> stays R (unlink (R @ q))"
  unfolding unlink_def by (rule stays_at) (auto split: option.splits inode.splits)

lemma stays_write_file [stays_intros]: "''..'' \<notin> set q \<Longrightarrow> stays R (write_file (R @ q) s)"
  unfolding write_file_def by (rule stays_at) (auto split: if_splits)

lemma stays_copy2 [stays_intros]: "''..'' \<notin> set q \<Longrightarrow> stays R (copy2 s (R @ q))"
  by (rule stays_choice) (auto simp: copy2_def split: sum.splits option.splits inode.splits intro: stays_intros)

lemma mkdir_ok_same: "snd (mkdir_ok p t) = t \<or> snd (mkdir_ok p t) = snd (os_mkdir p t)"
  by (auto simp: mkdir_ok_def split: prod.splits sum.splits)

lemma stays_mkdir_ok: "''..'' \<notin> set q \<Longrightarrow> stays R (mkdir_ok (R @ q))"
  using stays_os_mkdir [of q R] mkdir_ok_same [of "R @ q"] by (simp add: stays_def) metis

lemma os_mkdir_real:
  assumes "real_dir R t" "prefix p R"
  shows "snd (os_mkdir p t) = t" "fst (os_mkdir p t) \<noteq> Inl (Os_error ENOENT)"
  using resolve_dir [OF assms, of False] resolve_real [OF real_dir_prefix [OF assms], of False "[]"] assms
  by (auto simp: os_mkdir_def at_path_def real_dir_def split: sum.splits)

lemma mkdirs_real: "real_dir R t \<Longrightarrow> prefix p R \<Longrightarrow> snd (mkdirs p t) = t"
  using os_mkdir_real [of R t p] mkdir_ok_same [of p t] by (simp add: mkdirs.simps)

lemma stays_mkdirs_real: "prefix p R \<Longrightarrow> stays R (mkdirs p)"
  using mkdirs_real [of R _ p] by (simp add: stays_def safe_tree_def)

lemma stays_mkdirs [stays_intros]: "''..'' \<notin> set q \<Longrightarrow> stays R (mkdirs (R @ q))"
proof (induction q rule: rev_induct)
  case Nil
  show ?case by (simp add: stays_mkdirs_real)
next
  case (snoc x q)
  then have "stays R (mkdirs (R @ q))" "stays R (mkdir_ok (R @ q @ [x]))"
    using stays_mkdir_ok [of "q @ [x]" R] by auto
  then show ?case
    by (intro stays_choice) (auto simp: mkdirs.simps [of "R @ q @ [x]"] butlast_append intro: stays_intros)
qed

lemma stays_mkdirs_parent [stays_intros]: "''..'' \<notin> set q \<Longrightarrow> stays R (mkdirs (butlast (R @ q)))"
proof (cases "q = []")
  case True
  have "prefix (butlast R) R" by (metis append_butlast_last_id butlast.simps(1) prefixI prefix_order.refl)
  with True show ?thesis by (simp add: stays_mkdirs_real)
next
  case False
  moreover assume "''..'' \<notin> set q"
  ultimately show ?thesis
    using stays_mkdirs [of "butlast q" R] by (auto simp: butlast_append dest: in_set_butlastD)
qed

text \<open>What \<open>readlink\<close> and \<open>realpath\<close> find in a safe tree.\<close>

lemma safe_readlink: "safe_tree R t \<Longrightarrow> is_symlink t p \<Longrightarrow> safe_target (readlink t p)"
  by (auto simp: is_symlink_def readlink_def lstat_def safe_tree_def split: option.splits inode.splits sum.splits)

lemma segments_plain: "''..'' \<notin> set (path_segs s) \<Longrightarrow> list_all plain_segment (path_segs s)"
  by (auto simp: path_segs_def list_all_iff plain_segment_def dest: py_split_notin)

lemma real_walk_plain:
  assumes "\<forall>p s. t p = Some (Symlink s) \<longrightarrow> safe_target s" "list_all plain_segment cur" "list_all plain_segment cs"
  shows "list_all plain_segment (real_walk t n cur cs)"
  using assms
proof (induction t n cur cs rule: real_walk.induct)
  case (2 t n cur c cs)
  then show ?case
    by (auto simp: safe_target_def segments_plain plain_segment_def [of "''..''"] split: option.splits inode.splits)
qed simp

lemma realpath_plain:
  "safe_tree R t \<Longrightarrow> ''..'' \<notin> set (path_segs s) \<Longrightarrow> list_all plain_segment (realpath t (path_segs s))"
  by (simp add: realpath_def safe_tree_def real_walk_plain segments_plain)

lemma plain_no_up: "list_all plain_segment p \<Longrightarrow> ''..'' \<notin> set p"
  by (auto simp: list_all_iff plain_segment_def)

lemma realpath_no_up:
  "safe_tree R t \<Longrightarrow> ''..'' \<notin> set (path_segs s) \<Longrightarrow> ''..'' \<notin> set (path_segs (path_str (realpath t (path_segs s))))"
  using realpath_plain [of R t s] by (simp add: path_segs_str plain_no_up)

end
