(* ===== verification/Rootfs.thy ===== *)
theory Rootfs
  imports Links
begin

text \<open>
  \<^verbatim>\<open>scripts/build_rootfs.py\<close>: the script that fills the read-only root file system of the
  sandboxes with the host's toolchains. The root of the sandboxes is a directory of the host's own
  tree, so what the script does through links is visible. What \<^verbatim>\<open>ldd\<close> prints, the order of
  directory listings and the order of a set are arguments.
\<close>

section \<open>The libraries of a binary\<close>

definition is_linebreak :: "char \<Rightarrow> bool" where
  "is_linebreak c = (ord_c c \<in> {10, 11, 12, 13, 28, 29, 30, 133})"

function splitlines :: "string \<Rightarrow> string list" where
  "splitlines s =
     (if s = [] then []
      else (let rest = dropWhile (\<lambda>c. \<not> is_linebreak c) s
        in takeWhile (\<lambda>c. \<not> is_linebreak c) s #
           (if rest = [] then []
            else if prefix [char_of (13::nat), char_of (10::nat)] rest then splitlines (tl (tl rest))
            else splitlines (tl rest))))"
  by pat_completeness auto
termination
proof (relation "measure length", goal_cases)
  case (2 s rest)
  then have "length rest \<le> length s" "0 < length s" "0 < length rest" by (simp_all add: length_dropWhile_le)
  then show ?case by (simp del: length_greater_0_conv)
next
  case (3 s rest)
  then have "length rest \<le> length s" "0 < length rest" by (simp_all add: length_dropWhile_le)
  then show ?case by (simp del: length_greater_0_conv)
qed simp

declare splitlines.simps [simp del]

text \<open>\<open>line.split("=>", 1)[1]\<close>, if the line has an arrow.\<close>

fun after_arrow :: "string \<Rightarrow> string option" where
  "after_arrow [] = None"
| "after_arrow (c # s) = (if prefix ''=>'' (c # s) then Some (tl s) else after_arrow s)"

definition ldd_line :: "string \<Rightarrow> string" where
  "ldd_line l =
     (let line = py_strip l
      in case after_arrow line of
           Some s \<Rightarrow> hd (py_split (CHR '' '') (py_strip s))
         | None \<Rightarrow> hd (py_split (CHR '' '') line))"

definition ldd_libs :: "string \<Rightarrow> string list" where
  "ldd_libs out = filter (\<lambda>p. prefix ''/'' p) (map ldd_line (splitlines out))"

text \<open>
  \<open>ldd b\<close> is the output of the command, or nothing when it fails with an exit code; the command is
  taken to be installed.
\<close>

definition ldd_closure :: "(string \<Rightarrow> string option) \<Rightarrow> string list \<Rightarrow> string set" where
  "ldd_closure ldd binaries =
     (\<Union>b \<in> set binaries. case ldd b of None \<Rightarrow> {} | Some out \<Rightarrow> set (ldd_libs out))"

section \<open>Copying\<close>

definition copy_one :: "path \<Rightarrow> path \<Rightarrow> unit tree_act" where
  "copy_one src_p dst = then_t (mkdirs (butlast dst)) (\<lambda>t.
     if is_symlink t src_p then
       (let link = readlink t src_p
        in if is_symlink t dst \<or> path_exists t dst then
             if is_symlink t dst \<and> readlink t dst = link then done_t t
             else if is_dir t dst \<and> \<not> is_symlink t dst then done_t t
             else then_t (unlink dst) (os_symlink link dst) t
           else os_symlink link dst t)
     else if path_exists t dst then done_t t
     else copy2 src_p dst t)"

text \<open>
  \<open>os.walk\<close>, top down, not following links: the names in a directory, links to directories among
  \<open>dirs\<close>; a directory that cannot be read is skipped. \<open>ls\<close> lists what is in a directory. Each level
  makes the name longer, and a name of \<open>PATH_MAX\<close> is not read, so that the depth is bounded.
\<close>

definition scandir :: "(tree \<Rightarrow> path \<Rightarrow> string list) \<Rightarrow> tree \<Rightarrow> path \<Rightarrow> (string list \<times> string list) option" where
  "scandir ls t p =
     (case resolve_path t True p of
        Inl e \<Rightarrow> None
      | Inr q \<Rightarrow> if t q \<noteq> Some Directory then None
          else Some (filter (\<lambda>n. is_dir t (p @ [n])) (ls t q), filter (\<lambda>n. \<not> is_dir t (p @ [n])) (ls t q)))"

definition copy_entry :: "path \<Rightarrow> path \<Rightarrow> string \<Rightarrow> unit tree_act" where
  "copy_entry rp d name t =
     (if is_symlink t (rp @ [name]) \<or> is_file t (rp @ [name]) then copy_one (rp @ [name]) (d @ [name]) t
      else done_t t)"

fun copy_walk :: "nat \<Rightarrow> (tree \<Rightarrow> path \<Rightarrow> string list) \<Rightarrow> path \<Rightarrow> path \<Rightarrow> unit tree_act" where
  "copy_walk 0 ls rp d t = done_t t"
| "copy_walk (Suc k) ls rp d t =
     (case scandir ls t rp of
        None \<Rightarrow> done_t t
      | Some (dirs, files) \<Rightarrow>
          then_t (mkdirs d)
         (then_t (each_t (copy_entry rp d) (files @ dirs))
            (each_t (\<lambda>n u. if is_symlink u (rp @ [n]) then done_t u else copy_walk k ls (rp @ [n]) (d @ [n]) u) dirs)) t)"

text \<open>Python gives up after a thousand nested calls.\<close>

fun copy_into :: "nat \<Rightarrow> (tree \<Rightarrow> path \<Rightarrow> string list) \<Rightarrow> path \<Rightarrow> string \<Rightarrow> unit tree_act" where
  "copy_into 0 ls R src = fail_t Recursion_error"
| "copy_into (Suc k) ls R src =
     (if \<not> prefix ''/'' src \<or> prefix ''//'' src \<and> \<not> prefix ''///'' src then fail_t Value_error
      else (\<lambda>t. let src_p = path_segs src; dst = R @ src_p
        in if is_dir t src_p \<and> \<not> is_symlink t src_p then copy_walk PATH_MAX ls src_p dst t
           else then_t (copy_one src_p dst)
             (\<lambda>u. if is_symlink u src_p then copy_into k ls R (path_str (realpath u src_p)) u else done_t u) t))"

definition copy_into_rootfs :: "(tree \<Rightarrow> path \<Rightarrow> string list) \<Rightarrow> path \<Rightarrow> string \<Rightarrow> unit tree_act" where
  "copy_into_rootfs = copy_into 1000"

section \<open>The skeleton\<close>

definition skeleton_dirs :: "string list" where
  "skeleton_dirs = [''proc'', ''dev'', ''tmp'', ''box'', ''etc'', ''usr/bin'', ''usr/sbin'', ''usr/lib'', ''usr/lib64'']"

definition skeleton_links :: "(string \<times> string) list" where
  "skeleton_links = [(''bin'', ''usr/bin''), (''sbin'', ''usr/sbin''), (''lib'', ''usr/lib''), (''lib64'', ''usr/lib64'')]"

definition skeleton_link :: "path \<Rightarrow> string \<times> string \<Rightarrow> unit tree_act" where
  "skeleton_link R = (\<lambda>(link, target) t.
     if \<not> path_exists t (path_join R link) \<and> \<not> is_symlink t (path_join R link)
     then os_symlink target (path_join R link) t else done_t t)"

definition unlink_missing_ok :: "path \<Rightarrow> unit tree_act" where
  "unlink_missing_ok p t = (case unlink p t of (Inl (Os_error ENOENT), u) \<Rightarrow> (Inr (), u) | r \<Rightarrow> r)"

definition newline :: char where
  "newline = char_of (10::nat)"

definition ensure_skeleton :: "path \<Rightarrow> unit tree_act" where
  "ensure_skeleton R =
     then_t (each_t (\<lambda>d. mkdirs (path_join R d)) skeleton_dirs)
    (then_t (each_t (skeleton_link R) skeleton_links)
    (then_t (each_t (\<lambda>stale. unlink_missing_ok (R @ [''etc'', stale])) [''passwd'', ''group''])
    (then_t (write_file (R @ [''etc'', ''hostname'']) (''sandbox'' @ [newline]))
            (write_file (R @ [''etc'', ''hosts'']) (''127.0.0.1 localhost'' @ [newline])))))"

section \<open>The script\<close>

record build_args =
  arg_bin :: "string list"
  arg_tree :: "string list"
  arg_link :: "string list"

definition abs_real :: "tree \<Rightarrow> string \<Rightarrow> string" where
  "abs_real t b = path_str (realpath t (path_segs b))"

definition copy_bin :: "(tree \<Rightarrow> path \<Rightarrow> string list) \<Rightarrow> path \<Rightarrow> string \<Rightarrow> unit tree_act" where
  "copy_bin ls R b t = then_t (copy_into_rootfs ls R b) (copy_into_rootfs ls R (abs_real t b)) t"

definition copy_lib :: "(tree \<Rightarrow> path \<Rightarrow> string list) \<Rightarrow> path \<Rightarrow> string \<Rightarrow> unit tree_act" where
  "copy_lib ls R l = then_t (copy_into_rootfs ls R l) (\<lambda>t. copy_into_rootfs ls R (abs_real t l) t)"

definition link_path :: "string \<Rightarrow> string" where
  "link_path sp = dropWhile (\<lambda>c. c = CHR ''/'') (takeWhile (\<lambda>c. c \<noteq> CHR '':'') sp)"

definition link_target :: "string \<Rightarrow> string" where
  "link_target sp = tl (dropWhile (\<lambda>c. c \<noteq> CHR '':'') sp)"

definition make_link :: "path \<Rightarrow> string \<Rightarrow> unit tree_act" where
  "make_link R sp =
     (if CHR '':'' \<notin> set sp then fail_t Value_error
      else (let lp = path_join R (link_path sp)
        in then_t (mkdirs (butlast lp))
          (then_t (\<lambda>t. if is_symlink t lp \<or> path_exists t lp then unlink lp t else done_t t)
             (os_symlink (link_target sp) lp))))"

definition build_main ::
  "(tree \<Rightarrow> path \<Rightarrow> string list) \<Rightarrow> (tree \<Rightarrow> string \<Rightarrow> string option) \<Rightarrow> (string set \<Rightarrow> string list) \<Rightarrow>
   path \<Rightarrow> build_args \<Rightarrow> unit tree_act" where
  "build_main ls ldd order R args =
     then_t (ensure_skeleton R)
    (then_t (each_t (copy_bin ls R) (arg_bin args))
    (then_t (\<lambda>t. each_t (copy_lib ls R) (order (ldd_closure (ldd t) (map (abs_real t) (arg_bin args)))) t)
    (then_t (each_t (copy_into_rootfs ls R) (arg_tree args))
            (each_t (make_link R) (arg_link args)))))"

section \<open>Writing below the root only\<close>

lemma stays_copy_one [stays_intros]: "''..'' \<notin> set q \<Longrightarrow> stays R (copy_one s (R @ q))"
  unfolding copy_one_def
proof (intro stays_intros)
  assume q: "''..'' \<notin> set q"
  show "stays R (\<lambda>t. if is_symlink t s then
       (let link = readlink t s
        in if is_symlink t (R @ q) \<or> path_exists t (R @ q) then
             if is_symlink t (R @ q) \<and> readlink t (R @ q) = link then done_t t
             else if is_dir t (R @ q) \<and> \<not> is_symlink t (R @ q) then done_t t
             else then_t (unlink (R @ q)) (os_symlink link (R @ q)) t
           else os_symlink link (R @ q) t)
     else if path_exists t (R @ q) then done_t t
     else copy2 s (R @ q) t)"
    by (rule stays_choice) (auto simp: Let_def intro!: q stays_intros intro: safe_readlink)
qed

text \<open>The names a directory lists are neither dots nor empty.\<close>

definition listing_ok :: "(tree \<Rightarrow> path \<Rightarrow> string list) \<Rightarrow> bool" where
  "listing_ok ls \<longleftrightarrow> (\<forall>t p. list_all plain_segment (ls t p))"

lemma stays_copy_entry:
  assumes "''..'' \<notin> set q" "n \<noteq> ''..''"
  shows "stays R (copy_entry rp (R @ q) n)"
proof -
  have "stays R (copy_one (rp @ [n]) ((R @ q) @ [n]))"
    using stays_copy_one [of "q @ [n]" R "rp @ [n]"] assms by auto
  then show ?thesis by (rule stays_optional) (simp add: copy_entry_def)
qed

lemma scandir_names:
  "listing_ok ls \<Longrightarrow> scandir ls t p = Some (dirs, files) \<Longrightarrow> n \<in> set dirs \<union> set files \<Longrightarrow> plain_segment n"
  by (auto simp: scandir_def listing_ok_def list_all_iff split: sum.splits if_splits)

lemma stays_copy_walk:
  assumes "listing_ok ls"
  shows "''..'' \<notin> set q \<Longrightarrow> stays R (copy_walk k ls rp (R @ q))"
proof (induction k arbitrary: rp q)
  case 0
  show ?case by (rule stays_choice) (auto intro: stays_intros)
next
  case (Suc k)
  show ?case
  proof (rule stays_choice)
    fix t
    show "\<exists>m. copy_walk (Suc k) ls rp (R @ q) t = m t \<and> stays R m"
    proof (cases "scandir ls t rp")
      case None
      then show ?thesis by (intro exI [of _ done_t]) (simp add: stays_done)
    next
      case (Some df)
      then obtain dirs files where df: "scandir ls t rp = Some (dirs, files)" by (cases df) auto
      have up: "''..'' \<notin> set dirs \<union> set files"
        using scandir_names [OF assms df, of "''..''"] by (auto simp: plain_segment_def)
      have "stays R (\<lambda>u. if is_symlink u (rp @ [n]) then done_t u else copy_walk k ls (rp @ [n]) ((R @ q) @ [n]) u)"
        if "n \<in> set dirs" for n
      proof -
        have "stays R (copy_walk k ls (rp @ [n]) ((R @ q) @ [n]))"
          using Suc.IH [of "q @ [n]" "rp @ [n]"] Suc.prems up that by auto
        then show ?thesis by (rule stays_optional) auto
      qed
      then show ?thesis
        using Suc.prems up df by (intro exI conjI, simp) (force intro!: stays_intros stays_copy_entry)
    qed
  qed
qed

lemma stays_copy_into:
  assumes "listing_ok ls"
  shows "''..'' \<notin> set (path_segs src) \<Longrightarrow> stays R (copy_into k ls R src)"
proof (induction k arbitrary: src)
  case (Suc k)
  let ?s = "path_segs src"
  have "stays R (\<lambda>u. if is_symlink u ?s then copy_into k ls R (path_str (realpath u ?s)) u else done_t u)"
    using Suc.IH realpath_no_up Suc.prems by (intro stays_choice) (auto intro: stays_intros)
  with Suc.prems show ?case
    by (intro stays_choice) (auto simp: Let_def intro: stays_intros stays_copy_walk [OF assms])
qed (simp add: stays_fail)

lemma stays_skeleton [stays_intros]: "stays R (ensure_skeleton R)"
proof -
  have j: "path_join R d = R @ path_segs d \<and> ''..'' \<notin> set (path_segs d)"
    if "d \<in> set skeleton_dirs \<union> fst ` set skeleton_links" for d
    using that by (auto simp: skeleton_dirs_def skeleton_links_def path_join_def path_segs_def)
  have "stays R (mkdirs (path_join R d))" if "d \<in> set skeleton_dirs" for d
    using j [of d] that by (auto intro: stays_intros)
  moreover have "stays R (skeleton_link R lt)" if "lt \<in> set skeleton_links" for lt
  proof -
    have "safe_target (snd lt)" using that by (auto simp: skeleton_links_def safe_target_def path_segs_def)
    with j [of "fst lt"] that have "stays R (os_symlink (snd lt) (path_join R (fst lt)))"
      by (auto intro: stays_intros)
    then show ?thesis by (rule stays_optional) (auto simp: skeleton_link_def split: prod.splits)
  qed
  moreover have "stays R (unlink_missing_ok (R @ [''etc'', stale]))" if "stale \<noteq> ''..''" for stale
    using stays_unlink [of "[''etc'', stale]" R] that
    by (auto simp: stays_def unlink_missing_ok_def split: prod.splits sum.splits script_error.splits errno.splits)
  ultimately show ?thesis
    unfolding ensure_skeleton_def by (auto intro!: stays_intros)
qed

text \<open>Arguments whose paths and links lead down.\<close>

definition tame_args :: "build_args \<Rightarrow> bool" where
  "tame_args a \<longleftrightarrow> list_all (\<lambda>b. ''..'' \<notin> set (path_segs b)) (arg_bin a @ arg_tree a @ map link_path (arg_link a)) \<and>
     list_all (\<lambda>sp. safe_target (link_target sp)) (arg_link a)"

lemma link_path_join: "path_join R (link_path sp) = R @ path_segs (link_path sp)"
proof -
  have "\<not> prefix ''/'' (dropWhile (\<lambda>c. c = CHR ''/'') w)" for w
    by (induction w) auto
  then have "\<not> prefix ''/'' (link_path sp)" unfolding link_path_def .
  then show ?thesis by (simp add: path_join_def)
qed

lemma stays_make_link [stays_intros]:
  assumes "''..'' \<notin> set (path_segs (link_path sp))" "safe_target (link_target sp)"
  shows "stays R (make_link R sp)"
proof -
  let ?lp = "R @ path_segs (link_path sp)"
  have "stays R (\<lambda>t. if is_symlink t ?lp \<or> path_exists t ?lp then unlink ?lp t else done_t t)"
    by (rule stays_optional [OF stays_unlink [OF assms(1)]]) simp
  from stays_then [OF stays_mkdirs_parent [OF assms(1)] stays_then [OF this stays_os_symlink [OF assms]]]
  show ?thesis by (simp add: make_link_def Let_def link_path_join stays_fail)
qed

lemma stays_copy_bin:
  assumes "listing_ok ls" "''..'' \<notin> set (path_segs b)"
  shows "stays R (copy_bin ls R b)" "stays R (copy_lib ls R b)"
proof -
  note c = stays_copy_into [OF assms(1)]
  have r: "stays R (copy_into_rootfs ls R (abs_real t b))" if "safe_tree R t" for t
    unfolding copy_into_rootfs_def abs_real_def by (rule c) (rule realpath_no_up [OF that assms(2)])
  have b: "stays R (copy_into_rootfs ls R b)"
    unfolding copy_into_rootfs_def by (rule c) (rule assms(2))
  have "\<exists>m. copy_bin ls R b t = m t \<and> stays R m" if "safe_tree R t" for t
    unfolding copy_bin_def by (intro exI conjI, rule refl) (rule stays_then [OF b r [OF that]])
  then show "stays R (copy_bin ls R b)" by (rule stays_choice)
  have "stays R (\<lambda>t. copy_into_rootfs ls R (abs_real t b) t)"
    by (rule stays_choice) (blast intro: r)
  then show "stays R (copy_lib ls R b)"
    unfolding copy_lib_def by (rule stays_then [OF b])
qed

section \<open>The depth of a copy\<close>

lemma each_cong: "(\<And>x. x \<in> set xs \<Longrightarrow> f x = g x) \<Longrightarrow> each_t f xs = each_t g xs"
  by (induction xs) auto

lemma copy_walk_fuel:
  assumes "listing_ok ls"
  shows "PATH_MAX \<le> k + length (path_str rp) \<Longrightarrow> copy_walk (k + m) ls rp d t = copy_walk k ls rp d t"
proof (induction k arbitrary: rp d t)
  case 0
  then have "scandir ls t rp = None" by (simp add: scandir_def resolve_path_def)
  then show ?case by (cases m) simp_all
next
  case (Suc k)
  show ?case
  proof (cases "scandir ls t rp")
    case (Some df)
    then obtain dirs files where df: "scandir ls t rp = Some (dirs, files)" by (cases df) auto
    have sub: "copy_walk (k + m) ls (rp @ [n]) (d @ [n]) u = copy_walk k ls (rp @ [n]) (d @ [n]) u"
      if "n \<in> set dirs" for n u
    proof (rule Suc.IH)
      have "n \<noteq> []" using scandir_names [OF assms df, of n] that by (simp add: plain_segment_def)
      then show "PATH_MAX \<le> k + length (path_str (rp @ [n]))"
        using Suc.prems by (cases n) (auto simp: path_str_def split: if_splits)
    qed
    have "each_t (\<lambda>n u. if is_symlink u (rp @ [n]) then done_t u else copy_walk (k + m) ls (rp @ [n]) (d @ [n]) u) dirs =
        each_t (\<lambda>n u. if is_symlink u (rp @ [n]) then done_t u else copy_walk k ls (rp @ [n]) (d @ [n]) u) dirs"
      by (intro each_cong ext) (simp add: sub)
    with df show ?thesis by simp
  qed simp
qed

section \<open>The skeleton, step by step\<close>

text \<open>The name of the root leaves room for those of the skeleton.\<close>

definition short_root :: "path \<Rightarrow> bool" where
  "short_root R \<longleftrightarrow> length (path_str R) + 20 < PATH_MAX"

lemma real_dir_update [simp]:
  assumes "q \<noteq> []"
  shows "real_dir R (t(R @ q := v)) = real_dir R t"
proof -
  have "p \<noteq> R @ q" if "prefix p R" for p
    using prefix_length_le [OF that] assms by auto
  then show ?thesis by (simp add: real_dir_def)
qed

lemma resolve_short:
  assumes "real_dir R t" "short_root R" "length (path_str q) \<le> 20"
  shows "resolve_path t follow (R @ q) = walk_path t follow MAXSYMLINKS R q"
proof -
  have "length (path_str (R @ q)) \<le> length (path_str R) + length (path_str q)"
    by (auto simp: path_str_def)
  with assms show ?thesis by (simp add: resolve_real short_root_def)
qed

lemma path_str_length: "length (path_str [a]) = Suc (length a)" "length (path_str [a, b]) = Suc (Suc (length a + length b))"
  by (simp_all add: path_str_def)

lemma lookup1:
  assumes "real_dir R t" "short_root R" "a \<noteq> ''..''" "length a < 10" "follow \<longrightarrow> (\<forall>s. t (R @ [a]) \<noteq> Some (Symlink s))"
  shows "resolve_path t follow (R @ [a]) = Inr (R @ [a])"
  using assms(3-5) resolve_short [OF assms(1,2), of "[a]" follow]
  by (auto simp: path_str_length split: option.splits inode.splits)

lemma lookup2:
  assumes "real_dir R t" "short_root R" "a \<noteq> ''..''" "b \<noteq> ''..''" "length a < 9" "length b < 10"
    "t (R @ [a]) = Some Directory" "follow \<longrightarrow> (\<forall>s. t (R @ [a, b]) \<noteq> Some (Symlink s))"
  shows "resolve_path t follow (R @ [a, b]) = Inr (R @ [a, b])"
  using assms(3-8) resolve_short [OF assms(1,2), of "[a, b]" follow]
  by (auto simp: path_str_length split: option.splits inode.splits)

lemma lookup2_none:
  assumes "real_dir R t" "short_root R" "a \<noteq> ''..''" "length a < 9" "length b < 10" "t (R @ [a]) = None"
  shows "resolve_path t follow (R @ [a, b]) = Inl ENOENT"
  using assms(3-6) resolve_short [OF assms(1,2), of "[a, b]" follow]
  by (auto simp: path_str_length split: option.splits inode.splits)

lemma make_new:
  assumes "real_dir R t" "short_root R" "a \<noteq> ''..''" "length a < 9" "t (R @ [a]) = None"
  shows "mkdirs (R @ [a]) t = (Inr (), t(R @ [a] \<mapsto> Directory))"
  using lookup1 [OF assms(1,2), of a False] assms
  by (simp add: mkdirs.simps [of "R @ [a]"] os_mkdir_def mkdir_ok_def at_path_def)

lemma make_new2:
  assumes "real_dir R t" "short_root R" "a \<noteq> ''..''" "b \<noteq> ''..''" "length a < 9" "length b < 10"
    "t (R @ [a]) = Some Directory" "t (R @ [a, b]) = None"
  shows "mkdirs (R @ [a, b]) t = (Inr (), t(R @ [a, b] \<mapsto> Directory))"
  using lookup2 [OF assms(1,2), of a b False] assms
  by (simp add: mkdirs.simps [of "R @ [a, b]"] os_mkdir_def mkdir_ok_def at_path_def)

lemma make_both:
  assumes "real_dir R t" "short_root R" "a \<noteq> ''..''" "b \<noteq> ''..''" "length a < 9" "length b < 10"
    "t (R @ [a]) = None" "t (R @ [a, b]) = None"
  shows "mkdirs (R @ [a, b]) t = (Inr (), t(R @ [a] \<mapsto> Directory, R @ [a, b] \<mapsto> Directory))"
proof -
  let ?u = "t(R @ [a] \<mapsto> Directory)"
  have "mkdir_ok (R @ [a, b]) ?u = (Inr (), ?u(R @ [a, b] \<mapsto> Directory))"
    using lookup2 [of R ?u a b False] assms by (simp add: os_mkdir_def mkdir_ok_def at_path_def)
  then show ?thesis
    using lookup2_none [OF assms(1,2), of a b False] make_new [OF assms(1-3)] assms
    by (simp add: mkdirs.simps [of "R @ [a, b]"] os_mkdir_def at_path_def then_t_def butlast_append)
qed

lemma make_old:
  assumes "resolve_path t False p = Inr p" "resolve_path t True p = Inr p" "t p = Some Directory"
  shows "mkdirs p t = (Inr (), t)"
  using assms by (simp add: mkdirs.simps [of p] os_mkdir_def mkdir_ok_def at_path_def is_dir_def stat_def)

lemma root_joins:
  "path_join R ''proc'' = R @ [''proc'']" "path_join R ''dev'' = R @ [''dev'']" "path_join R ''tmp'' = R @ [''tmp'']"
  "path_join R ''box'' = R @ [''box'']" "path_join R ''etc'' = R @ [''etc'']"
  "path_join R ''usr/bin'' = R @ [''usr'', ''bin'']" "path_join R ''usr/sbin'' = R @ [''usr'', ''sbin'']"
  "path_join R ''usr/lib'' = R @ [''usr'', ''lib'']" "path_join R ''usr/lib64'' = R @ [''usr'', ''lib64'']"
  "path_join R ''bin'' = R @ [''bin'']" "path_join R ''sbin'' = R @ [''sbin'']" "path_join R ''lib'' = R @ [''lib'']"
  "path_join R ''lib64'' = R @ [''lib64'']"
  by (simp_all add: path_join_def path_segs_def)

text \<open>What an empty root becomes.\<close>

definition skeleton :: "path \<Rightarrow> (path \<times> inode) list" where
  "skeleton R = [
     (R @ [''etc'', ''hosts''], Regular (''127.0.0.1 localhost'' @ [newline])),
     (R @ [''etc'', ''hostname''], Regular (''sandbox'' @ [newline])),
     (R @ [''lib64''], Symlink ''usr/lib64''), (R @ [''lib''], Symlink ''usr/lib''),
     (R @ [''sbin''], Symlink ''usr/sbin''), (R @ [''bin''], Symlink ''usr/bin''),
     (R @ [''usr'', ''lib64''], Directory), (R @ [''usr'', ''lib''], Directory),
     (R @ [''usr'', ''sbin''], Directory), (R @ [''usr'', ''bin''], Directory), (R @ [''usr''], Directory),
     (R @ [''etc''], Directory), (R @ [''box''], Directory), (R @ [''tmp''], Directory),
     (R @ [''dev''], Directory), (R @ [''proc''], Directory)]"

lemma link_new:
  assumes "real_dir R t" "short_root R" "a \<noteq> ''..''" "length a < 9" "t (R @ [a]) = None" "target \<noteq> []"
    "path_join R a = R @ [a]"
  shows "skeleton_link R (a, target) t = (Inr (), t(R @ [a] \<mapsto> Symlink target))"
  using assms lookup1 [OF assms(1-3), of False] lookup1 [OF assms(1-3), of True]
  by (simp add: skeleton_link_def path_exists_def stat_def is_symlink_def lstat_def os_symlink_def at_path_def)

lemma link_old:
  assumes "real_dir R t" "short_root R" "a \<noteq> ''..''" "length a < 9" "t (R @ [a]) = Some (Symlink s)"
    "path_join R a = R @ [a]"
  shows "skeleton_link R (a, target) t = (Inr (), t)"
  using assms lookup1 [OF assms(1-3), of False]
  by (simp add: skeleton_link_def is_symlink_def lstat_def done_t_def)

lemma stale_removed:
  assumes "real_dir R t" "short_root R" "b \<noteq> ''..''" "length b < 10" "t (R @ [''etc'']) = Some Directory"
    "t (R @ [''etc'', b]) \<noteq> Some Directory"
  shows "unlink_missing_ok (R @ [''etc'', b]) t = (Inr (), t(R @ [''etc'', b] := None))"
  using assms lookup2 [OF assms(1,2), of "''etc''" b False]
  by (auto simp: unlink_missing_ok_def unlink_def at_path_def split: option.splits inode.splits)

lemma stale_absent:
  assumes "real_dir R t" "short_root R" "b \<noteq> ''..''" "length b < 10" "t (R @ [''etc'']) = Some Directory"
    "t (R @ [''etc'', b]) = None"
  shows "unlink_missing_ok (R @ [''etc'', b]) t = (Inr (), t)"
  using stale_removed [OF assms(1-5)] assms(6) by (simp add: fun_upd_idem)

lemma etc_written:
  assumes "real_dir R t" "short_root R" "b \<noteq> ''..''" "length b < 10" "t (R @ [''etc'']) = Some Directory"
    "t (R @ [''etc'', b]) \<noteq> Some Directory" "\<forall>s. t (R @ [''etc'', b]) \<noteq> Some (Symlink s)"
  shows "write_file (R @ [''etc'', b]) s t = (Inr (), t(R @ [''etc'', b] \<mapsto> Regular s))"
  using assms lookup2 [OF assms(1,2), of "''etc''" b True]
  by (simp add: write_file_def at_path_def)

lemmas skeleton_steps = root_joins then_t_def done_t_def make_new make_both make_new2 link_new link_old
  stale_removed etc_written

lemma skeleton_stages:
  assumes "each_t (\<lambda>d. mkdirs (path_join R d)) skeleton_dirs t = (Inr (), t1)"
    and "each_t (skeleton_link R) skeleton_links t1 = (Inr (), t2)"
    and "each_t (\<lambda>stale. unlink_missing_ok (R @ [''etc'', stale])) [''passwd'', ''group''] t2 = (Inr (), t3)"
    and "write_file (R @ [''etc'', ''hostname'']) (''sandbox'' @ [newline]) t3 = (Inr (), t4)"
    and "write_file (R @ [''etc'', ''hosts'']) (''127.0.0.1 localhost'' @ [newline]) t4 = (Inr (), t5)"
  shows "ensure_skeleton R t = (Inr (), t5)"
  using assms by (simp add: ensure_skeleton_def then_t_def del: each_t.simps)

lemma skeleton_fresh:
  assumes "real_dir R t" "short_root R" "\<And>q. q \<noteq> [] \<Longrightarrow> t (R @ q) = None"
  shows "ensure_skeleton R t = (Inr (), t ++ map_of (skeleton R))"
proof -
  let ?t1 = "t(R @ [''proc''] \<mapsto> Directory, R @ [''dev''] \<mapsto> Directory, R @ [''tmp''] \<mapsto> Directory, R @ [''box''] \<mapsto> Directory,
       R @ [''etc''] \<mapsto> Directory, R @ [''usr''] \<mapsto> Directory, R @ [''usr'', ''bin''] \<mapsto> Directory,
       R @ [''usr'', ''sbin''] \<mapsto> Directory, R @ [''usr'', ''lib''] \<mapsto> Directory, R @ [''usr'', ''lib64''] \<mapsto> Directory)"
  let ?t2 = "?t1(R @ [''bin''] \<mapsto> Symlink ''usr/bin'', R @ [''sbin''] \<mapsto> Symlink ''usr/sbin'',
       R @ [''lib''] \<mapsto> Symlink ''usr/lib'', R @ [''lib64''] \<mapsto> Symlink ''usr/lib64'')"
  have dirs: "each_t (\<lambda>d. mkdirs (path_join R d)) skeleton_dirs t = (Inr (), ?t1)"
    using assms by (simp add: skeleton_dirs_def skeleton_steps)
  have links: "each_t (skeleton_link R) skeleton_links ?t1 = (Inr (), ?t2)"
    using assms by (simp add: skeleton_links_def skeleton_steps)
  have stale: "each_t (\<lambda>stale. unlink_missing_ok (R @ [''etc'', stale])) [''passwd'', ''group''] ?t2 = (Inr (), ?t2)"
    using assms by (simp add: then_t_def done_t_def stale_absent)
  have hostname: "write_file (R @ [''etc'', ''hostname'']) s ?t2 = (Inr (), ?t2(R @ [''etc'', ''hostname''] \<mapsto> Regular s))" for s
    using assms by (simp add: etc_written)
  have hosts: "write_file (R @ [''etc'', ''hosts'']) s (?t2(R @ [''etc'', ''hostname''] \<mapsto> n)) =
      (Inr (), ?t2(R @ [''etc'', ''hostname''] \<mapsto> n, R @ [''etc'', ''hosts''] \<mapsto> Regular s))" for s n
    using assms by (simp add: etc_written)
  from skeleton_stages [OF dirs links stale hostname hosts] show ?thesis by (simp add: skeleton_def)
qed

lemma skeleton_again:
  assumes "real_dir R t" "short_root R" "\<forall>(p, n) \<in> set (skeleton R). t p = Some n"
    "t (R @ [''etc'', ''passwd'']) \<noteq> Some Directory" "t (R @ [''etc'', ''group'']) \<noteq> Some Directory"
  shows "ensure_skeleton R t = (Inr (), t(R @ [''etc'', ''passwd''] := None, R @ [''etc'', ''group''] := None))"
proof -
  let ?u = "t(R @ [''etc'', ''passwd''] := None, R @ [''etc'', ''group''] := None)"
  have dirs: "each_t (\<lambda>d. mkdirs (path_join R d)) skeleton_dirs t = (Inr (), t)"
    using assms by (simp add: skeleton_dirs_def skeleton_def root_joins then_t_def done_t_def make_old lookup1 lookup2)
  have links: "each_t (skeleton_link R) skeleton_links t = (Inr (), t)"
    using assms by (simp add: skeleton_links_def skeleton_def skeleton_steps)
  have stale: "each_t (\<lambda>stale. unlink_missing_ok (R @ [''etc'', stale])) [''passwd'', ''group''] t = (Inr (), ?u)"
    using assms by (simp add: skeleton_steps skeleton_def)
  have written: "write_file (R @ [''etc'', b]) s ?u = (Inr (), ?u)"
    if "(R @ [''etc'', b], Regular s) \<in> set (skeleton R)" "b \<in> {''hostname'', ''hosts''}" for b s
  proof -
    have "t (R @ [''etc'', b]) = Some (Regular s)" "t (R @ [''etc'']) = Some Directory"
      using assms(3) that(1) by (auto simp: skeleton_def)
    then have u: "?u (R @ [''etc'', b]) = Some (Regular s)" "?u (R @ [''etc'']) = Some Directory" using that(2) by auto
    then show ?thesis
      using etc_written [of R ?u b s] assms(1,2) that(2) by (auto simp: fun_upd_idem simp del: fun_upd_apply)
  qed
  show ?thesis
    by (rule skeleton_stages [OF dirs links stale]) (rule written; simp add: skeleton_def)+
qed

section \<open>Lines of ldd\<close>

lemma after_arrow_at: "CHR ''='' \<notin> set name \<Longrightarrow> after_arrow (name @ ''=>'' @ rest) = Some rest"
  by (induction name) (auto simp: prefix_Cons)

lemma py_strip_keeps:
  "\<not> py_isspace c \<Longrightarrow> \<not> py_isspace d \<Longrightarrow> list_all py_isspace ws \<Longrightarrow> py_strip (ws @ c # s @ [d]) = c # s @ [d]"
  by (induction ws) (simp_all add: py_strip_def)

theorem ldd_line_path:
  assumes "CHR ''='' \<notin> set (c # name)" "\<not> py_isspace c" "CHR '' '' \<notin> set path"
  shows "ldd_line (char_of (9::nat) # c # name @ '' => /'' @ path @ '' ('' @ addr @ '')'') = CHR ''/'' # path"
proof -
  have sp: "py_isspace (char_of (9::nat))" "py_isspace (CHR '' '')" "\<not> py_isspace (CHR '')'')" "\<not> py_isspace (CHR ''/'')"
    by (simp_all add: py_isspace_def)
  let ?rest = "'' /'' @ path @ '' ('' @ addr @ '')''"
  have "py_strip (char_of (9::nat) # c # name @ '' => /'' @ path @ '' ('' @ addr @ '')'') =
      (c # name @ '' '') @ ''=>'' @ ?rest"
    using py_strip_keeps [of c "CHR '')''" "[char_of (9::nat)]" "name @ '' => /'' @ path @ '' ('' @ addr"] sp assms(2) by simp
  moreover have "after_arrow ((c # name @ '' '') @ ''=>'' @ ?rest) = Some ?rest"
    using assms(1) by (intro after_arrow_at) auto
  moreover have "py_strip ?rest = CHR ''/'' # path @ '' ('' @ addr @ '')''"
    using py_strip_keeps [of "CHR ''/''" "CHR '')''" "'' ''" "path @ '' ('' @ addr"] sp by simp
  moreover have "hd (py_split (CHR '' '') ((CHR ''/'' # path) @ CHR '' '' # CHR ''('' # addr @ '')'')) = CHR ''/'' # path"
    using assms(3) by (subst py_split_append) auto
  ultimately show ?thesis by (simp add: ldd_line_def Let_def)
qed

section \<open>Properties\<close>

text \<open>
  C32. The build writes below the root only. If the root is a real directory, every symbolic link of
  the tree leads down from its own directory, and so do the paths and links on the command line and
  the libraries \<^verbatim>\<open>ldd\<close> names, then whatever the script does, and even if it fails half way, nothing
  outside the root of the sandboxes is created, changed or removed, and the tree is again such a tree.
\<close>

theorem rootfs_confined:
  assumes "safe_tree R t" and "tame_args args" and "listing_ok ls" and "\<forall>libs. set (order libs) \<subseteq> libs"
    and "\<forall>u b out. ldd u b = Some out \<longrightarrow> list_all (\<lambda>l. ''..'' \<notin> set (path_segs l)) (ldd_libs out)"
  shows "safe_tree R (snd (build_main ls ldd order R args t)) \<and>
    (\<forall>p. prefix R p \<or> snd (build_main ls ldd order R args t) p = t p)"
proof -
  have bins: "stays R (each_t (copy_bin ls R) (arg_bin args))"
    using assms(2) by (auto intro!: stays_each stays_copy_bin [OF assms(3)] simp: tame_args_def list_all_iff)
  have trees: "stays R (each_t (copy_into_rootfs ls R) (arg_tree args))"
    using assms(2) unfolding copy_into_rootfs_def
    by (auto intro!: stays_each stays_copy_into [OF assms(3)] simp: tame_args_def list_all_iff)
  have links: "stays R (each_t (make_link R) (arg_link args))"
    using assms(2) by (auto intro!: stays_each stays_make_link simp: tame_args_def list_all_iff)
  have lib: "''..'' \<notin> set (path_segs l)" if l: "l \<in> set (order (ldd_closure (ldd u) bs))" for l u bs
  proof -
    from l assms(4) have "l \<in> ldd_closure (ldd u) bs" by blast
    with assms(5) show ?thesis by (auto simp: ldd_closure_def list_all_iff split: option.splits)
  qed
  have libs: "stays R (\<lambda>u. each_t (copy_lib ls R) (order (ldd_closure (ldd u) (map (abs_real u) (arg_bin args)))) u)"
  proof (rule stays_choice)
    fix u
    let ?m = "each_t (copy_lib ls R) (order (ldd_closure (ldd u) (map (abs_real u) (arg_bin args))))"
    have "stays R ?m" by (rule stays_each) (rule stays_copy_bin(2) [OF assms(3) lib])
    then show "\<exists>m. ?m u = m u \<and> stays R m" by (intro exI [of _ ?m]) simp
  qed
  have "stays R (build_main ls ldd order R args)"
    unfolding build_main_def by (intro stays_then stays_skeleton bins libs trees links)
  with assms(1) show ?thesis by (auto simp: stays_def)
qed

definition host_tree :: tree where
  "host_tree = (\<lambda>p. None)([] \<mapsto> Directory, [''r''] \<mapsto> Directory, [''opt''] \<mapsto> Directory, [''opt'', ''f''] \<mapsto> Regular ''x'',
     [''opt'', ''l''] \<mapsto> Symlink ''f'')"

lemma host_safe: "safe_tree [''r''] host_tree"
proof -
  have "prefix p [''r''] \<Longrightarrow> p = [] \<or> p = [''r'']" for p by (cases p) auto
  then show ?thesis
    by (auto simp: safe_tree_def real_dir_def host_tree_def safe_target_def path_segs_def split: if_splits)
qed

theorem rootfs_confined_witness:
  "snd (build_main (\<lambda>t p. if p = [''opt''] then [''f'', ''l''] else []) (\<lambda>t b. None) (\<lambda>libs. []) [''r'']
     \<lparr>arg_bin = [''/opt/l''], arg_tree = [''/opt''], arg_link = [''/usr/bin/g:f'']\<rparr> host_tree) [''opt'', ''f''] = Some (Regular ''x'')"
proof -
  have a: "tame_args \<lparr>arg_bin = [''/opt/l''], arg_tree = [''/opt''], arg_link = [''/usr/bin/g:f'']\<rparr>"
    by (simp add: tame_args_def safe_target_def path_segs_def link_path_def link_target_def)
  have l: "listing_ok (\<lambda>t p. if p = [''opt''] then [''f'', ''l''] else [])"
    by (simp add: listing_ok_def plain_segment_def)
  have o: "\<forall>libs. set ((\<lambda>libs. []) libs) \<subseteq> libs" by simp
  have d: "\<forall>u b out. (\<lambda>t b. None) u b = Some out \<longrightarrow> list_all (\<lambda>l. ''..'' \<notin> set (path_segs l)) (ldd_libs out)"
    by simp
  have "host_tree [''opt'', ''f''] = Some (Regular ''x'')" by (simp add: host_tree_def)
  with conjunct2 [OF rootfs_confined [OF host_safe a l o d], THEN spec, of "[''opt'', ''f'']"] show ?thesis by simp
qed

text \<open>
  C33. The skeleton. In an empty root the script makes exactly the directories, the four links and the
  two files of the skeleton, and nothing else of the tree changes. On a root that has its skeleton,
  with any toolchains copied into it, making the skeleton again succeeds and changes nothing but
  that \<open>etc/passwd\<close> and \<open>etc/group\<close> are gone.
\<close>

theorem skeleton_made_once:
  assumes "real_dir R t" and "short_root R" and "\<forall>q. q \<noteq> [] \<longrightarrow> t (R @ q) = None"
  shows "ensure_skeleton R t = (Inr (), t ++ map_of (skeleton R)) \<and>
    (\<forall>u. real_dir R u \<and> (\<forall>(p, n) \<in> set (skeleton R). u p = Some n) \<and>
         u (R @ [''etc'', ''passwd'']) \<noteq> Some Directory \<and> u (R @ [''etc'', ''group'']) \<noteq> Some Directory \<longrightarrow>
       ensure_skeleton R u = (Inr (), u(R @ [''etc'', ''passwd''] := None, R @ [''etc'', ''group''] := None)))"
  using skeleton_fresh [OF assms(1,2)] skeleton_again [OF _ assms(2)] assms(3) by blast

theorem skeleton_made_once_witness:
  "snd (ensure_skeleton [''r''] ((\<lambda>p. None)([] \<mapsto> Directory, [''r''] \<mapsto> Directory))) [''r'', ''lib''] = Some (Symlink ''usr/lib'')"
proof -
  have "prefix p [''r''] \<Longrightarrow> p = [] \<or> p = [''r'']" for p by (cases p) auto
  then have "real_dir [''r''] ((\<lambda>p. None)([] \<mapsto> Directory, [''r''] \<mapsto> Directory))" by (auto simp: real_dir_def)
  from skeleton_made_once [OF this] show ?thesis
    by (simp add: short_root_def path_str_def PATH_MAX_def skeleton_def)
qed

text \<open>
  A link to an absolute path leads out. Once such a link is in the root, as \<^verbatim>\<open>--link\<close> or the copy of
  a host's link puts it there, the kernel resolves it against the host: copying a file below it
  writes into the host's own tree.
\<close>

theorem absolute_link_escapes:
  "snd (copy_one [''opt'', ''cur'', ''f''] [''r'', ''opt'', ''cur'', ''f'']
     ((\<lambda>p. None)([] \<mapsto> Directory, [''srv''] \<mapsto> Directory, [''opt''] \<mapsto> Directory, [''opt'', ''cur''] \<mapsto> Directory,
        [''opt'', ''cur'', ''f''] \<mapsto> Regular ''x'', [''r''] \<mapsto> Directory, [''r'', ''opt''] \<mapsto> Directory,
        [''r'', ''opt'', ''cur''] \<mapsto> Symlink ''/srv''))) [''srv'', ''f''] = Some (Regular ''x'')"
  by (simp add: copy_one_def then_t_def mkdirs.simps mkdir_ok_def os_mkdir_def at_path_def is_dir_def stat_def
      resolve_path_def path_str_def PATH_MAX_def MAXSYMLINKS_def path_segs_def is_symlink_def lstat_def
      path_exists_def copy2_def write_file_def)

end
