(* ===== verification/Draining.thy ===== *)
theory Draining
  imports Jobqueue
begin

text \<open>
  The queue of \<^verbatim>\<open>app/executor/jobqueue.py\<close> makes progress: as long as it has not been stopped, the
  steps of its workers alone bring every accepted job to its end, and there are only so many of them.
\<close>

section \<open>The work that is left\<close>

text \<open>A waiting job has three steps of a worker ahead of it, a running one two, a hook one.\<close>

fun worker_work :: "worker \<Rightarrow> nat" where
  "worker_work (Busy r) = 2"
| "worker_work (Finishing r) = 1"
| "worker_work w = 0"

definition work_left :: "JobQueue \<Rightarrow> nat" where
  "work_left q = 3 * length (fifo q) + sum_list (map worker_work (workers q))"

fun worker_event :: "jq_event \<Rightarrow> bool" where
  "worker_event (Take w) = True"
| "worker_event (Finish w res now) = True"
| "worker_event (Hook_done w hist) = True"
| "worker_event _ = False"

lemma sum_list_update:
  assumes "w < length ws"
  shows "sum_list (map worker_work (ws[w := x])) + worker_work (ws ! w) = sum_list (map worker_work ws) + worker_work x"
  using assms
proof (induction ws arbitrary: w)
  case (Cons a ws)
  then show ?case by (cases w) (auto simp: algebra_simps)
qed simp

lemma worker_step_work:
  assumes "jq_step q ev q'" "worker_event ev"
  shows "work_left q' < work_left q"
  using assms
proof (cases rule: jq_step.cases)
  case (step_take w r)
  then show ?thesis
    using sum_list_update [of w "workers q" "Busy r"]
    by (auto simp: take_job_def work_left_def split: if_splits list.splits)
next
  case (step_finish w res now)
  then obtain r where w: "w < length (workers q)" "workers q ! w = Busy r" and f: "fifo q' = fifo q"
    and q': "workers q' = (workers q)[w := (if has_hook (store q r) then Finishing r else Idle)]"
    by (auto simp: finish_def split: if_splits worker.splits)
  from sum_list_update [OF w(1), of "if has_hook (store q r) then Finishing r else Idle"] w(2)
  show ?thesis by (auto simp: work_left_def f q' split: if_splits)
next
  case (step_hook w hist)
  then show ?thesis
    using sum_list_update [of w "workers q" Idle]
    by (auto simp: hook_done_def work_left_def split: if_splits worker.splits)
qed auto

lemma worker_run_work:
  "jq_run q evs q' \<Longrightarrow> list_all worker_event evs \<Longrightarrow> length evs + work_left q' \<le> work_left q"
proof (induction rule: jq_run.induct)
  case (run_snoc q evs q1 ev q2)
  from worker_step_work [OF run_snoc.hyps(2)] run_snoc show ?case by simp
qed simp

section \<open>No worker ends before the stop\<close>

definition not_stopped :: "jq_event \<Rightarrow> bool" where
  "not_stopped ev \<longleftrightarrow> (\<forall>now. ev \<noteq> End_stop now)"

definition all_working :: "nat \<Rightarrow> JobQueue \<Rightarrow> bool" where
  "all_working n q \<longleftrightarrow> length (workers q) = n \<and> Ended \<notin> set (workers q)"

lemma all_working_update:
  "all_working n q \<Longrightarrow> x \<noteq> Ended \<Longrightarrow> workers q' = (workers q)[w := x] \<Longrightarrow> all_working n q'"
  using set_update_subset_insert [of "workers q" w x] by (auto simp: all_working_def)

lemma all_working_step:
  assumes "all_working n q" "jq_step q ev q'" "not_stopped ev"
  shows "all_working n q'"
  using assms(2)
proof (cases rule: jq_step.cases)
  case (step_take w r)
  then show ?thesis
    by (intro all_working_update [OF assms(1), of "Busy r" _ w])
      (auto simp: take_job_def split: if_splits list.splits)
next
  case (step_finish w res now)
  then obtain x where "workers q' = (workers q)[w := x]" "x \<noteq> Ended"
    by (auto simp: finish_def split: if_splits worker.splits)
  then show ?thesis by (intro all_working_update [OF assms(1)])
next
  case (step_hook w hist)
  then show ?thesis
    by (intro all_working_update [OF assms(1), of Idle _ w])
      (auto simp: hook_done_def split: if_splits worker.splits)
next
  case (step_end_stop now)
  with assms(3) show ?thesis by (simp add: not_stopped_def)
qed (use assms(1) in \<open>auto simp: all_working_def submit_def submit_async_def enqueue_def get_job_def prune_def
    begin_stop_def Let_def split: if_splits option.splits\<close>)

lemma all_working_run:
  "jq_run q evs q' \<Longrightarrow> all_working n q \<Longrightarrow> list_all not_stopped evs \<Longrightarrow> all_working n q'"
  by (induction rule: jq_run.induct) (auto intro: all_working_step)

lemma worker_not_stop: "worker_event ev \<Longrightarrow> not_stopped ev"
  by (cases ev) (auto simp: not_stopped_def)

section \<open>A worker can always go on\<close>

lemma worker_enabled:
  assumes "all_working n q" "0 < n" "0 < work_left q"
  shows "\<exists>ev q'. worker_event ev \<and> jq_step q ev q'"
proof (cases "\<exists>w < length (workers q). workers q ! w \<noteq> Idle")
  case True
  then obtain w where w: "w < length (workers q)" "workers q ! w \<noteq> Idle" by blast
  then have "workers q ! w \<noteq> Ended" using assms(1) nth_mem by (fastforce simp: all_working_def)
  with w(2) consider r where "workers q ! w = Busy r" | r where "workers q ! w = Finishing r"
    by (cases "workers q ! w") auto
  then show ?thesis
  proof cases
    case 1
    with w(1) obtain q' where "finish q w (Returned new_result) 0 = Some q'" by (simp add: finish_def)
    then have "jq_step q (Finish w (Returned new_result) 0) q'" by (rule step_finish) simp
    then show ?thesis by (intro exI conjI) simp_all
  next
    case 2
    with w(1) obtain q' where "hook_done q w None = Some q'" by (simp add: hook_done_def)
    then have "jq_step q (Hook_done w None) q'" by (rule step_hook)
    then show ?thesis by (intro exI conjI) simp_all
  qed
next
  case False
  then have "worker_work v = 0" if "v \<in> set (workers q)" for v
    using that by (auto simp: in_set_conv_nth)
  then have "sum_list (map worker_work (workers q)) = 0" by (simp add: sum_list_eq_0_iff)
  with assms(3) obtain r rest where f: "fifo q = r # rest" by (cases "fifo q") (auto simp: work_left_def)
  have w: "0 < length (workers q)" "workers q ! 0 = Idle"
    using False assms(1,2) by (auto simp: all_working_def)
  with f obtain q' where "take_job q 0 = Some (r, q')" by (simp add: take_job_def)
  then have "jq_step q (Take 0) q'" by (rule step_take)
  then show ?thesis by (intro exI conjI) simp_all
qed

lemma no_work:
  assumes "work_left q = 0" "all_working n q"
  shows "fifo q = [] \<and> workers q = replicate n Idle"
proof -
  have f: "fifo q = []" and s: "\<forall>v \<in> set (workers q). worker_work v = 0"
    using assms(1) by (simp_all add: work_left_def sum_list_eq_0_iff)
  have "v = Idle" if "v \<in> set (workers q)" for v
    using s that assms(2) by (cases v) (auto simp: all_working_def)
  with assms(2) f show ?thesis by (auto simp: all_working_def intro: replicate_eqI)
qed

lemma drained_finished:
  assumes "jq_inv q" "fifo q = []" "workers q = replicate n Idle" "r < next_ref q"
  shows "finished_at (store q r) \<noteq> None" "unfinished q = 0"
proof -
  have b: "busy_refs q = {}" "busy_at q = {}" using assms(3) by (auto simp: busy_refs_def busy_at_def)
  obtain k where k: "taken_inv k q" using assms(1) by (auto simp: jq_inv_def)
  then have "k \<le> next_ref q" "[k..<next_ref q] = []" using assms(2) by (auto simp: taken_inv_def)
  then have "k = next_ref q" by auto
  with k assms(4) b show "finished_at (store q r) \<noteq> None" unfolding taken_inv_def by auto
  show "unfinished q = 0" using assms(1,2) b by (simp add: jq_inv_def workers_inv_def)
qed

lemma worker_step_refs: "jq_step q ev q' \<Longrightarrow> worker_event ev \<Longrightarrow> next_ref q' = next_ref q"
  by (induction rule: jq_step.induct)
    (auto simp: take_job_def finish_def hook_done_def split: if_splits list.splits worker.splits)

lemma worker_run_refs: "jq_run q evs q' \<Longrightarrow> list_all worker_event evs \<Longrightarrow> next_ref q' = next_ref q"
  by (induction rule: jq_run.induct) (auto dest: worker_step_refs)

section \<open>Properties\<close>

text \<open>
  C27. Accepted jobs are finished. Wherever the queue has got to, unless it was stopped, the steps of
  its workers are bounded by the work that is left, and a worker can make no further step only when
  nothing is left to do: then the queue is empty, every worker waits, every job that was
  accepted has been finished, and \<open>join\<close> has nothing to wait for.
\<close>

theorem queue_drains:
  assumes "jq_run (start (new_queue n depth ttl)) evs q" and "list_all not_stopped evs" and "0 < n"
    and "jq_run q later q'" and "list_all worker_event later"
  shows "length later \<le> work_left q \<and>
    (if \<exists>ev q''. worker_event ev \<and> jq_step q' ev q'' then length later < work_left q
     else fifo q' = [] \<and> workers q' = replicate n Idle \<and> unfinished q' = 0 \<and>
       list_all (\<lambda>r. finished_at (store q' r) \<noteq> None) [0..<next_ref q])"
proof -
  have w0: "all_working n (start (new_queue n depth ttl))"
    by (simp add: all_working_def start_def new_queue_def)
  have nl: "list_all not_stopped later" using assms(5) by (auto simp: list_all_iff worker_not_stop)
  note w = all_working_run [OF assms(4) all_working_run [OF assms(1) w0 assms(2)] nl]
  have inv: "jq_inv q'" using jq_run_inv [OF assms(4)] jq_run_inv [OF assms(1) start_inv] by blast
  note len = worker_run_work [OF assms(4,5)]
  show ?thesis
  proof (cases "work_left q' = 0")
    case True
    have no: "\<not> (\<exists>ev q''. worker_event ev \<and> jq_step q' ev q'')"
      using worker_step_work True by fastforce
    note e = no_work [OF True w]
    have "list_all (\<lambda>r. finished_at (store q' r) \<noteq> None) [0..<next_ref q]"
      using drained_finished(1) [OF inv] e worker_run_refs [OF assms(4,5)] by (auto simp: list_all_iff)
    moreover have "unfinished q' = 0"
    proof -
      have "busy_at q' = {}" using e by (auto simp: busy_at_def)
      then show ?thesis using inv e by (simp add: jq_inv_def workers_inv_def)
    qed
    ultimately show ?thesis using no e len by auto
  next
    case False
    with worker_enabled [OF w assms(3)] len show ?thesis by auto
  qed
qed

theorem queue_drains_witness:
  "length ([] :: jq_event list) \<le> work_left after_one_job \<and> work_left after_one_job = 1"
proof -
  have "list_all not_stopped one_job" by (simp add: one_job_def not_stopped_def)
  from queue_drains [OF one_job_run this _ run_Nil] show ?thesis
    by (simp add: work_left_def after_one_job_def start_def new_queue_def)
qed

end
