(* ===== verification/Websocket.thy ===== *)
theory Websocket
  imports Routes Json
begin

text \<open>
  The WebSocket of \<^verbatim>\<open>app/api/routes.py\<close> from the first frame to the end: what the text frames of a
  client mean, the traffic of a live terminal with all its ways to end, and the end of the handler.
\<close>

section \<open>Python's conversions\<close>

text \<open>
  \<open>str\<close> and \<open>int\<close> of a value read from JSON. How a float prints and what its whole part is, which
  there is none of for NaN and the infinities, depend on the text it was written as.
\<close>

record float_text =
  fl_repr :: "string \<Rightarrow> string"
  fl_int :: "string \<Rightarrow> int option"

fun json_repr :: "float_text \<Rightarrow> json \<Rightarrow> string" where
  "json_repr fl JNull = ''None''"
| "json_repr fl (JBool b) = (if b then ''True'' else ''False'')"
| "json_repr fl (JInt i) = show_int i"
| "json_repr fl (JFloat s) = fl_repr fl s"
| "json_repr fl (JStr s) = py_repr s"
| "json_repr fl (JList xs) = ''['' @ py_join '', '' (map (json_repr fl) xs) @ '']''"
| "json_repr fl (JObj kvs) = ''{'' @ py_join '', '' (map (\<lambda>(k, v). py_repr k @ '': '' @ json_repr fl v) kvs) @ ''}''"

definition py_str :: "float_text \<Rightarrow> json \<Rightarrow> string" where
  "py_str fl j = (case j of JStr s \<Rightarrow> s | _ \<Rightarrow> json_repr fl j)"

text \<open>Digits with single underscores between them, after an optional sign; \<open>None\<close> is a \<open>ValueError\<close>.\<close>

definition int_of_text :: "string \<Rightarrow> int option" where
  "int_of_text s =
     (let t = py_strip s;
          signed = (t \<noteq> [] \<and> hd t \<in> {CHR ''+'', CHR ''-''});
          gs = py_split (CHR ''_'') (if signed then tl t else t)
      in if list_all (\<lambda>g. g \<noteq> [] \<and> list_all is_digit g) gs
         then Some (if signed \<and> hd t = CHR ''-'' then - int (digits_val (concat gs)) else int (digits_val (concat gs)))
         else None)"

definition py_int :: "float_text \<Rightarrow> json \<Rightarrow> int option" where
  "py_int fl j = (case j of JInt i \<Rightarrow> Some i | JBool b \<Rightarrow> Some (if b then 1 else 0)
     | JFloat s \<Rightarrow> fl_int fl s | JStr s \<Rightarrow> int_of_text s | _ \<Rightarrow> None)"

section \<open>Frames\<close>

text \<open>A text frame: no JSON is ignored, JSON that is no object raises, and so does a size that is no number.\<close>

definition decode_frame :: "float_text \<Rightarrow> string \<Rightarrow> client_frame" where
  "decode_frame fl s =
     (case loads s of
        None \<Rightarrow> F_ignored
      | Some (JObj obj) \<Rightarrow>
          if dget obj ''type'' = Some (JStr ''input'') then F_input (py_str fl (dget_or obj ''data'' (JStr [])))
          else if dget obj ''type'' = Some (JStr ''resize'') then
            (case (py_int fl (dget_or obj ''rows'' (JInt 24)), py_int fl (dget_or obj ''cols'' (JInt 80))) of
               (Some rows, Some cols) \<Rightarrow> F_resize rows cols | _ \<Rightarrow> F_raises)
          else F_ignored
      | Some _ \<Rightarrow> F_raises)"

text \<open>What \<open>websocket.receive()\<close> returns.\<close>

datatype ws_message = Ws_disconnect | Ws_text string | Ws_bytes "byte list" | Ws_empty

definition frame_of :: "float_text \<Rightarrow> ws_message \<Rightarrow> client_frame" where
  "frame_of fl m = (case m of Ws_disconnect \<Rightarrow> F_disconnect | Ws_text s \<Rightarrow> decode_frame fl s
     | Ws_bytes bs \<Rightarrow> F_bytes bs | Ws_empty \<Rightarrow> F_ignored)"

section \<open>A live terminal\<close>

text \<open>
  What can happen while the handler waits: a message of the client (with the clock and what the pty
  takes of its input), output of the shell, a turn of the task that forwards it, a tick of the
  watchdog, the end of the process.
\<close>

datatype ws_input = Client ws_message real "nat list" bool | Pty "byte list option" | Drain bool | Tick real | Proc_ended

fun serve_step :: "terminal_settings \<Rightarrow> host \<Rightarrow> float_text \<Rightarrow> ws_input \<Rightarrow> TerminalSession \<times> world \<Rightarrow> TerminalSession \<times> world" where
  "serve_step S H fl (Client m now ns broken) sw = snd (snd (pump_client (settings.truncate S) H now ns broken (frame_of fl m) sw))"
| "serve_step S H fl (Pty data) sw = (on_readable data (fst sw), snd sw)"
| "serve_step S H fl (Drain ok) sw = drain_output (settings.truncate S) H ok sw"
| "serve_step S H fl (Tick now) sw = watchdog S H now sw"
| "serve_step S H fl Proc_ended sw = wait_proc (settings.truncate S) H sw"

text \<open>The handler waits until the client is done or the session is closed.\<close>

fun serve :: "terminal_settings \<Rightarrow> host \<Rightarrow> float_text \<Rightarrow> ws_input list \<Rightarrow> TerminalSession \<times> world \<Rightarrow> TerminalSession \<times> world" where
  "serve S H fl [] sw = sw"
| "serve S H fl (ev # evs) sw = (if t_closed (fst sw) then sw else serve S H fl evs (serve_step S H fl ev sw))"

text \<open>Then it closes the session; a close that does anything calls \<open>unregister\<close>.\<close>

definition ws_session ::
  "terminal_settings \<Rightarrow> host \<Rightarrow> float_text \<Rightarrow> ws_input list \<Rightarrow> TerminalSession \<Rightarrow> app_state \<Rightarrow> world \<Rightarrow>
   TerminalSession \<times> app_state \<times> world" where
  "ws_session S H fl evs s app w =
     (let (s1, w1) = close (settings.truncate S) H None (serve S H fl evs (s, w))
      in (s1, (if t_close_calls s < t_close_calls s1
               then app\<lparr>terminals := unregister (terminals app) (t_id s) (identity_name s)\<rparr> else app), w1))"

section \<open>Frames and what they were written from\<close>

lemma decode_input: "decode_frame fl (dumps (JObj [(''type'', JStr ''input''), (''data'', JStr d)])) = F_input d"
  by (simp add: decode_frame_def loads_dumps py_str_def dget_or_def del: dumps.simps)

lemma decode_resize:
  "decode_frame fl (dumps (JObj [(''type'', JStr ''resize''), (''rows'', JInt r), (''cols'', JInt c)])) = F_resize r c"
  by (simp add: decode_frame_def loads_dumps py_int_def dget_or_def del: dumps.simps)

section \<open>A session is live or closed\<close>

definition live :: "TerminalSession \<Rightarrow> TerminalSession \<Rightarrow> bool" where
  "live s0 s \<longleftrightarrow> \<not> t_closed s \<and> t_close_calls s = t_close_calls s0 \<and> t_id s = t_id s0 \<and>
     identity_name s = identity_name s0"

definition session_state_of :: "settings \<Rightarrow> host \<Rightarrow> TerminalSession \<times> world \<Rightarrow> TerminalSession \<times> world \<Rightarrow> bool" where
  "session_state_of S H sw0 sw \<longleftrightarrow>
     live (fst sw0) (fst sw) \<and> snd sw = snd sw0 \<or>
     (\<exists>why s. live (fst sw0) s \<and> sw = close S H why (s, snd sw0))"

lemma close_state:
  "live (fst sw0) s \<Longrightarrow> w = snd sw0 \<Longrightarrow> session_state_of S H sw0 (close S H why (s, w))"
  by (auto simp: session_state_of_def)

lemma live_state: "live (fst sw0) s \<Longrightarrow> w = snd sw0 \<Longrightarrow> session_state_of S H sw0 (s, w)"
  by (simp add: session_state_of_def)

lemma pump_client_state:
  assumes "live (fst sw0) s" "w = snd sw0"
  shows "session_state_of S H sw0 (snd (snd (pump_client S H now ns broken fr (s, w))))"
proof -
  have feed: "session_state_of S H sw0 (close S H None (s1, w)) \<and> session_state_of S H sw0 (s1, w)"
    if "write_session now ns broken bs s = (out, stop, s1)" for bs out stop s1
  proof -
    have "live (fst sw0) s1"
      using assms(1) that by (auto simp: write_session_def live_def split: if_splits)
    with assms(2) show ?thesis by (simp add: close_state live_state)
  qed
  show ?thesis
  proof (cases fr)
    case (F_input str)
    obtain out stop s1 where "write_session now ns broken (utf8_encode str) s = (out, stop, s1)" by (metis prod_cases3)
    with feed [OF this] F_input show ?thesis by (simp add: pump_client_def)
  next
    case (F_bytes bs)
    obtain out stop s1 where "write_session now ns broken bs s = (out, stop, s1)" by (metis prod_cases3)
    with feed [OF this] F_bytes show ?thesis by (simp add: pump_client_def)
  qed (simp_all add: pump_client_def assms close_state live_state)
qed

lemma serve_step_state:
  assumes "live (fst sw0) (fst sw)" "snd sw = snd sw0"
  shows "session_state_of (settings.truncate S) H sw0 (serve_step S H fl ev sw)"
proof -
  obtain s w where sw: "sw = (s, w)" by (cases sw)
  have l: "live (fst sw0) s" and w: "w = snd sw0" using assms sw by simp_all
  have "live (fst sw0) (s\<lparr>t_outq := q\<rparr>)" "live (fst sw0) (s\<lparr>t_proc := p\<rparr>)" "live (fst sw0) (s\<lparr>t_outq := q, t_sent := o1\<rparr>)"
    for q p o1 using l by (simp_all add: live_def)
  note ok = this l w
  show ?thesis
  proof (cases ev)
    case (Client m now ns broken)
    with pump_client_state [OF l w] show ?thesis by (simp add: sw)
  next
    case (Pty data)
    then show ?thesis by (cases data) (simp_all add: sw on_readable_def ok live_state)
  next
    case (Drain good)
    show ?thesis
    proof (cases "t_outq s")
      case (Cons x q)
      with Drain show ?thesis by (cases x) (simp_all add: sw drain_output_def ok live_state close_state)
    qed (simp add: Drain sw drain_output_def ok live_state)
  next
    case (Tick now)
    then show ?thesis by (simp add: sw watchdog_def Let_def ok live_state close_state)
  next
    case Proc_ended
    then show ?thesis by (simp add: sw wait_proc_def Let_def ok close_state)
  qed
qed

lemma closed_state: "session_state_of S H sw0 sw \<Longrightarrow> t_closed (fst sw) \<Longrightarrow> \<exists>why s. live (fst sw0) s \<and> sw = close S H why (s, snd sw0)"
  by (auto simp: session_state_of_def live_def)

lemma serve_state:
  "session_state_of (settings.truncate S) H sw0 sw \<Longrightarrow> session_state_of (settings.truncate S) H sw0 (serve S H fl evs sw)"
proof (induction evs arbitrary: sw)
  case (Cons ev evs)
  show ?case
  proof (cases "t_closed (fst sw)")
    case False
    then have "live (fst sw0) (fst sw)" "snd sw = snd sw0"
      using Cons.prems by (auto simp: session_state_of_def)
    from Cons.IH [OF serve_step_state [OF this]] False show ?thesis by simp
  qed (simp add: Cons.prems)
qed simp

text \<open>Whatever happened, after the last \<open>close\<close> the session is what one \<open>close\<close> makes of a live one.\<close>

lemma ws_session_close:
  assumes "\<not> t_closed s" "ws_session S H fl evs s app w = (s1, app1, w1)"
  obtains why s0 where "live s s0" "(s1, w1) = close (settings.truncate S) H why (s0, w)"
proof -
  let ?S = "settings.truncate S" and ?sw = "serve S H fl evs (s, w)"
  have st: "session_state_of ?S H (s, w) ?sw"
    by (rule serve_state) (use assms(1) in \<open>simp add: session_state_of_def live_def\<close>)
  have e: "(s1, w1) = close ?S H None ?sw" using assms(2) by (auto simp: ws_session_def split: prod.splits)
  show thesis
  proof (cases "t_closed (fst ?sw)")
    case True
    then have "close ?S H None ?sw = ?sw" by (simp add: close_def Let_def)
    with closed_state [OF st True] e that show ?thesis by auto
  next
    case False
    with st have "live s (fst ?sw)" "snd ?sw = w" by (auto simp: session_state_of_def)
    with e that [of "fst ?sw" None] show ?thesis by (metis prod.collapse)
  qed
qed

section \<open>Starting and stopping\<close>

lemma close_live:
  assumes "\<not> t_closed s" "(s1, w1) = close S H why (s, w)"
  shows "t_closed s1" "t_close_calls s1 = t_close_calls s + 1"
    "done_log w1 = done_log w @ [Kill_called (t_id s)] @
       (if h_control H (length (done_log w)) (kill_cmd S (session_state S s) (t_id s)) = None then [Delete_called (t_id s)] else []) @
       (if t_proc s = Some True then [Proc_killed (t_id s)] else [])"
    "files w1 (session_dir S s @ p) = None"
  using assms
  by (auto simp: close_def Let_def close_container_def bind_act_def kill_def delete_container_def control_def rmtree_def
      split: option.splits)

text \<open>Leaving undoes entering.\<close>

lemma unregister_register:
  assumes "manager_ok m" "dget (sessions m) sid = None"
  shows "sessions (unregister (register m sid i) sid i) = sessions m"
    "counted (unregister (register m sid i) sid i) j = counted m j"
proof -
  have "sid \<notin> fst ` set (sessions m)" using assms(2) by (simp add: map_of_eq_None_iff)
  then show "sessions (unregister (register m sid i) sid i) = sessions m"
    by (simp add: unregister_def register_def Let_def dset_fresh [OF assms(2)] AList.delete_eq filter_id_conv) force
  have "counted m j = int (sessions_of m j)" using assms(1) by (simp add: manager_ok_def)
  then show "counted (unregister (register m sid i) sid i) j = counted m j"
    by (auto simp: unregister_def register_def Let_def)
qed

section \<open>A small terminal\<close>

definition example_floats :: float_text where
  "example_floats = \<lparr>fl_repr = (\<lambda>s. s), fl_int = (\<lambda>s. None)\<rparr>"

definition quiet_settings :: terminal_settings where
  "quiet_settings = settings.extend example_settings \<lparr>MAX_LIFETIME_S = 1200, IDLE_TIMEOUT_S = 300\<rparr>"

lemma quiet_settings [simp]: "settings.truncate quiet_settings = example_settings"
  by (simp add: quiet_settings_def settings.extend_def settings.truncate_def)

section \<open>Properties\<close>

text \<open>
  C19. A terminal is cleaned up once. From a ticket that got a shell to the end of the connection,
  whatever the client sent and whatever happened in between, exactly one container was launched; it
  was killed exactly once, and deleted exactly once unless the command that kills it raised, in which
  case it was not deleted at all; the session is closed and told so once, its directory is gone, and
  the manager, if no other terminal came or went meanwhile, counts exactly the sessions it counted
  before.
\<close>

theorem terminal_session_complete:
  assumes "manager_ok (terminals app)" and "dget (sessions (terminals app)) sid = None"
    and "terminal_ws (settings.truncate S) H net con sid token now app w = (Ws_ready, Some s, app1, w1)"
    and "ws_session S H fl evs s app1 w1 = (s2, app2, w2)"
  shows "t_closed s2 \<and> t_close_calls s2 = 1 \<and>
    (\<exists>sp tail. sp_cid sp = sid \<and> set tail \<subseteq> {Proc_killed sid} \<and>
       done_log w2 = done_log w @ [Launched sp, Kill_called sid] @
         (if h_control H (Suc (length (done_log w)))
               (kill_cmd (settings.truncate S) (path_join (path_join (RUNS_DIR (settings.truncate S)) sid) ''state'') sid) = None
          then [Delete_called sid] else []) @ tail) \<and>
    (\<forall>p. files w2 (path_join (RUNS_DIR (settings.truncate S)) sid @ p) = None) \<and>
    sessions (terminals app2) = sessions (terminals app) \<and> (\<forall>i. counted (terminals app2) i = counted (terminals app) i)"
proof -
  let ?S = "settings.truncate S"
  have "\<exists>d::ticket. start_terminal ?S H con (new_session sid (tk_identity d) (tk_files d), w) = (Inr (), s, w1) \<and>
      terminals app1 = register (terminals app) sid (tk_identity d)"
    using assms(3)
  proof (cases rule: terminal_ws_cases)
    case (Started d x)
    then show ?thesis by (intro exI [of _ d]) simp
  qed simp_all
  then obtain d :: ticket where st: "start_terminal ?S H con (new_session sid (tk_identity d) (tk_files d), w) = (Inr (), s, w1)"
    and app1: "terminals app1 = register (terminals app) sid (tk_identity d)" by blast
  let ?s0 = "new_session sid (tk_identity d) (tk_files d)"
  note sr = start_terminal_ready [OF st] and sw = start_terminal_world(3,4) [OF st]
  have s: "\<not> t_closed s" "t_close_calls s = 0" "t_id s = sid" "identity_name s = tk_identity d"
    using sr sw by (simp_all add: new_session_def)
  obtain why sl where l: "live s sl" "(s2, w2) = close ?S H why (sl, w1)"
    by (rule ws_session_close [OF s(1) assms(4)])
  have sl: "\<not> t_closed sl" "t_id sl = sid" "t_close_calls sl = 0" using l(1) s by (simp_all add: live_def)
  note cl = close_live [OF sl(1) l(2)]
  have "t_close_calls s < t_close_calls s2" using cl(2) s(2) sl(3) by simp
  then have app2: "terminals app2 = unregister (terminals app1) sid (tk_identity d)"
    using assms(4) s by (auto simp: ws_session_def split: prod.splits)
  have dir: "session_dir ?S sl = path_join (RUNS_DIR ?S) sid" by (simp add: session_dir_def sl)
  have "\<exists>sp tail. sp_cid sp = sid \<and> set tail \<subseteq> {Proc_killed sid} \<and>
       done_log w2 = done_log w @ [Launched sp, Kill_called sid] @
         (if h_control H (Suc (length (done_log w))) (kill_cmd ?S (path_join (path_join (RUNS_DIR ?S) sid) ''state'') sid) = None
          then [Delete_called sid] else []) @ tail"
    using cl(3) sr(4)
    by (intro exI [of _ "terminal_spec ?S ?s0"] exI [of _ "if t_proc sl = Some True then [Proc_killed sid] else []"])
      (simp add: sl terminal_spec_def new_session_def session_state_def dir)
  then show ?thesis
    using cl(1,2,4) sl(3) unregister_register [OF assms(1,2)] by (simp add: app1 app2 dir)
qed

theorem terminal_session_complete_witness:
  "\<exists>s app1 w1. terminal_ws example_settings (example_host (Some 0) []) (\<lambda>op. True) (Handshake (Inr [(1, 1, [7, 0, 0, 0])]) 6) ''t1'' ''tk'' 5
       ticket_app empty_world = (Ws_ready, Some s, app1, w1) \<and>
     t_closed (fst (ws_session quiet_settings (example_host (Some 0) []) example_floats [Client (Ws_bytes [65]) 7 [1] False, Proc_ended] s app1 w1))"
proof -
  obtain s app1 w1 where r: "terminal_ws example_settings (example_host (Some 0) []) (\<lambda>op. True) (Handshake (Inr [(1, 1, [7, 0, 0, 0])]) 6) ''t1'' ''tk'' 5
      ticket_app empty_world = (Ws_ready, Some s, app1, w1)" using example_ready by blast
  obtain s2 app2 w2 where e: "ws_session quiet_settings (example_host (Some 0) []) example_floats [Client (Ws_bytes [65]) 7 [1] False, Proc_ended] s app1 w1
      = (s2, app2, w2)" by (metis prod_cases3)
  from terminal_session_complete [OF ticket_facts(4) _ _ e, unfolded quiet_settings, OF _ r] ticket_facts(5) r e
  show ?thesis by simp
qed

text \<open>To the manager, the end of a connection is the event \<open>Closed\<close> of its sequences.\<close>

theorem ws_session_event:
  assumes "\<not> t_closed s" and "dget (sessions (terminals app)) (t_id s) = Some (identity_name s)"
    and "ws_session S H fl evs s app w = (s1, app1, w1)"
  shows "terminals app1 = manager (ws_run admin \<lparr>manager = terminals app, pending = []\<rparr> [Closed (t_id s)])"
proof -
  obtain why sl where l: "live s sl" "(s1, w1) = close (settings.truncate S) H why (sl, w)"
    by (rule ws_session_close [OF assms(1,3)])
  then have "t_close_calls s < t_close_calls s1"
    using close_live(2) [of sl s1 w1 "settings.truncate S" H why w] by (simp add: live_def)
  with assms(2,3) show ?thesis
    by (auto simp: ws_session_def ws_run_def end_session_def split: prod.splits)
qed

text \<open>
  A client lost at the last moment. When the word that the shell is ready cannot be sent, the handler
  ends outside its \<^verbatim>\<open>try\<close> without closing: the session stays open and registered, and only its own
  tasks close it, at the latest by the tick of the watchdog at which it has reached the maximum
  lifetime.
\<close>

lemma serve_start: "\<not> t_closed (fst (serve_step S H fl ev sw)) \<Longrightarrow> t_start (fst (serve_step S H fl ev sw)) = t_start (fst sw)"
  by (cases ev) (auto simp: pump_client_def on_readable_def drain_output_def watchdog_def wait_proc_def write_session_def Let_def
      split: client_frame.splits option.splits list.splits prod.splits if_splits)

lemma serve_watched:
  "Tick t \<in> set evs \<Longrightarrow> MAX_LIFETIME_S S \<le> t - t_start (fst sw) \<Longrightarrow> t_closed (fst (serve S H fl evs sw))"
proof (induction evs arbitrary: sw)
  case (Cons ev evs)
  have stay: "t_closed (fst sw) \<Longrightarrow> t_closed (fst (serve S H fl evs sw))" for sw by (cases evs) simp_all
  show ?case
  proof (cases "t_closed (fst sw) \<or> ev = Tick t")
    case True
    with Cons.prems(2) stay [of "watchdog S H t sw"] show ?thesis by (auto simp: watchdog_def Let_def)
  next
    case False
    then have "Tick t \<in> set evs" using Cons.prems(1) by auto
    with Cons False stay serve_start [of S H fl ev sw] show ?thesis by (cases "t_closed (fst (serve_step S H fl ev sw))") simp_all
  qed
qed simp

theorem unready_session_stays:
  assumes "terminal_ws (settings.truncate S) H net con sid token now app w = (Ws_gone, Some s, app1, w1)" and "t_fd s"
  shows "\<not> net Op_ready \<and> \<not> t_closed s \<and> sid \<in> set (dkeys (sessions (terminals app1))) \<and>
    (MAX_LIFETIME_S S \<le> t - t_start s \<longrightarrow> Tick t \<in> set evs \<longrightarrow> t_closed (fst (serve S H fl evs (s, w1))))"
  using assms(1)
proof (cases rule: terminal_ws_cases)
  case (Failed d x e)
  with assms(2) start_close_calls(3) [OF Failed(5)] show ?thesis by simp
next
  case (Started d x)
  have "sid \<in> set (dkeys (sessions (register m sid i)))" for m i
    by (simp add: register_def dkeys_def dom_map_of_conv_image_fst [symmetric])
  with Started start_terminal_ready(1) [OF Started(5)] serve_watched [of t evs S "(s, w1)" H fl] show ?thesis
    by (simp add: new_session_def split: if_splits)
qed simp

text \<open>
  C38. A handshake that fails leaves its container. When the container was launched and its message
  on the console socket brings no descriptor, the client is told so and the manager forgets the
  session, which was never closed: nobody kills or deletes the container, no later shutdown reaches it,
  and its directory stays.
\<close>

theorem failed_handshake_leaks:
  assumes "fst (consume_ticket app token now) = Some d"
    and "rejection (terminals app) (tk_identity d) (tk_is_admin d) = None" and "net Op_accept"
    and "bind_act (prepare_terminal S (new_session sid (tk_identity d) (tk_files d)))
           (\<lambda>_. launch H (terminal_spec S (new_session sid (tk_identity d) (tk_files d)))) w = (Inr pr, w1)"
    and "recv_fd msg = Inl e"
  shows "\<exists>s app1. terminal_ws S H net (Handshake msg t) sid token now app w =
      (if net Op_error \<and> net Op_close then Ws_error (exn_msg e) else Ws_gone, Some s, app1, w1) \<and>
    \<not> t_closed s \<and> sid \<notin> set (dkeys (sessions (terminals app1))) \<and>
    done_log w1 = done_log w @ [Launched (terminal_spec S (new_session sid (tk_identity d) (tk_files d)))]"
proof -
  let ?s0 = "new_session sid (tk_identity d) (tk_files d)"
  obtain app0 where c: "consume_ticket app token now = (Some d, app0)" using assms(1) by (metis prod.collapse)
  then have t0: "terminals app0 = terminals app" by (auto simp: consume_ticket_def Let_def)
  have st: "start_terminal S H (Handshake msg t) (?s0, w) = (Inl e, ?s0\<lparr>t_proc := Some True\<rparr>, w1)"
    using assms(4,5) by (simp add: start_terminal_def Let_def)
  obtain r v where m: "prepare_terminal S ?s0 w = (r, v)" by fastforce
  have v: "done_log v = done_log w" using prepare_terminal_log [of S ?s0 w] by (simp add: m)
  have "done_log w1 = done_log w @ [Launched (terminal_spec S ?s0)]"
    using assms(4) v by (auto simp: bind_act_def m launch_def split: sum.splits)
  moreover have "sid \<notin> set (dkeys (sessions (unregister n sid i)))" for n i
    by (auto simp: unregister_def Let_def dkeys_def AList.delete_eq)
  ultimately show ?thesis
    using c assms(2,3) t0 st by (simp add: terminal_ws_def Let_def) (simp add: new_session_def)
qed

theorem failed_handshake_leaks_witness:
  "\<exists>s app1 w1. terminal_ws example_settings (example_host (Some 0) []) (\<lambda>op. True) (Handshake (Inr []) 6) ''t1'' ''tk'' 5 ticket_app empty_world
     = (Ws_error ''terminal: no console fd in handshake'', Some s, app1, w1) \<and> \<not> t_closed s \<and>
     done_log w1 = [Launched (terminal_spec example_settings (new_session ''t1'' ''ann'' ticket_files))]"
proof -
  have t: "tk_identity example_ticket = ''ann''" "tk_is_admin example_ticket = False" "tk_files example_ticket = ticket_files"
    by (simp_all add: example_ticket_def)
  obtain pr v where b: "bind_act (prepare_terminal example_settings (new_session ''t1'' ''ann'' ticket_files))
      (\<lambda>_. launch (example_host (Some 0) []) (terminal_spec example_settings (new_session ''t1'' ''ann'' ticket_files))) empty_world = (Inr pr, v)"
    using example_launch by blast
  have f: "recv_fd (Inr []) = Inl (Exn ''RuntimeError'' ''terminal: no console fd in handshake'')" by (simp add: recv_fd_def)
  have l: "done_log empty_world = []" by (simp add: empty_world_def)
  from failed_handshake_leaks [OF ticket_facts(1), of "\<lambda>op. True" example_settings, unfolded t, OF _ _ b f] ticket_facts(3)
  show ?thesis by (simp add: l) blast
qed

end
