(* ===== verification/StreamRoute.thy ===== *)
theory StreamRoute
  imports Accounting Recording Sse
begin

text \<open>
  \<^verbatim>\<open>POST /execute/stream\<close> from the request to the last byte on the wire: the handler, the generator
  that it answers with, and what is kept of the run. The halves that other requests interleave with
  are those of \<^theory_text>\<open>Routes\<close>; here one generator runs from its start to its end.
\<close>

section \<open>The handler and its generator\<close>

text \<open>
  The body of \<open>async for\<close>: each event of the run is turned into an event of the response, the last
  one after the run has been booked. An exception ends the response.
\<close>

fun stream_loop ::
  "app_state \<Rightarrow> ExecuteRequest \<Rightarrow> Identity \<Rightarrow> (string, string) dict \<Rightarrow> string \<Rightarrow> string \<Rightarrow> real \<Rightarrow> stream_event list \<Rightarrow>
   sse list \<times> (exn + unit) \<times> app_state" where
  "stream_loop a req i fs rid created now [] = ([], Inr (), a)"
| "stream_loop a req i fs rid created now (ev # evs) =
     (case stream_record a req i fs ev rid created now of
        (Inl e, a1) \<Rightarrow> ([], Inl e, a1)
      | (Inr s, a1) \<Rightarrow>
          (let (ss, r, a2) = stream_loop a1 req i fs rid created now evs in (s # ss, r, a2)))"

text \<open>\<open>gen\<close>; \<open>stop = Some k\<close> is a client that goes away with \<open>k\<close> events.\<close>

definition stream_gen ::
  "settings \<Rightarrow> stream_host \<Rightarrow> app_state \<Rightarrow> ExecuteRequest \<Rightarrow> Identity \<Rightarrow> ExecutionRequest \<Rightarrow> (string, string) dict \<Rightarrow>
   string \<Rightarrow> nat option \<Rightarrow> string \<Rightarrow> string \<Rightarrow> real \<Rightarrow> world \<Rightarrow> sse list \<times> (exn + unit) \<times> app_state \<times> world" where
  "stream_gen S H a req i x fs run_id stop rid created now w =
     (case stream_begin a i of
        (Inl ss, a1) \<Rightarrow> (ss, Inr (), a1, w)
      | (Inr u, a1) \<Rightarrow>
          (let (evs, w1) = execute_stream S H run_id x stop w;
               (ss, r, a2) = stream_loop a1 req i fs rid created now evs
           in (ss, r, stream_end a2 i, w1)))"

definition execute_stream_route ::
  "settings \<Rightarrow> stream_host \<Rightarrow> app_state \<Rightarrow> ExecuteRequest \<Rightarrow> Identity \<Rightarrow> real \<Rightarrow> string \<Rightarrow> nat option \<Rightarrow> string \<Rightarrow>
   string \<Rightarrow> real \<Rightarrow> world \<Rightarrow> (HTTPException + sse list \<times> (exn + unit)) \<times> app_state \<times> world" where
  "execute_stream_route S H a req i now run_id stop rid created later w =
     (case enter a req i now of
        (Inl e, a1) \<Rightarrow> (Inl e, a1, w)
      | (Inr (x, fs), a1) \<Rightarrow>
          (let (ss, r, a2, w1) = stream_gen S H a1 req i x fs run_id stop rid created later w
           in (Inr (ss, r), a2, w1)))"

section \<open>The final result of a stream\<close>

lemma compile_phase_stage: "compile_phase S H i req w = (Inr (Some res), w1) \<Longrightarrow> stage res = ''compile''"
  by (auto simp: compile_phase_def bind_act_def ret_def Let_def split: if_splits prod.splits sum.splits)

text \<open>Of a run that got past its compile phase the final result has no output: that was in the events.\<close>

definition output_left :: "ExecutionResult \<Rightarrow> bool" where
  "output_left res \<longleftrightarrow> stage res = ''compile'' \<or> stdout res = [] \<and> stderr res = []"

lemma done_events_end:
  "list_all (\<lambda>ev. \<not> is_done ev) evs \<Longrightarrow> list_all (\<lambda>ev. \<not> is_done ev) evs' \<Longrightarrow> evs @ [S_done r] = evs' @ [S_done r'] \<Longrightarrow> r = r'"
  by simp

lemma execute_stream_done:
  "\<exists>evs res. fst (execute_stream S H i req None w) = evs @ [S_done res] \<and> list_all (\<lambda>ev. \<not> is_done ev) evs \<and> output_left res"
proof -
  obtain r w1 where m: "bind_act (stage_run S i req) (\<lambda>_. compile_phase S (host.truncate H) i req) w = (r, w1)"
    by fastforce
  have err: "output_left (new_result\<lparr>error := x\<rparr>)" for x by (simp add: output_left_def)
  have st: "output_left (stream_result ps late pst)" for ps late pst by (simp add: output_left_def stream_result_def)
  consider e where "r = Inl e" | res where "r = Inr (Some res)" | "r = Inr None" by (cases r) auto
  then show ?thesis
  proof cases
    case 1
    with m show ?thesis by (intro exI [of _ "[]"]) (simp add: execute_stream_def stream_body_def err)
  next
    case 2
    have "stage res = ''compile''"
      using m 2 by (auto simp: bind_act_def split: prod.splits sum.splits intro: compile_phase_stage)
    with m 2 show ?thesis
      by (intro exI [of _ "if stderr res \<noteq> [] then [S_stderr (stderr res)] else []"])
        (simp add: execute_stream_def stream_body_def output_left_def)
  next
    case 3
    let ?sc = "stream_container S H (i @ ''-r'') (path_join (run_dir S i) ''run'') (run_config S i req)
        (x_stdin req) (run_timeout req) (x_limits req) None w1"
    obtain evs q w2 where sc: "?sc = (evs, q, w2)" by (metis prod_cases3)
    from stream_container_events [of "run_timeout req" S H "i @ ''-r''" "path_join (run_dir S i) ''run''" "run_config S i req"
        "x_stdin req" "x_limits req" None w1] m 3 show ?thesis
      by (cases q) (auto simp: execute_stream_def stream_body_def sc err st)
  qed
qed

section \<open>The events of the response\<close>

lemma stream_loop_output:
  "list_all (\<lambda>ev. \<not> is_done ev) evs \<Longrightarrow>
   stream_loop a req i fs rid created now (evs @ rest) =
     (let (ss, r, a1) = stream_loop a req i fs rid created now rest in (map Sse_event evs @ ss, r, a1))"
proof (induction evs)
  case (Cons ev evs)
  then have "stream_record a req i fs ev rid created now = (Inr (Sse_event ev), a)"
    by (cases ev) (simp_all add: stream_record_def)
  with Cons show ?case by (simp split: prod.splits)
qed simp

lemma stream_loop_done:
  assumes "list_all (\<lambda>ev. \<not> is_done ev) evs" "save_run (record_of (id_name i) req fs res rid created) (past_runs a) = Inr h"
  shows "stream_loop a req i fs rid created now (evs @ [S_done res]) =
    (map Sse_event evs @ [Sse_done res (if PERSIST_ENABLED h then Some rid else None)], Inr (),
     a\<lparr>abuse := snd (abuse_record (abuse a) (id_name i) (classify res) now), past_runs := h\<rparr>)"
  using assms(2) by (simp add: stream_loop_output [OF assms(1)] stream_record_def finalize_def Let_def)

section \<open>Properties\<close>

text \<open>
  C20. A streamed run from the request to the record. When the generator of an accepted request finds a
  slot and its client stays, the client reads from the wire the chunks of output and then exactly one
  final result with the id of the stored run; the slots of the stream and of the identity are given
  back; nothing is left in the run's directory; the verdict is booked; and under that id the owner reads the run back with
  its files, input and exit code, but, unless compiling it failed, without the output that was streamed.
  No other request is served meanwhile; the slots under interleavings are the subject of \<^theory_text>\<open>Accounting\<close>.
\<close>

theorem stream_recorded:
  assumes "fst (prepare a0 req i t) = Inr (x, fs)" and "0 < stream_slots a" and "db_ready (past_runs a)"
    and "rid \<notin> set (map r_id (runs_table (past_runs a)))" and "0 < window_s (abuse a)"
    and "stream_gen S H a req i x fs run_id None rid created now w = (ss, r, a', w')"
  shows "\<exists>evs res d. read_sse (concat (map (\<lambda>e. sse_text (sse_json e)) ss)) =
      map (\<lambda>ev. Some (sse_json (Sse_event ev))) evs @ [Some (sse_json (Sse_done res (Some rid)))] \<and>
    list_all (\<lambda>ev. \<not> is_done ev) evs \<and> r = Inr () \<and>
    stream_slots a' = stream_slots a \<and> limiter a' = limiter (rl_release a i) \<and>
    (\<forall>p. files w' (run_dir S run_id @ p) = None) \<and>
    fst (abuse_score (abuse a') (id_name i) now) =
      fst (abuse_score (abuse a) (id_name i) now) + (if suspicious (classify res) then weight (classify res) else 0) \<and>
    get_run_route a' rid i = Inr d \<and> det_files d = x_files x \<and> det_stdin d = x_stdin x \<and>
    sum_exit_code d = exit_code res \<and> sum_flags d = flags (classify res) \<and>
    (if stage res = ''compile'' then det_stdout d = stdout res \<and> det_stderr d = stderr res
     else det_stdout d = [] \<and> det_stderr d = [])"
proof -
  obtain evs res where ev: "fst (execute_stream S H run_id x None w) = evs @ [S_done res]"
    "list_all (\<lambda>ev. \<not> is_done ev) evs" "output_left res"
    using execute_stream_done by blast
  let ?rec = "record_of (id_name i) req fs res rid created" and ?a = "a\<lparr>stream_slots := stream_slots a - 1\<rparr>"
  define h where "h = (past_runs a)\<lparr>runs_table := runs_table (past_runs a) @ [row_of ?rec]\<rparr>"
  have rec [simp]: "rec_identity ?rec = id_name i" "rec_id ?rec = rid" "rec_files ?rec = fs" "rec_result ?rec = res"
    "rec_stdin ?rec = q_stdin req" "rec_flags ?rec = flags (classify res)"
    by (simp_all add: record_of_def Let_def)
  have save: "save_run ?rec (past_runs ?a) = Inr h"
    using assms(3,4) by (simp add: save_run_def save_sync_def h_def)
  have on: "PERSIST_ENABLED h" using assms(3) by (simp add: h_def db_ready_def)
  obtain w1 where run: "execute_stream S H run_id x None w = (evs @ [S_done res], w1)" using ev(1) by (metis prod.collapse)
  have gen: "ss = map Sse_event evs @ [Sse_done res (Some rid)]" "r = Inr ()" "w' = w1"
    "a' = stream_end (?a\<lparr>abuse := snd (abuse_record (abuse a) (id_name i) (classify res) now), past_runs := h\<rparr>) i"
    using assms(2,6) stream_loop_done [OF ev(2) save] on by (simp_all add: stream_gen_def stream_begin_def run)
  then have a': "stream_slots a' = stream_slots a" "limiter a' = limiter (rl_release a i)" "past_runs a' = h"
    "abuse a' = snd (abuse_record (abuse a) (id_name i) (classify res) now)"
    by (simp_all add: stream_end_def rl_release_def)
  obtain lang ep where x: "x = build_request req lang ep fs (id_name i)"
    by (rule prepare_Inr [OF assms(1)])
  from save_get_roundtrip [OF assms(3) save [simplified]] prepared_wf [OF assms(1)]
  obtain d where d: "get_run (id_name i) rid h = Some d" "det_files d = fs" "det_stdin d = q_stdin req"
    "det_stdout d = stdout res" "det_stderr d = stderr res" "sum_exit_code d = exit_code res" "sum_flags d = flags (classify res)"
    by auto
  have clean: "files w' (run_dir S run_id @ p) = None" for p
    using run gen(3) by (auto simp: execute_stream_def Let_def rmtree_def split: prod.splits)
  have wire: "read_sse (concat (map (\<lambda>e. sse_text (sse_json e)) ss)) =
      map (\<lambda>ev. Some (sse_json (Sse_event ev))) evs @ [Some (sse_json (Sse_done res (Some rid)))]"
    by (simp only: read_events) (simp add: gen(1))
  show ?thesis
    by (rule exI [of _ evs], rule exI [of _ res], rule exI [of _ d])
      (use d ev(2,3) wire clean gen(2) a' abuse_score_record [OF assms(5), of "id_name i" "classify res" now]
       in \<open>auto simp: get_run_route_def x output_left_def\<close>)
qed

theorem stream_recorded_witness:
  "\<exists>ss r a' w' d. stream_gen example_settings example_stream_host (example_app\<lparr>past_runs := open_history\<rparr>)
       (example_body ''go'' [''a.go'']) example_identity
       (build_request (example_body ''go'' [''a.go'']) (the (dget LANGUAGES ''go'')) ''main.go'' [(''main.go'', ''x'')] ''ann'')
       [(''main.go'', ''x'')] ''run-1'' None ''r1'' ''2025'' 5 empty_world = (ss, r, a', w') \<and>
     stream_slots a' = 4 \<and> get_run_route a' ''r1'' example_identity = Inr d \<and> det_files d = [(''main.go'', ''x'')]"
proof -
  let ?a = "example_app\<lparr>past_runs := open_history\<rparr>"
  have h: "0 < stream_slots ?a" "db_ready (past_runs ?a)" "''r1'' \<notin> set (map r_id (runs_table (past_runs ?a)))"
    "0 < window_s (abuse ?a)" "stream_slots ?a = 4"
    by (simp_all add: example_app_def db_ready_def open_history_def new_tracker_def)
  obtain ss r a' w' where g: "stream_gen example_settings example_stream_host ?a (example_body ''go'' [''a.go''])
       example_identity (build_request (example_body ''go'' [''a.go'']) (the (dget LANGUAGES ''go'')) ''main.go''
         [(''main.go'', ''x'')] ''ann'') [(''main.go'', ''x'')] ''run-1'' None ''r1'' ''2025'' 5 empty_world = (ss, r, a', w')"
    by (metis prod_cases4)
  from stream_recorded [OF example_prepared(2) h(1-4) g] h(5) g show ?thesis by (simp only: build_request_fields) blast
qed

end
