(* ===== verification/Database.thy ===== *)
theory Database
  imports History
begin

text \<open>
  The SQL of \<^verbatim>\<open>app/store.py\<close>: the schema, its migration, and the statements the store sends,
  over tables of columns and tuples. \<^theory_text>\<open>History\<close>, which sees rows only, is what they implement.
\<close>

section \<open>Tables\<close>

datatype sql_value = SQL_null | SQL_int int | SQL_text string

datatype sql_type = TEXT | INTEGER

record column =
  col_name :: string
  col_type :: sql_type
  not_null :: bool
  col_default :: sql_value

record sql_table =
  columns :: "column list"
  tuples :: "sql_value list list"

record database =
  runs :: "sql_table option"
  indexes :: "string list"

text \<open>\<open>_SCHEMA\<close>. The first column is the primary key.\<close>

definition base_columns :: "column list" where
  "base_columns = map (\<lambda>(n, t, nn). \<lparr>col_name = n, col_type = t, not_null = nn, col_default = SQL_null\<rparr>)
    [(''id'', TEXT, False), (''created_at'', TEXT, True), (''identity'', TEXT, True), (''language'', TEXT, True),
     (''files'', TEXT, True), (''stdin'', TEXT, True), (''run_timeout_ms'', INTEGER, False), (''stdout'', TEXT, True),
     (''stderr'', TEXT, True), (''exit_code'', INTEGER, False), (''timed_out'', INTEGER, True),
     (''truncated_stdout'', INTEGER, True), (''truncated_stderr'', INTEGER, True), (''wall_time_ms'', INTEGER, True),
     (''stage'', TEXT, True), (''error'', TEXT, False)]"

definition suspicious_column :: column where
  "suspicious_column = \<lparr>col_name = ''suspicious'', col_type = INTEGER, not_null = True, col_default = SQL_int 0\<rparr>"

definition flags_column :: column where
  "flags_column = \<lparr>col_name = ''flags'', col_type = TEXT, not_null = True, col_default = SQL_text []\<rparr>"

definition SCHEMA :: "column list" where
  "SCHEMA = base_columns @ [suspicious_column, flags_column]"

section \<open>Opening the database\<close>

definition create_runs :: "database \<Rightarrow> database" where
  "create_runs db = (case runs db of None \<Rightarrow> db\<lparr>runs := Some \<lparr>columns = SCHEMA, tuples = []\<rparr>\<rparr> | Some _ \<Rightarrow> db)"

definition index_name :: string where
  "index_name = ''idx_runs_identity_created''"

definition column_names :: "sql_table \<Rightarrow> string list" where
  "column_names t = map col_name (columns t)"

definition create_index :: "sql_table \<Rightarrow> database \<Rightarrow> exn + database" where
  "create_index t db =
     (if index_name \<in> set (indexes db) then Inr db
      else if ''identity'' \<notin> set (column_names t)
      then Inl (Exn ''OperationalError'' ''no such column: identity'')
      else if ''created_at'' \<notin> set (column_names t)
      then Inl (Exn ''OperationalError'' ''no such column: created_at'')
      else Inr (db\<lparr>indexes := indexes db @ [index_name]\<rparr>))"

text \<open>\<open>ALTER TABLE runs ADD COLUMN\<close>: the tuples that are there read the default.\<close>

definition add_column :: "column \<Rightarrow> sql_table \<Rightarrow> sql_table" where
  "add_column c t = t\<lparr>columns := columns t @ [c], tuples := map (\<lambda>u. u @ [col_default c]) (tuples t)\<rparr>"

text \<open>The statements of \<open>init_db\<close>, once connected. \<open>cols\<close> is read before either column is added.\<close>

definition init_schema :: "database \<Rightarrow> exn + database" where
  "init_schema db =
     (let db1 = create_runs db; t = the (runs db1) in
      case create_index t db1 of
        Inl e \<Rightarrow> Inl e
      | Inr db2 \<Rightarrow>
          (let cols = column_names t;
               t1 = (if ''suspicious'' \<notin> set cols then add_column suspicious_column t else t);
               t2 = (if ''flags'' \<notin> set cols then add_column flags_column t1 else t1)
           in Inr (db2\<lparr>runs := Some t2\<rparr>)))"

section \<open>Statements\<close>

text \<open>
  A column's affinity: integers in a text column become text; what an integer column makes of a text
  (a number, if it reads as one) is \<open>num\<close>.
\<close>

definition affinity :: "(string \<Rightarrow> sql_value) \<Rightarrow> column \<Rightarrow> sql_value \<Rightarrow> sql_value" where
  "affinity num c v = (case (col_type c, v) of
     (TEXT, SQL_int i) \<Rightarrow> SQL_text (show_int i) | (INTEGER, SQL_text s) \<Rightarrow> num s | _ \<Rightarrow> v)"

definition fits64 :: "sql_value \<Rightarrow> bool" where
  "fits64 v = (case v of SQL_int i \<Rightarrow> - (2 ^ 63) \<le> i \<and> i < 2 ^ 63 | _ \<Rightarrow> True)"

text \<open>
  \<open>INSERT INTO runs VALUES\<close>: by position, after Python has bound the values, with the constraints of
  the columns and of the primary key.
\<close>

definition insert_runs :: "(string \<Rightarrow> sql_value) \<Rightarrow> sql_value list \<Rightarrow> sql_table \<Rightarrow> exn + sql_table" where
  "insert_runs num vs t =
     (if length vs \<noteq> length (columns t)
      then Inl (Exn ''OperationalError'' (''table runs has '' @ show_nat (length (columns t)) @ '' columns but '' @
             show_nat (length vs) @ '' values were supplied''))
      else if \<not> list_all fits64 vs
      then Inl (Exn ''OverflowError'' ''Python int too large to convert to SQLite INTEGER'')
      else (let u = map2 (affinity num) (columns t) vs in
        case find (\<lambda>(c, v). not_null c \<and> v = SQL_null) (zip (columns t) u) of
          Some (c, v) \<Rightarrow> Inl (Exn ''IntegrityError'' (''NOT NULL constraint failed: runs.'' @ col_name c))
        | None \<Rightarrow>
            if hd u \<noteq> SQL_null \<and> hd u \<in> set (map hd (tuples t))
            then Inl (Exn ''IntegrityError'' ''UNIQUE constraint failed: runs.id'')
            else Inr (t\<lparr>tuples := tuples t @ [u]\<rparr>)))"

definition sql_opt :: "('a \<Rightarrow> sql_value) \<Rightarrow> 'a option \<Rightarrow> sql_value" where
  "sql_opt f x = (case x of None \<Rightarrow> SQL_null | Some v \<Rightarrow> f v)"

text \<open>The parameters of the statement in the order in which it names them.\<close>

definition tuple_of :: "row \<Rightarrow> sql_value list" where
  "tuple_of r = [SQL_text (r_id r), SQL_text (r_created_at r), SQL_text (r_identity r), SQL_text (r_language r),
     SQL_text (r_files r), SQL_text (r_stdin r), sql_opt SQL_int (r_run_timeout_ms r), SQL_text (r_stdout r),
     SQL_text (r_stderr r), sql_opt SQL_int (r_exit_code r), SQL_int (r_timed_out r), SQL_int (r_truncated_stdout r),
     SQL_int (r_truncated_stderr r), SQL_int (r_wall_time_ms r), SQL_text (r_stage r), sql_opt SQL_text (r_error r),
     SQL_int (r_suspicious r), SQL_text (r_flags r)]"

definition sql_save :: "(string \<Rightarrow> sql_value) \<Rightarrow> RunRecord \<Rightarrow> sql_table \<Rightarrow> exn + sql_table" where
  "sql_save num rec t = insert_runs num (tuple_of (row_of rec)) t"

text \<open>\<open>dict(row)\<close>, and a column of it as a type; \<open>None\<close> is a value that no response model takes.\<close>

definition sql_row :: "sql_table \<Rightarrow> sql_value list \<Rightarrow> (string, sql_value) dict" where
  "sql_row t u = zip (column_names t) u"

definition get_text :: "(string, sql_value) dict \<Rightarrow> string \<Rightarrow> string option" where
  "get_text d k = (case dget d k of Some (SQL_text s) \<Rightarrow> Some s | _ \<Rightarrow> None)"

definition get_int :: "(string, sql_value) dict \<Rightarrow> string \<Rightarrow> int option" where
  "get_int d k = (case dget d k of Some (SQL_int i) \<Rightarrow> Some i | _ \<Rightarrow> None)"

definition nullable :: "((string, sql_value) dict \<Rightarrow> string \<Rightarrow> 'a option) \<Rightarrow> (string, sql_value) dict \<Rightarrow> string \<Rightarrow>
    'a option option" where
  "nullable f d k = (if dget d k = Some SQL_null then Some None else map_option Some (f d k))"

definition row_from :: "(string, sql_value) dict \<Rightarrow> row option" where
  "row_from d =
     Option.bind (get_text d ''id'') (\<lambda>i. Option.bind (get_text d ''created_at'') (\<lambda>c.
     Option.bind (get_text d ''identity'') (\<lambda>n. Option.bind (get_text d ''language'') (\<lambda>l.
     Option.bind (get_text d ''files'') (\<lambda>f. Option.bind (get_text d ''stdin'') (\<lambda>s.
     Option.bind (nullable get_int d ''run_timeout_ms'') (\<lambda>m.
     Option.bind (get_text d ''stdout'') (\<lambda>out. Option.bind (get_text d ''stderr'') (\<lambda>err.
     Option.bind (nullable get_int d ''exit_code'') (\<lambda>x. Option.bind (get_int d ''timed_out'') (\<lambda>late.
     Option.bind (get_int d ''truncated_stdout'') (\<lambda>to. Option.bind (get_int d ''truncated_stderr'') (\<lambda>te.
     Option.bind (get_int d ''wall_time_ms'') (\<lambda>wall. Option.bind (get_text d ''stage'') (\<lambda>st.
     Option.bind (nullable get_text d ''error'') (\<lambda>e. Option.bind (get_int d ''suspicious'') (\<lambda>su.
     Option.bind (get_text d ''flags'') (\<lambda>fl.
       Some \<lparr>r_id = i, r_created_at = c, r_identity = n, r_language = l, r_files = f, r_stdin = s, r_run_timeout_ms = m,
         r_stdout = out, r_stderr = err, r_exit_code = x, r_timed_out = late, r_truncated_stdout = to,
         r_truncated_stderr = te, r_wall_time_ms = wall, r_stage = st, r_error = e, r_suspicious = su,
         r_flags = fl\<rparr>))))))))))))))))))"

definition where_owned :: "sql_table \<Rightarrow> string \<Rightarrow> string \<Rightarrow> sql_value list \<Rightarrow> bool" where
  "where_owned t identity run_id u \<longleftrightarrow> dget (sql_row t u) ''id'' = Some (SQL_text run_id) \<and>
     dget (sql_row t u) ''identity'' = Some (SQL_text identity)"

definition sql_get :: "string \<Rightarrow> string \<Rightarrow> sql_table \<Rightarrow> RunDetail option option" where
  "sql_get identity run_id t =
     (case find (where_owned t identity run_id) (tuples t) of
        None \<Rightarrow> Some None
      | Some u \<Rightarrow> map_option (\<lambda>r. Some (detail_of r)) (row_from (sql_row t u)))"

definition sql_delete :: "string \<Rightarrow> string \<Rightarrow> sql_table \<Rightarrow> bool \<times> sql_table" where
  "sql_delete identity run_id t =
     (let kept = filter (\<lambda>u. \<not> where_owned t identity run_id u) (tuples t)
      in (length kept < length (tuples t), t\<lparr>tuples := kept\<rparr>))"

definition rows_of :: "sql_table \<Rightarrow> row list" where
  "rows_of t = List.map_filter (\<lambda>u. row_from (sql_row t u)) (tuples t)"

text \<open>\<open>order\<close> is that of \<open>ORDER BY created_at DESC\<close>.\<close>

definition sql_list :: "(row list \<Rightarrow> row list) \<Rightarrow> string \<Rightarrow> nat \<Rightarrow> nat \<Rightarrow> sql_table \<Rightarrow> RunSummary list" where
  "sql_list order identity limit offset t =
     map summary_of (take limit (drop offset (order (rows_of
       (t\<lparr>tuples := filter (\<lambda>u. dget (sql_row t u) ''identity'' = Some (SQL_text identity)) (tuples t)\<rparr>)))))"

section \<open>Tuples of the schema are rows\<close>

lemma schema_names: "map col_name SCHEMA = [''id'', ''created_at'', ''identity'', ''language'', ''files'', ''stdin'',
    ''run_timeout_ms'', ''stdout'', ''stderr'', ''exit_code'', ''timed_out'', ''truncated_stdout'', ''truncated_stderr'',
    ''wall_time_ms'', ''stage'', ''error'', ''suspicious'', ''flags'']"
  by (simp add: SCHEMA_def base_columns_def suspicious_column_def flags_column_def)

lemma sql_opt_get [simp]:
  "(case sql_opt SQL_int x of SQL_int i \<Rightarrow> Some i | _ \<Rightarrow> None) = x"
  "(case sql_opt SQL_text y of SQL_text s \<Rightarrow> Some s | _ \<Rightarrow> None) = y"
  "sql_opt SQL_int x = SQL_null \<longleftrightarrow> x = None" "sql_opt SQL_text y = SQL_null \<longleftrightarrow> y = None"
  by (auto simp: sql_opt_def split: option.splits)

definition of_schema :: "sql_table \<Rightarrow> bool" where
  "of_schema t \<longleftrightarrow> columns t = SCHEMA"

lemma schema_fields:
  assumes "of_schema t"
  shows "dget (sql_row t (tuple_of r)) ''id'' = Some (SQL_text (r_id r))"
    "dget (sql_row t (tuple_of r)) ''created_at'' = Some (SQL_text (r_created_at r))"
    "dget (sql_row t (tuple_of r)) ''identity'' = Some (SQL_text (r_identity r))"
    "dget (sql_row t (tuple_of r)) ''language'' = Some (SQL_text (r_language r))"
    "dget (sql_row t (tuple_of r)) ''files'' = Some (SQL_text (r_files r))"
    "dget (sql_row t (tuple_of r)) ''stdin'' = Some (SQL_text (r_stdin r))"
    "dget (sql_row t (tuple_of r)) ''stdout'' = Some (SQL_text (r_stdout r))"
    "dget (sql_row t (tuple_of r)) ''stderr'' = Some (SQL_text (r_stderr r))"
    "dget (sql_row t (tuple_of r)) ''stage'' = Some (SQL_text (r_stage r))"
    "dget (sql_row t (tuple_of r)) ''flags'' = Some (SQL_text (r_flags r))"
    "dget (sql_row t (tuple_of r)) ''timed_out'' = Some (SQL_int (r_timed_out r))"
    "dget (sql_row t (tuple_of r)) ''truncated_stdout'' = Some (SQL_int (r_truncated_stdout r))"
    "dget (sql_row t (tuple_of r)) ''truncated_stderr'' = Some (SQL_int (r_truncated_stderr r))"
    "dget (sql_row t (tuple_of r)) ''wall_time_ms'' = Some (SQL_int (r_wall_time_ms r))"
    "dget (sql_row t (tuple_of r)) ''suspicious'' = Some (SQL_int (r_suspicious r))"
    "dget (sql_row t (tuple_of r)) ''run_timeout_ms'' = Some (sql_opt SQL_int (r_run_timeout_ms r))"
    "dget (sql_row t (tuple_of r)) ''exit_code'' = Some (sql_opt SQL_int (r_exit_code r))"
    "dget (sql_row t (tuple_of r)) ''error'' = Some (sql_opt SQL_text (r_error r))"
  using assms unfolding of_schema_def sql_row_def column_names_def tuple_of_def
  by (simp_all add: schema_names)

lemma nullable_opt:
  "dget d k = Some (sql_opt SQL_int x) \<Longrightarrow> nullable get_int d k = Some x"
  "dget d k = Some (sql_opt SQL_text y) \<Longrightarrow> nullable get_text d k = Some y"
  by (auto simp: nullable_def get_int_def get_text_def sql_opt_def split: option.splits)

lemma get_plain:
  "dget d k = Some (SQL_text s) \<Longrightarrow> get_text d k = Some s" "dget d k = Some (SQL_int i) \<Longrightarrow> get_int d k = Some i"
  by (simp_all add: get_text_def get_int_def)

lemma row_from_tuple: "of_schema t \<Longrightarrow> row_from (sql_row t (tuple_of r)) = Some r"
  by (simp add: row_from_def get_plain nullable_opt schema_fields)

section \<open>The table holds the rows of the history\<close>

definition holds_rows :: "sql_table \<Rightarrow> row list \<Rightarrow> bool" where
  "holds_rows t rs \<longleftrightarrow> of_schema t \<and> tuples t = map tuple_of rs"

lemma rows_of_holds: "holds_rows t rs \<Longrightarrow> rows_of t = rs"
  by (simp add: holds_rows_def rows_of_def row_from_tuple List.map_filter_def comp_def)

lemma where_owned_tuple: "of_schema t \<Longrightarrow> where_owned t i k (tuple_of r) \<longleftrightarrow> r_id r = k \<and> r_identity r = i"
  by (simp add: where_owned_def schema_fields)

lemma find_mapped: "find P (map f xs) = map_option f (find (\<lambda>x. P (f x)) xs)"
  by (induction xs) simp_all

lemma filter_holds:
  assumes "holds_rows t rs" "\<And>r. P (tuple_of r) = Q r"
  shows "holds_rows (t\<lparr>tuples := filter P (tuples t)\<rparr>) (filter Q rs)"
  using assms by (simp add: holds_rows_def of_schema_def filter_map comp_def)

lemma sql_get_holds: "holds_rows t (runs_table h) \<Longrightarrow> sql_get i k t = Some (get_sync i k h)"
  by (cases "find (\<lambda>r. r_id r = k \<and> r_identity r = i) (runs_table h)")
    (simp_all add: sql_get_def get_sync_def holds_rows_def find_mapped where_owned_tuple row_from_tuple)

lemma sql_delete_holds:
  assumes "holds_rows t (runs_table h)"
  shows "fst (sql_delete i k t) = fst (delete_sync i k h)"
    "holds_rows (snd (sql_delete i k t)) (runs_table (snd (delete_sync i k h)))"
proof -
  have w: "(\<not> where_owned t i k (tuple_of r)) = (\<not> (r_id r = k \<and> r_identity r = i))" for r
    using assms by (simp add: holds_rows_def where_owned_tuple)
  note f = filter_holds [OF assms, of "\<lambda>u. \<not> where_owned t i k u", OF w]
  have "length (tuples t) = length (runs_table h)" using assms by (simp add: holds_rows_def)
  moreover have "length (filter (\<lambda>u. \<not> where_owned t i k u) (tuples t)) =
      length (filter (\<lambda>r. \<not> (r_id r = k \<and> r_identity r = i)) (runs_table h))"
    using f by (simp add: holds_rows_def)
  ultimately show "fst (sql_delete i k t) = fst (delete_sync i k h)"
    by (simp add: sql_delete_def delete_sync_def Let_def)
  show "holds_rows (snd (sql_delete i k t)) (runs_table (snd (delete_sync i k h)))"
    using f by (simp add: sql_delete_def delete_sync_def Let_def)
qed

lemma sql_list_holds:
  assumes "holds_rows t (runs_table h)"
  shows "sql_list order i limit offset t = list_sync order i limit offset h"
proof -
  have "(dget (sql_row t (tuple_of r)) ''identity'' = Some (SQL_text i)) = (r_identity r = i)" for r
    using assms by (simp add: holds_rows_def schema_fields)
  from rows_of_holds [OF filter_holds [OF assms, of "\<lambda>u. dget (sql_row t u) ''identity'' = Some (SQL_text i)", OF this]]
  show ?thesis
    by (simp add: sql_list_def list_sync_def)
qed

lemma affinity_tuple: "map2 (affinity num) SCHEMA (tuple_of r) = tuple_of r"
  by (simp add: SCHEMA_def base_columns_def suspicious_column_def flags_column_def tuple_of_def affinity_def sql_opt_def
      split: option.splits)

lemma not_null_tuple: "find (\<lambda>(c, v). not_null c \<and> v = SQL_null) (zip SCHEMA (tuple_of r)) = None"
  by (simp add: SCHEMA_def base_columns_def suspicious_column_def flags_column_def tuple_of_def)

lemma sql_save_holds:
  assumes "holds_rows t (runs_table h)" and "list_all fits64 (tuple_of (row_of rec))"
  shows "case sql_save num rec t of Inl e \<Rightarrow> save_sync rec h = Inl e
    | Inr t' \<Rightarrow> (\<exists>h'. save_sync rec h = Inr h' \<and> holds_rows t' (runs_table h'))"
proof -
  have c: "columns t = SCHEMA" "tuples t = map tuple_of (runs_table h)" using assms(1) by (simp_all add: holds_rows_def of_schema_def)
  have l: "length (tuple_of (row_of rec)) = length SCHEMA"
    by (simp add: SCHEMA_def base_columns_def tuple_of_def)
  have hd: "hd (tuple_of r) = SQL_text (r_id r)" for r by (simp add: tuple_of_def)
  have u: "(SQL_text (rec_id rec) \<in> set (map hd (tuples t))) = (rec_id rec \<in> set (map r_id (runs_table h)))"
    by (auto simp: c(2) hd)
  have i: "r_id (row_of rec) = rec_id rec" by (simp add: row_of_def Let_def)
  show ?thesis
    using assms(1,2) u by (simp add: sql_save_def insert_runs_def c(1) l affinity_tuple not_null_tuple hd i Let_def save_sync_def
        holds_rows_def of_schema_def)
qed

section \<open>Older tables\<close>

text \<open>
  A row as a table with the first \<open>n\<close> columns of the schema keeps it, once the missing columns are
  added with their defaults.
\<close>

definition upgrade :: "nat \<Rightarrow> row \<Rightarrow> row" where
  "upgrade n r = r\<lparr>r_suspicious := (if n \<le> 16 then 0 else r_suspicious r), r_flags := (if n \<le> 17 then [] else r_flags r)\<rparr>"

lemma take_schema:
  "take 16 SCHEMA = base_columns" "take 17 SCHEMA = base_columns @ [suspicious_column]"
  "18 \<le> n \<Longrightarrow> take n SCHEMA = SCHEMA"
  by (simp_all add: SCHEMA_def base_columns_def)

lemma base_names: "set (map col_name base_columns) = {''id'', ''created_at'', ''identity'', ''language'', ''files'', ''stdin'',
    ''run_timeout_ms'', ''stdout'', ''stderr'', ''exit_code'', ''timed_out'', ''truncated_stdout'', ''truncated_stderr'',
    ''wall_time_ms'', ''stage'', ''error''}"
  by (simp add: base_columns_def insert_commute)

lemma upgrade_tuple:
  "take 16 (tuple_of r) @ [SQL_int 0, SQL_text []] = tuple_of (upgrade 16 r)"
  "take 17 (tuple_of r) @ [SQL_text []] = tuple_of (upgrade 17 r)"
  "18 \<le> n \<Longrightarrow> take n (tuple_of r) = tuple_of (upgrade n r)"
  by (simp_all add: tuple_of_def upgrade_def)

lemma added_names: "col_name suspicious_column = ''suspicious''" "col_name flags_column = ''flags''"
  "col_default suspicious_column = SQL_int 0" "col_default flags_column = SQL_text []"
  by (simp_all add: suspicious_column_def flags_column_def)

lemma init_schema_names:
  assumes "runs db = Some t" "''identity'' \<in> set (column_names t)" "''created_at'' \<in> set (column_names t)"
  shows "\<exists>db'. init_schema db = Inr db' \<and> index_name \<in> set (indexes db') \<and> runs db' = Some
    (let t1 = (if ''suspicious'' \<notin> set (column_names t) then add_column suspicious_column t else t)
     in if ''flags'' \<notin> set (column_names t) then add_column flags_column t1 else t1)"
  using assms by (auto simp: init_schema_def create_runs_def create_index_def Let_def)

lemma init_schema_holds:
  assumes "runs db = Some t" "columns t = take n SCHEMA" "16 \<le> n" "tuples t = map (\<lambda>r. take n (tuple_of r)) rs"
  shows "\<exists>db' t'. init_schema db = Inr db' \<and> index_name \<in> set (indexes db') \<and> runs db' = Some t' \<and>
    holds_rows t' (map (upgrade n) rs)"
proof -
  consider "n = 16" | "n = 17" | "18 \<le> n" using assms(3) by linarith
  then show ?thesis
  proof cases
    case 1
    with assms(2) have c: "columns t = base_columns" "set (column_names t) = set (map col_name base_columns)"
      by (simp_all add: take_schema column_names_def)
    from init_schema_names [OF assms(1)] 1 assms(4) show ?thesis
      unfolding c(2) base_names by (auto simp: add_column_def holds_rows_def of_schema_def c(1) SCHEMA_def added_names comp_def
        upgrade_tuple [symmetric])
  next
    case 2
    with assms(2) have c: "columns t = base_columns @ [suspicious_column]"
        "set (column_names t) = insert ''suspicious'' (set (map col_name base_columns))"
      by (simp_all add: take_schema column_names_def added_names)
    from init_schema_names [OF assms(1)] 2 assms(4) show ?thesis
      unfolding c(2) base_names by (auto simp: add_column_def holds_rows_def of_schema_def c(1) SCHEMA_def added_names comp_def
        upgrade_tuple [symmetric])
  next
    case 3
    with assms(2) have c: "columns t = SCHEMA" "set (column_names t) = set (map col_name SCHEMA)"
      by (simp_all add: take_schema column_names_def)
    from init_schema_names [OF assms(1)] assms(4) show ?thesis
      unfolding c(2) by (auto simp: schema_names holds_rows_def of_schema_def c(1) comp_def upgrade_tuple(3) [OF 3])
  qed
qed

lemma init_schema_again:
  assumes "runs db = Some t" "holds_rows t rs" "index_name \<in> set (indexes db)"
  shows "init_schema db = Inr db"
proof -
  have "set (column_names t) = set (map col_name SCHEMA)" using assms(2) by (simp add: holds_rows_def of_schema_def column_names_def)
  then have "''suspicious'' \<in> set (column_names t)" "''flags'' \<in> set (column_names t)" by (simp_all add: schema_names)
  with assms show ?thesis by (simp add: init_schema_def create_runs_def create_index_def Let_def)
qed

section \<open>Properties\<close>

text \<open>
  C21. The table implements the history. On a table that holds the rows of a history the statements of
  the store do what \<^theory_text>\<open>History\<close> says: saving a run whose numbers fit SQLite's integers appends it
  or raises the same error, looking it up, listing and deleting answer the same, and the table goes on
  holding the rows of the history.
\<close>

theorem table_refines_history:
  assumes "holds_rows t (runs_table h)" and "list_all fits64 (tuple_of (row_of rec))"
  shows "(case sql_save num rec t of Inl e \<Rightarrow> save_sync rec h = Inl e
     | Inr t' \<Rightarrow> (\<exists>h'. save_sync rec h = Inr h' \<and> holds_rows t' (runs_table h'))) \<and>
    sql_get i k t = Some (get_sync i k h) \<and>
    sql_list order i limit offset t = list_sync order i limit offset h \<and>
    fst (sql_delete i k t) = fst (delete_sync i k h) \<and>
    holds_rows (snd (sql_delete i k t)) (runs_table (snd (delete_sync i k h)))"
  using sql_save_holds [OF assms] sql_get_holds [OF assms(1)] sql_list_holds [OF assms(1)] sql_delete_holds [OF assms(1)]
  by blast

definition example_table :: sql_table where
  "example_table = \<lparr>columns = SCHEMA, tuples = [tuple_of (row_of example_record)]\<rparr>"

lemma example_fits: "list_all fits64 (tuple_of (row_of example_record))"
  by (simp add: tuple_of_def fits64_def row_of_def example_record_def Let_def sql_opt_def new_result_def int_of_bool_def)

theorem table_refines_history_witness:
  "\<exists>e. sql_save SQL_text example_record example_table = Inl e \<and> exn_msg e = ''UNIQUE constraint failed: runs.id''"
proof -
  let ?h = "open_history\<lparr>runs_table := [row_of example_record]\<rparr>"
  have "holds_rows example_table (runs_table ?h)" by (simp add: holds_rows_def example_table_def of_schema_def)
  note r = conjunct1 [OF table_refines_history [OF this example_fits, of SQL_text]]
  have "save_sync example_record ?h = Inl (Exn ''IntegrityError'' ''UNIQUE constraint failed: runs.id'')"
    by (simp add: save_sync_def row_of_def Let_def)
  with r show ?thesis by (cases "sql_save SQL_text example_record example_table") simp_all
qed

text \<open>
  C28. Opening an old database loses nothing. When its table has the first columns of the schema, at
  least those from before abuse was scored, the migration gives it the schema's columns in the
  schema's order, on which the positional insert relies; every run in it is read back as it was, with
  no flag and not suspicious where that was not kept; and opening it again changes nothing.
\<close>

theorem migration_keeps_runs:
  assumes "runs db = Some t" and "columns t = take n SCHEMA" and "16 \<le> n"
    and "tuples t = map (\<lambda>r. take n (tuple_of r)) rs"
  shows "\<exists>db' t'. init_schema db = Inr db' \<and> runs db' = Some t' \<and> columns t' = SCHEMA \<and>
    rows_of t' = map (upgrade n) rs \<and> init_schema db' = Inr db' \<and>
    (\<forall>i k. sql_get i k t' = Some (map_option (\<lambda>r. detail_of (upgrade n r)) (find (\<lambda>r. r_id r = k \<and> r_identity r = i) rs)))"
proof -
  from init_schema_holds [OF assms] obtain db' t' where m: "init_schema db = Inr db'" "index_name \<in> set (indexes db')"
    "runs db' = Some t'" "holds_rows t' (map (upgrade n) rs)" by blast
  have "get_sync i k \<lparr>PERSIST_ENABLED = True, conn_open = True, runs_table = map (upgrade n) rs\<rparr> =
      map_option (\<lambda>r. detail_of (upgrade n r)) (find (\<lambda>r. r_id r = k \<and> r_identity r = i) rs)" for i k
    by (simp add: get_sync_def find_mapped upgrade_def option.map_comp comp_def)
  with sql_get_holds [of t' "\<lparr>PERSIST_ENABLED = True, conn_open = True, runs_table = map (upgrade n) rs\<rparr>"] m(4)
  have "sql_get i k t' = Some (map_option (\<lambda>r. detail_of (upgrade n r)) (find (\<lambda>r. r_id r = k \<and> r_identity r = i) rs))" for i k
    by simp
  then show ?thesis
    using m init_schema_again [OF m(3,4,2)] rows_of_holds [OF m(4)] by (simp add: holds_rows_def of_schema_def)
qed

theorem migration_keeps_runs_witness:
  "\<exists>db' t'. init_schema \<lparr>runs = Some \<lparr>columns = take 16 SCHEMA, tuples = [take 16 (tuple_of (row_of example_record))]\<rparr>,
       indexes = []\<rparr> = Inr db' \<and> runs db' = Some t' \<and> rows_of t' = [upgrade 16 (row_of example_record)]"
  using migration_keeps_runs [of "\<lparr>runs = Some \<lparr>columns = take 16 SCHEMA, tuples = [take 16 (tuple_of (row_of example_record))]\<rparr>,
      indexes = []\<rparr>" "\<lparr>columns = take 16 SCHEMA, tuples = [take 16 (tuple_of (row_of example_record))]\<rparr>" 16
      "[row_of example_record]"]
  by auto

end
