(* ===== verification/Cancelling.thy ===== *)
theory Cancelling
  imports Exec
begin

text \<open>
  A run that is cancelled: when the grace time of a shutdown is over, \<open>JobQueue.stop\<close> cancels the
  workers, and \<open>CancelledError\<close> is raised where \<open>execute\<close> waits for a process. The definitions are
  those of \<^verbatim>\<open>app/executor/runner.py\<close> again, with the places where they can be cut off.
\<close>

section \<open>Actions that can be cut off\<close>

text \<open>The result \<open>None\<close> is \<open>CancelledError\<close>, which is no \<open>Exception\<close>: nothing but \<open>finally\<close> sees it.\<close>

definition lift_cut :: "'a act \<Rightarrow> 'a option act" where
  "lift_cut m = bind_act m (\<lambda>x. ret (Some x))"

definition bind_cut :: "'a option act \<Rightarrow> ('a \<Rightarrow> 'b option act) \<Rightarrow> 'b option act" where
  "bind_cut m f = bind_act m (\<lambda>r. case r of None \<Rightarrow> ret None | Some x \<Rightarrow> f x)"

text \<open>\<open>hit sp\<close>: the task is cancelled while it waits for the process of \<open>sp\<close>.\<close>

definition run_container_cut ::
  "(launch_spec \<Rightarrow> bool) \<Rightarrow> settings \<Rightarrow> host \<Rightarrow> string \<Rightarrow> path \<Rightarrow> oci_config \<Rightarrow> string \<Rightarrow> real \<Rightarrow> Limits \<Rightarrow>
   ExecutionResult option act" where
  "run_container_cut hit S H cid phase_dir cfg stdin timeout l =
     (let sp = spec_of S cid phase_dir cfg stdin timeout l in
      bind_act (prepare_bundle phase_dir cfg) (\<lambda>_.
      bind_act (launch H sp) (\<lambda>pr.
      if hit sp then ret None else lift_cut (await_container S H (path_join phase_dir ''state'') cid l pr))))"

fun retry_loop_cut ::
  "(nat \<Rightarrow> ExecutionResult option act) \<Rightarrow> nat \<Rightarrow> nat \<Rightarrow> ExecutionResult \<Rightarrow> ExecutionResult option act" where
  "retry_loop_cut go 0 k res = ret (Some res)"
| "retry_loop_cut go (Suc left) k res =
     (if \<not> is_transient_launch_failure res then ret (Some res)
      else bind_cut (go k) (\<lambda>res1. retry_loop_cut go left (Suc k) res1))"

definition run_with_retry_cut ::
  "(launch_spec \<Rightarrow> bool) \<Rightarrow> settings \<Rightarrow> host \<Rightarrow> string \<Rightarrow> path \<Rightarrow> oci_config \<Rightarrow> string \<Rightarrow> real \<Rightarrow> Limits \<Rightarrow>
   ExecutionResult option act" where
  "run_with_retry_cut hit S H cid phase_dir cfg stdin timeout l =
     (let go = (\<lambda>k. run_container_cut hit S H (attempt_cid cid k) (attempt_dir phase_dir k) cfg stdin timeout l)
      in bind_cut (go 0) (\<lambda>res. retry_loop_cut go (nat (LAUNCH_RETRIES S)) 1 res))"

definition compile_phase_cut ::
  "(launch_spec \<Rightarrow> bool) \<Rightarrow> settings \<Rightarrow> host \<Rightarrow> string \<Rightarrow> ExecutionRequest \<Rightarrow> ExecutionResult option option act" where
  "compile_phase_cut hit S H run_id req =
     (if \<not> truthy_opt (x_compile_args req) then ret (Some None)
      else (let climits = opt_default (x_compile_limits req) DEFAULT_LIMITS
        in bind_act (open_cache S req) (\<lambda>cache_dir.
           bind_cut (run_with_retry_cut hit S H (run_id @ ''-c'') (path_join (run_dir S run_id) ''compile'')
                       (compile_config S run_id req cache_dir) [] (compile_timeout_s climits) climits) (\<lambda>cres.
           ret (Some (if timed_out cres \<or> exit_code cres \<noteq> Some 0 then Some (cres\<lparr>stage := ''compile''\<rparr>) else None))))))"

definition execute_body_cut ::
  "(launch_spec \<Rightarrow> bool) \<Rightarrow> settings \<Rightarrow> host \<Rightarrow> string \<Rightarrow> ExecutionRequest \<Rightarrow> ExecutionResult option act" where
  "execute_body_cut hit S H run_id req =
     bind_act (stage_run S run_id req) (\<lambda>_.
     bind_cut (compile_phase_cut hit S H run_id req) (\<lambda>c.
     case c of Some cres \<Rightarrow> ret (Some cres)
     | None \<Rightarrow> run_with_retry_cut hit S H (run_id @ ''-r'') (path_join (run_dir S run_id) ''run'')
         (run_config S run_id req) (x_stdin req) (run_timeout req) (x_limits req)))"

text \<open>\<open>None\<close>: the coroutine ends with \<open>CancelledError\<close> and no result.\<close>

definition execute_cut ::
  "(launch_spec \<Rightarrow> bool) \<Rightarrow> settings \<Rightarrow> host \<Rightarrow> string \<Rightarrow> ExecutionRequest \<Rightarrow> world \<Rightarrow> ExecutionResult option \<times> world" where
  "execute_cut hit S H run_id req w =
     (case execute_body_cut hit S H run_id req w of
        (r, w1) \<Rightarrow> (case r of Inr res \<Rightarrow> res | Inl exc \<Rightarrow> Some (new_result\<lparr>error := Some (exn_text exc)\<rparr>),
                    w1\<lparr>files := rmtree (run_dir S run_id) (files w1)\<rparr>))"

section \<open>A run that is not cut off is a run\<close>

lemma bind_act_assoc: "bind_act (bind_act m f) g = bind_act m (\<lambda>x. bind_act (f x) g)"
  by (rule ext) (auto simp: bind_act_def split: prod.splits sum.splits)

lemma bind_lift: "bind_cut (lift_cut m) f = bind_act m f"
  by (rule ext) (auto simp: bind_cut_def lift_cut_def bind_act_def ret_def split: prod.splits sum.splits)

lemma lift_bind: "lift_cut (bind_act m f) = bind_act m (\<lambda>x. lift_cut (f x))"
  by (simp add: lift_cut_def bind_act_assoc)

lemma lift_ret: "lift_cut (ret x) = ret (Some x)"
  by (rule ext) (simp add: lift_cut_def bind_act_def ret_def)

lemma run_container_uncut:
  "run_container_cut (\<lambda>_. False) S H cid d cfg stdin t l = lift_cut (run_container S H cid d cfg stdin t l)"
  by (simp add: run_container_cut_def run_container_def lift_bind)

lemma retry_loop_uncut: "retry_loop_cut (\<lambda>k. lift_cut (go k)) left = (\<lambda>k res. lift_cut (retry_loop go left k res))"
proof (induction left)
  case (Suc left)
  then show ?case by (intro ext) (simp add: bind_lift lift_bind lift_ret)
qed (intro ext, simp add: lift_ret)

lemma run_with_retry_uncut:
  "run_with_retry_cut (\<lambda>_. False) S H cid d cfg stdin t l = lift_cut (run_with_retry S H cid d cfg stdin t l)"
  by (simp add: run_with_retry_cut_def run_with_retry_def run_container_uncut retry_loop_uncut bind_lift lift_bind)

lemma compile_phase_uncut: "compile_phase_cut (\<lambda>_. False) S H i req = lift_cut (compile_phase S H i req)"
  by (simp add: compile_phase_cut_def compile_phase_def Let_def run_with_retry_uncut bind_lift lift_bind lift_ret)

lemma execute_body_uncut: "execute_body_cut (\<lambda>_. False) S H i req = lift_cut (execute_body S H i req)"
proof -
  have "(\<lambda>c. case c of Some cres \<Rightarrow> ret (Some cres) | None \<Rightarrow> lift_cut m) =
      (\<lambda>c. lift_cut (case c of Some cres \<Rightarrow> ret cres | None \<Rightarrow> m))" for m :: "ExecutionResult act"
    by (rule ext) (simp add: lift_ret split: option.splits)
  then show ?thesis
    unfolding execute_body_cut_def execute_body_def run_with_retry_uncut compile_phase_uncut bind_lift lift_bind by simp
qed

lemma execute_uncut:
  "execute_cut (\<lambda>_. False) S H i req w = (Some (fst (execute S H i req w)), snd (execute S H i req w))"
  by (auto simp: execute_cut_def execute_def execute_body_uncut lift_cut_def bind_act_def ret_def
      split: prod.splits sum.splits)

section \<open>Where a run was cut off\<close>

text \<open>
  As long as nothing cut it off, an action deletes what it launches; when it was cut off, the last thing
  it did was to launch the container it then waited for.
\<close>

definition tidy :: "(launch_spec \<Rightarrow> bool) \<Rightarrow> 'a option act \<Rightarrow> bool" where
  "tidy hit m \<longleftrightarrow> (\<forall>w. if fst (m w) = Inr None
     then (\<exists>v sp. balanced w v \<and> done_log (snd (m w)) = done_log v @ [Launched sp] \<and> hit sp)
     else balanced w (snd (m w)))"

lemma tidy_lift: "bal.keeps m \<Longrightarrow> tidy hit (lift_cut m)"
  unfolding tidy_def lift_cut_def
  by (auto simp: bind_act_def ret_def bal.keeps_def split: prod.splits sum.splits) (metis snd_conv)+

lemma tidy_ret: "tidy hit (ret (Some x))"
  by (simp add: tidy_def ret_def bal.frame_refl)

lemma tidy_bind:
  assumes "bal.keeps m" "\<And>x. tidy hit (f x)"
  shows "tidy hit (bind_act m f)"
  unfolding tidy_def
proof
  fix w
  obtain r w1 where m: "m w = (r, w1)" by fastforce
  with bal.keepsD [OF assms(1), of w] have b: "balanced w w1" by simp
  show "if fst (bind_act m f w) = Inr None
     then (\<exists>v sp. balanced w v \<and> done_log (snd (bind_act m f w)) = done_log v @ [Launched sp] \<and> hit sp)
     else balanced w (snd (bind_act m f w))"
  proof (cases r)
    case (Inr x)
    from assms(2) [of x, unfolded tidy_def, rule_format, of w1] b m Inr show ?thesis
      by (auto simp: bind_act_def intro: bal.frame_trans split: if_splits)
  qed (simp add: bind_act_def m b)
qed

lemma tidy_bind_cut:
  assumes "tidy hit m" "\<And>x. tidy hit (f x)"
  shows "tidy hit (bind_cut m f)"
  unfolding tidy_def
proof
  fix w
  obtain r w1 where m: "m w = (r, w1)" by fastforce
  note t = assms(1) [unfolded tidy_def, rule_format, of w]
  show "if fst (bind_cut m f w) = Inr None
     then (\<exists>v sp. balanced w v \<and> done_log (snd (bind_cut m f w)) = done_log v @ [Launched sp] \<and> hit sp)
     else balanced w (snd (bind_cut m f w))"
  proof (cases "\<exists>x. r = Inr (Some x)")
    case True
    then obtain x where r: "r = Inr (Some x)" by blast
    with t m have "balanced w w1" by simp
    with assms(2) [of x, unfolded tidy_def, rule_format, of w1] m r show ?thesis
      by (auto simp: bind_cut_def bind_act_def intro: bal.frame_trans split: if_splits)
  next
    case False
    with t m show ?thesis
      by (cases r) (auto simp: bind_cut_def bind_act_def ret_def split: option.splits)
  qed
qed

lemma tidy_container:
  assumes "\<And>n c. h_control H n c = None"
  shows "tidy hit (run_container_cut hit S H cid d cfg stdin t l)"
  unfolding tidy_def
proof
  fix w
  let ?sp = "spec_of S cid d cfg stdin t l" and ?m = "run_container_cut hit S H cid d cfg stdin t l"
  obtain r0 w0 where p: "prepare_bundle d cfg w = (r0, w0)" by fastforce
  have log: "done_log w0 = done_log w" using prepare_log [of d cfg w] p by simp
  show "if fst (?m w) = Inr None
     then (\<exists>v sp. balanced w v \<and> done_log (snd (?m w)) = done_log v @ [Launched sp] \<and> hit sp)
     else balanced w (snd (?m w))"
  proof (cases "hit ?sp")
    case True
    have "balanced w w0" using log by (simp add: balanced_def)
    moreover have "balanced w (snd (bind_act (prepare_bundle d cfg) (\<lambda>_. bind_act (launch H ?sp) (\<lambda>pr. ret None)) w))" if "isl (fst (?m w))"
      using that True p log by (cases r0) (auto simp: run_container_cut_def Let_def bind_act_def launch_def ret_def balanced_def split: sum.splits)
    ultimately show ?thesis
      using True p by (cases r0) (auto simp: run_container_cut_def Let_def bind_act_def launch_def ret_def intro!: exI [of _ w0] split: sum.splits)
  next
    case False
    then have "?m w = lift_cut (run_container S H cid d cfg stdin t l) w"
      by (simp add: run_container_cut_def run_container_def lift_bind Let_def)
    moreover have "tidy hit (lift_cut (run_container S H cid d cfg stdin t l))"
      by (rule tidy_lift [OF container_balanced [OF assms]])
    then have "if fst (lift_cut (run_container S H cid d cfg stdin t l) w) = Inr None
       then (\<exists>v sp. balanced w v \<and> done_log (snd (lift_cut (run_container S H cid d cfg stdin t l) w)) =
         done_log v @ [Launched sp] \<and> hit sp)
       else balanced w (snd (lift_cut (run_container S H cid d cfg stdin t l) w))"
      unfolding tidy_def ..
    ultimately show ?thesis by (simp only:)
  qed
qed

lemma tidy_retry_loop:
  "(\<And>k. tidy hit (go k)) \<Longrightarrow> tidy hit (retry_loop_cut go left k res)"
  by (induction left arbitrary: k res) (auto intro!: tidy_ret tidy_bind_cut)

lemma tidy_retry:
  assumes "\<And>n c. h_control H n c = None"
  shows "tidy hit (run_with_retry_cut hit S H cid d cfg stdin t l)"
  unfolding run_with_retry_cut_def Let_def
  by (intro tidy_bind_cut tidy_retry_loop tidy_container assms)

lemma tidy_body:
  assumes "\<And>n c. h_control H n c = None"
  shows "tidy hit (execute_body_cut hit S H i req)"
proof -
  have "bal.keeps (open_cache S req)" "bal.keeps (stage_run S i req)" by (rule same_log_keeps, simp)+
  then show ?thesis
    unfolding execute_body_cut_def compile_phase_cut_def Let_def
    by (auto intro!: tidy_bind tidy_bind_cut tidy_ret tidy_retry assms split: option.splits)
qed

section \<open>Properties\<close>

text \<open>
  C39. A run that is cancelled loses its container. When a worker is cancelled while its run waits for
  a container, no result comes back, the run's directory is removed, every earlier container was
  deleted, and the one it waited for is neither killed nor deleted: launching it is the last thing in
  the log. A run that is not cancelled is \<^theory_text>\<open>execute\<close>.
\<close>

theorem cancelled_run_leaks:
  assumes "\<forall>n c. h_control H n c = None" and "fst (execute_cut hit S H i req w) = None"
  shows "(\<exists>es sp. done_log (snd (execute_cut hit S H i req w)) = done_log w @ es @ [Launched sp] \<and>
      launched_cids es = deleted_cids es \<and> hit sp) \<and>
    (\<forall>p. files (snd (execute_cut hit S H i req w)) (run_dir S i @ p) = None) \<and>
    execute_cut (\<lambda>_. False) S H i req w = (Some (fst (execute S H i req w)), snd (execute S H i req w))"
proof -
  obtain r w1 where b: "execute_body_cut hit S H i req w = (r, w1)" by fastforce
  with assms(2) have r: "r = Inr None" by (auto simp: execute_cut_def split: sum.splits)
  have "\<exists>v sp. balanced w v \<and> done_log w1 = done_log v @ [Launched sp] \<and> hit sp"
    using tidy_body [of H hit S i req, unfolded tidy_def, rule_format, of w] assms(1) b r by auto
  then show ?thesis
    by (auto simp: execute_cut_def b r rmtree_gone balanced_def execute_uncut [unfolded execute_cut_def])
qed

theorem cancelled_run_leaks_witness:
  "\<exists>c. launched_cids (done_log (snd (execute_cut (\<lambda>_. True) example_settings (example_host (Some 0) []) ''run-1''
       (new_request [''p'']) empty_world))) =
     deleted_cids (done_log (snd (execute_cut (\<lambda>_. True) example_settings (example_host (Some 0) []) ''run-1''
       (new_request [''p'']) empty_world))) @ [c]"
proof -
  let ?d = "[''sb'', ''runs'', ''run-1'']"
  define f1 where "f1 = (\<lambda>p. if (None :: node option) = None \<and> prefix p (?d @ [''src'']) then Some Dir else None)"
  define f2 where "f2 = (\<lambda>p. if f1 p = None \<and> prefix p (?d @ [''out'']) then Some Dir else f1 p)"
  have m: "mkdir_parents (?d @ [''src'']) False (\<lambda>p. None) = Inr f1" "mkdir_parents (?d @ [''out'']) False f1 = Inr f2"
    unfolding f1_def f2_def by (rule mkdir_ready; simp)+
  have st: "stage_run example_settings ''run-1'' (new_request [''p'']) empty_world = (Inr (), empty_world\<lparr>files := f2\<rparr>)"
    using m by (simp add: stage_run_def Let_def example_dirs path_join_plain plain_segment_def bind_on_files empty_world_def
        new_request_def ret_def)
  have r: "ready (files (empty_world\<lparr>files := f2\<rparr>)) (?d @ [''run''])"
    by (auto simp: ready_def f1_def f2_def)
  obtain g where pr: "prepare_bundle (?d @ [''run'']) (run_config example_settings ''run-1'' (new_request [''p'']))
      (empty_world\<lparr>files := f2\<rparr>) = (Inr (), empty_world\<lparr>files := g\<rparr>)"
    using prepare_ready [OF r] by auto
  have c: "compile_phase_cut h S H i (new_request [''p'']) = ret (Some None)" for h S H i
    by (simp add: compile_phase_cut_def new_request_def)
  have "fst (execute_cut (\<lambda>_. True) example_settings (example_host (Some 0) []) ''run-1'' (new_request [''p'']) empty_world) = None"
    using pr by (simp add: execute_cut_def execute_body_cut_def bind_act_def st c bind_cut_def ret_def run_with_retry_cut_def
        run_container_cut_def Let_def example_dirs path_join_plain plain_segment_def attempt_dir_def launch_def example_host_def)
  from cancelled_run_leaks [OF _ this] obtain es sp where
    "done_log (snd (execute_cut (\<lambda>_. True) example_settings (example_host (Some 0) []) ''run-1'' (new_request [''p'']) empty_world)) =
       es @ [Launched sp]" "launched_cids es = deleted_cids es"
    by (auto simp: example_host_def empty_world_def)
  then show ?thesis by simp
qed

end
