(* ===== verification/Config.thy ===== *)
theory Config
  imports App Backends Websocket
begin

text \<open>
  What the modules read from the environment when they are imported and when the application starts,
  and the choice of the backends. A text that is no number keeps the server from starting.
\<close>

section \<open>The environment\<close>

text \<open>
  \<open>float_of\<close> reads what is not a plain decimal; infinities and NaN are not numbers here. Relative
  paths are taken below the working directory.
\<close>

record process_env =
  environ :: "(string, string) dict"
  home :: path
  cwd :: path
  which_runsc :: "string option"
  float_of :: "string \<Rightarrow> real option"

definition env_get :: "process_env \<Rightarrow> string \<Rightarrow> string \<Rightarrow> string" where
  "env_get P k d = opt_default (dget (environ P) k) d"

definition env_int :: "process_env \<Rightarrow> string \<Rightarrow> string \<Rightarrow> exn + int" where
  "env_int P k d = (case int_of_text (env_get P k d) of
     None \<Rightarrow> Inl (ValueError (''invalid literal for int() with base 10: '' @ py_repr (env_get P k d)))
   | Some n \<Rightarrow> Inr n)"

definition decimal :: "string \<Rightarrow> real option" where
  "decimal s =
     (case py_split (CHR ''.'') s of
        [a] \<Rightarrow> if a \<noteq> [] \<and> list_all is_digit a then Some (real (digits_val a)) else None
      | [a, b] \<Rightarrow> if a \<noteq> [] \<and> b \<noteq> [] \<and> list_all is_digit a \<and> list_all is_digit b
                 then Some (real (digits_val a) + real (digits_val b) / 10 ^ length b) else None
      | _ \<Rightarrow> None)"

definition env_float :: "process_env \<Rightarrow> string \<Rightarrow> string \<Rightarrow> exn + real" where
  "env_float P k d =
     (let s = env_get P k d in
      case decimal s of Some x \<Rightarrow> Inr x
      | None \<Rightarrow> (case float_of P s of Some x \<Rightarrow> Inr x
          | None \<Rightarrow> Inl (ValueError (''could not convert string to float: '' @ py_repr s))))"

definition env_path :: "process_env \<Rightarrow> string \<Rightarrow> path \<Rightarrow> path" where
  "env_path P k d = (case dget (environ P) k of None \<Rightarrow> d
     | Some s \<Rightarrow> if prefix ''/'' s then path_segs s else cwd P @ path_segs s)"

definition then_read :: "exn + 'a \<Rightarrow> ('a \<Rightarrow> exn + 'b) \<Rightarrow> exn + 'b" where
  "then_read x f = (case x of Inl e \<Rightarrow> Inl e | Inr v \<Rightarrow> f v)"

section \<open>The modules\<close>

text \<open>\<open>runner.py\<close>: the settings, the bound of the build caches and the pause between attempts.\<close>

definition read_runner :: "process_env \<Rightarrow> exn + settings \<times> int \<times> real" where
  "read_runner P =
     then_read (env_int P ''SANDBOX_CACHE_MAX_MB'' ''4096'') (\<lambda>cache_mb.
     then_read (env_int P ''SANDBOX_LAUNCH_RETRIES'' ''2'') (\<lambda>retries.
     then_read (env_float P ''SANDBOX_RETRY_BACKOFF_S'' ''0.25'') (\<lambda>backoff.
       Inr (\<lparr>RUNTIME_ROOT = env_path P ''SANDBOX_RUNTIME_ROOT'' (home P @ [''.sandbox'']),
          RUNSC = opt_default (which_runsc P) (path_str (home P @ [''.local'', ''bin'', ''runsc''])),
          sandbox_debug = (env_get P ''SANDBOX_DEBUG'' [] \<noteq> []), LAUNCH_RETRIES = retries,
          CACHE_PER_IDENTITY = (env_get P ''SANDBOX_CACHE_PER_IDENTITY'' ''0'' \<noteq> ''0'')\<rparr>, cache_mb * 1024 * 1024, backoff))))"

definition read_terminal :: "process_env \<Rightarrow> exn + real \<times> real" where
  "read_terminal P =
     then_read (env_float P ''SANDBOX_TERMINAL_MAX_S'' ''1200'') (\<lambda>max_s.
     then_read (env_float P ''SANDBOX_TERMINAL_IDLE_S'' ''300'') (\<lambda>idle_s. Inr (max_s, idle_s)))"

definition read_jobqueue :: "process_env \<Rightarrow> exn + int \<times> int \<times> real \<times> real" where
  "read_jobqueue P =
     then_read (env_int P ''SANDBOX_WORKERS'' ''4'') (\<lambda>n.
     then_read (env_int P ''SANDBOX_QUEUE_DEPTH'' ''32'') (\<lambda>depth.
     then_read (env_float P ''SANDBOX_JOB_TTL_S'' ''300'') (\<lambda>ttl.
     then_read (env_float P ''SANDBOX_SHUTDOWN_GRACE_S'' ''35'') (\<lambda>grace. Inr (n, depth, ttl, grace)))))"

definition read_abuse :: "process_env \<Rightarrow> exn + real \<times> int" where
  "read_abuse P =
     then_read (env_float P ''SANDBOX_ABUSE_WINDOW_S'' ''300'') (\<lambda>window.
     then_read (env_int P ''SANDBOX_ABUSE_THRESHOLD'' ''0'') (\<lambda>thr. Inr (window, thr)))"

definition read_persist :: "process_env \<Rightarrow> bool" where
  "read_persist P \<longleftrightarrow> env_get P ''SANDBOX_PERSIST'' ''1'' \<noteq> ''0''"

definition read_main :: "process_env \<Rightarrow> exn + real \<times> real \<times> int \<times> int" where
  "read_main P =
     then_read (env_float P ''SANDBOX_JANITOR_INTERVAL_S'' ''60'') (\<lambda>interval.
     then_read (env_float P ''SANDBOX_JANITOR_MAX_AGE_S'' ''300'') (\<lambda>age.
     then_read (env_int P ''SANDBOX_TERMINAL_MAX_TOTAL'' ''8'') (\<lambda>mx.
     then_read (env_int P ''SANDBOX_TERMINAL_PER_USER'' ''1'') (\<lambda>per_user. Inr (interval, age, mx, per_user)))))"

text \<open>
  In the order of the imports. The number of workers is also given as it was read: it may be negative,
  which the pool takes for none. The limits of the rate limiter are read at the start.
\<close>

definition read_modules :: "process_env \<Rightarrow> exn + app_config \<times> int" where
  "read_modules P =
     then_read (read_runner P) (\<lambda>(S, cache_bytes, backoff).
     then_read (read_terminal P) (\<lambda>(max_s, idle_s).
     then_read (read_jobqueue P) (\<lambda>(n, depth, ttl, grace).
     then_read (read_abuse P) (\<lambda>(window, thr).
     then_read (read_main P) (\<lambda>(interval, age, mx, per_user).
       Inr (settings.extend S \<lparr>MAX_LIFETIME_S = max_s, IDLE_TIMEOUT_S = idle_s,
          JANITOR_INTERVAL_S = interval, JANITOR_MAX_AGE_S = age,
          TERMINAL_MAX_TOTAL = mx, TERMINAL_PER_USER = per_user, WORKERS = nat n, QUEUE_DEPTH = depth,
          JOB_TTL_S = ttl, RATE_PER_MIN = 0, MAX_INFLIGHT = 0, ABUSE_THRESHOLD = thr, ABUSE_WINDOW_S = window,
          CACHE_MAX_BYTES = cache_bytes, PERSIST = read_persist P\<rparr>, n))))))"

lemmas module_defs = read_modules_def read_runner_def read_terminal_def read_jobqueue_def read_abuse_def read_main_def

section \<open>The backends\<close>

definition rate_caps :: "process_env \<Rightarrow> exn + int \<times> int" where
  "rate_caps P =
     then_read (env_int P ''SANDBOX_RATE_PER_MIN'' ''0'') (\<lambda>per.
     then_read (env_int P ''SANDBOX_MAX_INFLIGHT'' ''0'') (\<lambda>mx. Inr (per, mx)))"

definition redis_enabled :: "process_env \<Rightarrow> bool" where
  "redis_enabled P \<longleftrightarrow> env_get P ''SANDBOX_REDIS_URL'' [] \<noteq> []"

text \<open>What the two classes of \<^verbatim>\<open>backends.py\<close> keep besides their connection: the limits.\<close>

record redis_limiter =
  rd_per_min :: int
  rd_max_inflight :: int
  rd_window_s :: real

record redis_tracker =
  rd_threshold :: int
  rd_abuse_window_s :: real

definition new_redis_limiter :: "int \<times> int \<Rightarrow> redis_limiter" where
  "new_redis_limiter caps = \<lparr>rd_per_min = fst caps, rd_max_inflight = snd caps, rd_window_s = WINDOW_S\<rparr>"

definition new_redis_tracker :: "app_config \<Rightarrow> redis_tracker" where
  "new_redis_tracker C = \<lparr>rd_threshold = ABUSE_THRESHOLD C, rd_abuse_window_s = ABUSE_WINDOW_S C\<rparr>"

definition redis_limiter_enabled :: "redis_limiter \<Rightarrow> bool" where
  "redis_limiter_enabled l \<longleftrightarrow> 0 < rd_per_min l \<or> 0 < rd_max_inflight l"

datatype backend = In_process | Shared redis_limiter redis_tracker

definition backends :: "process_env \<Rightarrow> app_config \<Rightarrow> int \<times> int \<Rightarrow> backend \<times> string list" where
  "backends P C caps =
     (if redis_enabled P
      then (Shared (new_redis_limiter caps) (new_redis_tracker C), [''backends: using Redis for rate-limit + abuse state''])
      else (In_process, []))"

text \<open>
  From the imports to \<open>yield\<close>: the sweep comes before the limits are read, and the semaphore of the
  streams refuses a negative number of workers.
\<close>

definition start_server ::
  "process_env \<Rightarrow> host \<Rightarrow> (path \<Rightarrow> fs \<Rightarrow> string list) \<Rightarrow> real \<Rightarrow> (string \<Rightarrow> real option) \<Rightarrow> row list \<Rightarrow> world \<Rightarrow>
   (exn + app_config \<times> app_state \<times> backend \<times> string list) \<times> world" where
  "start_server P H listing now mtime past w =
     (case read_modules P of
        Inl e \<Rightarrow> (Inl e, w)
      | Inr (C, n) \<Rightarrow>
          (case rate_caps P of
             Inl e \<Rightarrow> (case lifespan_start C H listing now mtime past w of
                 (Inl e1, w1) \<Rightarrow> (Inl e1, w1) | (Inr _, w1) \<Rightarrow> (Inl e, w1))
           | Inr caps \<Rightarrow>
               (let C1 = C\<lparr>RATE_PER_MIN := fst caps, MAX_INFLIGHT := snd caps\<rparr> in
                case lifespan_start C1 H listing now mtime past w of
                  (Inl e, w1) \<Rightarrow> (Inl e, w1)
                | (Inr (a, out), w1) \<Rightarrow>
                    (if n < 0 then Inl (ValueError ''Semaphore initial value must be >= 0'')
                     else (let (b, said) = backends P C1 caps in Inr (C1, a, b, out @ said)), w1))))"

section \<open>An empty environment\<close>

lemma default_ints:
  assumes "environ P = []"
  shows "env_int P k ''4096'' = Inr 4096" "env_int P k ''2'' = Inr 2" "env_int P k ''4'' = Inr 4" "env_int P k ''32'' = Inr 32"
    "env_int P k ''0'' = Inr 0" "env_int P k ''8'' = Inr 8" "env_int P k ''1'' = Inr 1"
proof -
  have e: "env_get P k d = d" for d using assms by (simp add: env_get_def)
  have i: "int_of_text ''4096'' = Some 4096" "int_of_text ''2'' = Some 2" "int_of_text ''4'' = Some 4" "int_of_text ''32'' = Some 32"
    "int_of_text ''0'' = Some 0" "int_of_text ''8'' = Some 8" "int_of_text ''1'' = Some 1" by code_simp+
  show "env_int P k ''4096'' = Inr 4096" "env_int P k ''2'' = Inr 2" "env_int P k ''4'' = Inr 4" "env_int P k ''32'' = Inr 32"
    "env_int P k ''0'' = Inr 0" "env_int P k ''8'' = Inr 8" "env_int P k ''1'' = Inr 1"
    by (simp_all add: env_int_def e i)
qed

lemma decimal_int: "s \<noteq> [] \<Longrightarrow> list_all is_digit s \<Longrightarrow> py_split (CHR ''.'') s = [s] \<Longrightarrow> decimal s = Some (real (digits_val s))"
  by (simp add: decimal_def)

lemma default_floats:
  assumes "environ P = []"
  shows "env_float P k ''1200'' = Inr 1200" "env_float P k ''300'' = Inr 300" "env_float P k ''35'' = Inr 35"
    "env_float P k ''60'' = Inr 60" "\<exists>x. env_float P k ''0.25'' = Inr x"
proof -
  have e: "env_get P k d = d" for d using assms by (simp add: env_get_def)
  have d: "digits_val ''1200'' = 1200" "digits_val ''300'' = 300" "digits_val ''35'' = 35" "digits_val ''60'' = 60" by code_simp+
  have s: "py_split (CHR ''.'') ''1200'' = [''1200'']" "py_split (CHR ''.'') ''300'' = [''300'']" "py_split (CHR ''.'') ''35'' = [''35'']"
    "py_split (CHR ''.'') ''60'' = [''60'']" "py_split (CHR ''.'') ''0.25'' = [''0'', ''25'']" by code_simp+
  have g: "list_all is_digit ''1200''" "list_all is_digit ''300''" "list_all is_digit ''35''" "list_all is_digit ''60''"
    "list_all is_digit ''0''" "list_all is_digit ''25''" by code_simp+
  show "env_float P k ''1200'' = Inr 1200" "env_float P k ''300'' = Inr 300" "env_float P k ''35'' = Inr 35"
    "env_float P k ''60'' = Inr 60" "\<exists>x. env_float P k ''0.25'' = Inr x"
    using s g d by (simp_all add: env_float_def e decimal_def Let_def)
qed

lemma then_read_Inr [simp]: "then_read (Inr v) f = f v"
  by (simp add: then_read_def)

lemma read_modules_unset:
  assumes "environ P = []"
  shows "read_modules P = Inr (\<lparr>RUNTIME_ROOT = home P @ [''.sandbox''],
     RUNSC = opt_default (which_runsc P) (path_str (home P @ [''.local'', ''bin'', ''runsc''])),
     sandbox_debug = False, LAUNCH_RETRIES = 2, CACHE_PER_IDENTITY = False, MAX_LIFETIME_S = 1200, IDLE_TIMEOUT_S = 300,
     JANITOR_INTERVAL_S = 60, JANITOR_MAX_AGE_S = 300, TERMINAL_MAX_TOTAL = 8, TERMINAL_PER_USER = 1, WORKERS = 4,
     QUEUE_DEPTH = 32, JOB_TTL_S = 300, RATE_PER_MIN = 0, MAX_INFLIGHT = 0, ABUSE_THRESHOLD = 0, ABUSE_WINDOW_S = 300,
     CACHE_MAX_BYTES = 4096 * 1024 * 1024, PERSIST = True\<rparr>, 4)"
proof -
  obtain x where "env_float P ''SANDBOX_RETRY_BACKOFF_S'' ''0.25'' = Inr x" using default_floats(5) [OF assms] by blast
  then show ?thesis
    unfolding module_defs
    by (simp add: default_ints [OF assms] default_floats(1-4) [OF assms] env_path_def env_get_def assms read_persist_def
        settings.extend_def)
qed

text \<open>Without variables the server runs four workers over a queue of 32 and never turns anyone away.\<close>

theorem unset_environment:
  assumes "environ P = []" and "start_server P H listing now mtime past w = (Inr (C, a, b, out), w1)"
  shows "b = In_process \<and> WORKERS C = 4 \<and> stream_slots a = 4 \<and> maxsize (queue a) = 32 \<and>
    workers (queue a) = replicate 4 Idle \<and> db_ready (past_runs a) \<and>
    fst (rl_acquire a i t) = Inr () \<and> fst (quarantined a i t) = False"
proof -
  have caps: "rate_caps P = Inr (0, 0)" by (simp add: rate_caps_def default_ints [OF assms(1)])
  have r: "\<not> redis_enabled P" by (simp add: redis_enabled_def env_get_def assms(1))
  from assms(2) have a: "a = start_app C past" "b = In_process" "WORKERS C = 4" "QUEUE_DEPTH C = 32" "RATE_PER_MIN C = 0"
      "MAX_INFLIGHT C = 0" "ABUSE_THRESHOLD C = 0" "PERSIST C"
    by (auto simp: start_server_def read_modules_unset [OF assms(1)] caps lifespan_start_def Let_def backends_def r
        split: sum.splits prod.splits)
  have l: "fst (acquire (new_limiter 0 0) n t) = Inr ()" for n
    by (simp add: acquire_def new_limiter_def limiter_enabled_def)
  show ?thesis
    using a l by (simp add: start_app_def start_def new_queue_def init_db_def db_ready_def rl_acquire_def quarantined_def
        is_quarantined_def new_tracker_def split: prod.splits) (metis fst_conv)
qed

definition bare_env :: process_env where
  "bare_env = \<lparr>environ = [], home = [''root''], cwd = [], which_runsc = None, float_of = (\<lambda>s. None)\<rparr>"

theorem unset_environment_witness:
  "\<exists>C a b out w1. start_server bare_env (example_host (Some 0) []) (\<lambda>d f. []) 0 (\<lambda>r. None) [] empty_world =
     (Inr (C, a, b, out), w1) \<and> workers (queue a) = replicate 4 Idle"
proof -
  have e: "environ bare_env = []" by (simp add: bare_env_def)
  have caps: "rate_caps bare_env = Inr (0, 0)" by (simp add: rate_caps_def default_ints [OF e])
  have "\<exists>C a b out w1. start_server bare_env (example_host (Some 0) []) (\<lambda>d f. []) 0 (\<lambda>r. None) [] empty_world =
     (Inr (C, a, b, out), w1)"
    by (auto simp: start_server_def read_modules_unset [OF e] caps lifespan_start_def Let_def sweep_orphans_def ret_def
        empty_world_def split: prod.splits)
  then show ?thesis using unset_environment [OF e] by blast
qed

text \<open>A number that cannot be read keeps the server from starting, before anything is done.\<close>

definition module_ints :: "string list" where
  "module_ints = [''SANDBOX_CACHE_MAX_MB'', ''SANDBOX_LAUNCH_RETRIES'', ''SANDBOX_WORKERS'', ''SANDBOX_QUEUE_DEPTH'',
     ''SANDBOX_ABUSE_THRESHOLD'', ''SANDBOX_TERMINAL_MAX_TOTAL'', ''SANDBOX_TERMINAL_PER_USER'']"

lemma then_read_eq_Inr: "then_read x f = Inr y \<longleftrightarrow> (\<exists>v. x = Inr v \<and> f v = Inr y)"
  by (cases x) (simp_all add: then_read_def)

theorem bad_number_refuses_start:
  assumes "k \<in> set module_ints" and "dget (environ P) k = Some s" and "int_of_text s = None"
  shows "isl (fst (start_server P H listing now mtime past w)) \<and> snd (start_server P H listing now mtime past w) = w"
proof -
  have b: "env_int P k d = Inl (ValueError (''invalid literal for int() with base 10: '' @ py_repr s))" for d
    using assms(2,3) by (simp add: env_int_def env_get_def)
  have "read_modules P \<noteq> Inr y" for y
    using assms(1) b by (auto simp: module_ints_def module_defs then_read_eq_Inr)
  then obtain e where "read_modules P = Inl e" by (cases "read_modules P") blast+
  then show ?thesis by (simp add: start_server_def)
qed

theorem bad_number_refuses_start_witness:
  "isl (fst (start_server (bare_env\<lparr>environ := [(''SANDBOX_WORKERS'', ''four'')]\<rparr>) (example_host (Some 0) []) (\<lambda>d f. []) 0
     (\<lambda>r. None) [] empty_world))"
proof -
  have "int_of_text ''four'' = None" by code_simp
  then show ?thesis
    using bad_number_refuses_start [of "''SANDBOX_WORKERS''" "bare_env\<lparr>environ := [(''SANDBOX_WORKERS'', ''four'')]\<rparr>" "''four''"]
    by (simp add: module_ints_def)
qed

end
