(* ===== verification/Indented.thy ===== *)
theory Indented
  imports Json
begin

text \<open>
  Reading undoes writing also for \<open>dumps(..., indent=n)\<close>, the form of the files and results that the
  program writes: the configuration of a container, the key file, the result the command line prints.
\<close>

section \<open>White space between tokens\<close>

definition blank :: "string \<Rightarrow> bool" where
  "blank s \<longleftrightarrow> list_all (\<lambda>c. ord_c c \<in> {9, 10, 13, 32}) s"

lemma blank_newline [simp]: "blank (newline ind lvl)"
  by (auto simp: blank_def newline_def list_all_iff)

lemma skip_ws_blank: "blank ws \<Longrightarrow> skip_ws (ws @ s) = skip_ws s"
  by (induction ws) (auto simp: blank_def skip_ws_def)

lemma jval_blank: "blank ws \<Longrightarrow> jval n (ws @ s) = jval n s"
  by (cases n) (simp_all add: skip_ws_blank)

lemma jelems_blank: "blank ws \<Longrightarrow> jelems n (ws @ s) = jelems n s"
  by (cases n) (simp_all add: jval_blank)

lemma jmembers_blank: "blank ws \<Longrightarrow> jmembers n (ws @ s) = jmembers n s"
  by (cases n) (simp_all add: skip_ws_blank)

lemma ends_blank: "ends (newline ind lvl @ s)"
proof -
  have "char_of (10::nat) = CHR 0x0A" by code_simp
  then show ?thesis by (simp add: ends_def newline_def)
qed

lemma ends_comma: "ends (CHR '','' # s)"
  by (simp add: ends_def is_digit_def)

section \<open>Lists and dictionaries over several lines\<close>

lemma jelems_lines:
  assumes "xs \<noteq> []" "size_list size xs < n"
    and "\<And>x m q. x \<in> set xs \<Longrightarrow> size x < m \<Longrightarrow> ends q \<Longrightarrow> jval m (w x @ q) = Some (x, q)"
  shows "jelems n (py_join ('','' @ newline ind l) (map w xs) @ newline ind l' @ CHR '']'' # r) = Some (xs, r)"
  using assms
proof (induction xs arbitrary: n)
  case (Cons x xs)
  from Cons.prems(2) obtain m where n: "n = Suc m" "size x < m" "size_list size xs < m"
    by (cases n) auto
  note x = Cons.prems(3) [of x m, OF _ n(2)]
  show ?case
  proof (cases xs)
    case Nil
    with x [of "newline ind l' @ CHR '']'' # r"] n(1) show ?thesis by (simp add: ends_blank skip_ws_blank)
  next
    case (Cons y ys)
    with Cons.IH [OF _ n(3) Cons.prems(3)]
    have "jelems m (py_join ('','' @ newline ind l) (map w xs) @ newline ind l' @ CHR '']'' # r) = Some (xs, r)" by simp
    with x n(1) Cons show ?thesis by (simp add: ends_comma jelems_blank cons_fst_def)
  qed
qed simp

lemma jmembers_lines:
  assumes "kvs \<noteq> []" "size_list (size_prod (\<lambda>_. 0) size) kvs < n"
    and "\<And>k x m q. (k, x) \<in> set kvs \<Longrightarrow> size x < m \<Longrightarrow> ends q \<Longrightarrow> jval m (w x @ q) = Some (x, q)"
  shows "jmembers n (py_join ('','' @ newline ind l) (map (\<lambda>(k, v). quote k @ '': '' @ w v) kvs) @ newline ind l' @ CHR ''}'' # r) =
    Some (kvs, r)"
  using assms
proof (induction kvs arbitrary: n)
  case (Cons p kvs)
  obtain k x where p: "p = (k, x)" by (cases p)
  from Cons.prems(2) p obtain m where n: "n = Suc m" "size x < m"
    "size_list (size_prod (\<lambda>_. 0) size) kvs < m"
    by (cases n) auto
  have x: "jval m (w x @ q) = Some (x, q)" if "ends q" for q
    using Cons.prems(3) [of k x m q] p n(2) that by simp
  show ?case
  proof (cases kvs)
    case Nil
    with x [of "newline ind l' @ CHR ''}'' # r"] n(1) p show ?thesis
      by (simp add: quote_def str_body_quote jval_space ends_blank skip_ws_blank)
  next
    case (Cons y ys)
    have "jmembers m (py_join ('','' @ newline ind l) (map (\<lambda>(k, v). quote k @ '': '' @ w v) kvs) @ newline ind l' @ CHR ''}'' # r) =
      Some (kvs, r)"
      by (rule Cons.IH) (use Cons n(3) in simp, use n(3) in simp, rule Cons.prems(3), auto)
    with x n(1) Cons p show ?thesis
      by (simp add: quote_def str_body_quote jval_space jmembers_blank ends_comma cons_fst_def)
  qed
qed simp

lemma dumps_ind_head: "wf_json j \<Longrightarrow> \<exists>c cs. dumps_ind ind lvl j = c # cs \<and> opens c"
  using dumps_head [of j] by (cases j) (simp_all add: opens_literals)

lemma jval_dumps_ind:
  "wf_json j \<Longrightarrow> size j < n \<Longrightarrow> ends r \<Longrightarrow> jval n (dumps_ind ind lvl j @ r) = Some (j, r)"
proof (induction j arbitrary: n r lvl)
  case (JList xs)
  obtain m where n: "n = Suc m" "size_list size xs < m" using JList.prems(2) by (cases n) auto
  show ?case
  proof (cases "xs = []")
    case False
    let ?body = "py_join ('','' @ newline ind (lvl + 1)) (map (dumps_ind ind (lvl + 1)) xs) @ newline ind lvl @ CHR '']'' # r"
    have "jelems m ?body = Some (xs, r)"
      using JList n(2) False by (intro jelems_lines) (auto simp: list_all_iff)
    then have e: "jelems m (newline ind (lvl + 1) @ ?body) = Some (xs, r)" by (simp add: jelems_blank)
    obtain c cs where "?body = c # cs" "opens c"
      using False dumps_ind_head [of "hd xs" ind "lvl + 1"] JList.prems(1) by (cases xs; cases "tl xs") auto
    then have s: "\<not> prefix '']'' (skip_ws (newline ind (lvl + 1) @ ?body))"
      by (auto simp: skip_ws_blank skip_ws_opens) (auto simp: opens_def)
    show ?thesis
      using n(1) False e s by (simp add: skip_ws_def [of "CHR ''['' # _"])
  qed (simp add: n(1) skip_ws_def)
next
  case (JObj kvs)
  obtain m where n: "n = Suc m" "size_list (size_prod (\<lambda>_. 0) size) kvs < m"
    using JObj.prems(2) by (cases n) auto
  show ?case
  proof (cases "kvs = []")
    case False
    let ?body = "py_join ('','' @ newline ind (lvl + 1)) (map (\<lambda>(k, v). quote k @ '': '' @ dumps_ind ind (lvl + 1) v) kvs) @
      newline ind lvl @ CHR ''}'' # r"
    have "jmembers m ?body = Some (kvs, r)"
      using JObj n(2) False by (intro jmembers_lines) (force simp: list_all_iff)+
    then have e: "jmembers m (newline ind (lvl + 1) @ ?body) = Some (kvs, r)" by (simp add: jmembers_blank)
    obtain cs where "?body = char_of (34::nat) # cs"
      using False by (cases kvs; cases "tl kvs") (auto simp: quote_def)
    then have s: "\<not> prefix ''}'' (skip_ws (newline ind (lvl + 1) @ ?body))"
      by (simp add: skip_ws_blank char_34_ne)
    have "dict_of kvs = kvs" using JObj.prems(1) by (simp add: dict_of_distinct)
    then show ?thesis
      using n(1) False e s by (simp add: skip_ws_def [of "CHR ''{'' # _"])
  qed (simp add: n(1) skip_ws_def)
qed (use jval_dumps in \<open>simp_all del: jval.simps dumps.simps\<close>)

section \<open>The fuel\<close>

lemma length_lines_ge:
  "list_all (\<lambda>w. f w \<le> length (g w)) ws \<Longrightarrow> sep \<noteq> [] \<Longrightarrow>
     sum_list (map f ws) + length ws \<le> length (py_join sep (map g ws)) + 1"
proof (induction ws)
  case (Cons w ws)
  then show ?case by (cases ws; cases sep) auto
qed simp

lemma size_dumps_ind: "size j \<le> length (dumps_ind ind lvl j)"
proof (induction j arbitrary: lvl)
  case (JList xs)
  then have "list_all (\<lambda>x. size x \<le> length (dumps_ind ind (lvl + 1) x)) xs" by (simp add: list_all_iff)
  from length_lines_ge [OF this, of "'','' @ newline ind (lvl + 1)"] show ?case by (simp add: size_list_conv_sum_list)
next
  case (JObj kvs)
  then have "list_all (\<lambda>p. size_prod (\<lambda>_. 0) size p \<le> length ((\<lambda>(k, v). quote k @ '': '' @ dumps_ind ind (lvl + 1) v) p)) kvs"
  proof -
    have "size v \<le> length (dumps_ind ind (lvl + 1) v)" if "(k, v) \<in> set kvs" for k v
      using JObj [of "(k, v)" v "lvl + 1"] that by simp
    then show ?thesis by (fastforce simp: list_all_iff quote_def)
  qed
  from length_lines_ge [OF this, of "'','' @ newline ind (lvl + 1)"] show ?case by (simp add: size_list_conv_sum_list)
qed (simp_all add: size_dumps del: dumps.simps)

lemma loads_dumps_ind: "wf_json j \<Longrightarrow> loads (dumps_ind ind lvl j) = Some j"
  using jval_dumps_ind [of j "Suc (length (dumps_ind ind lvl j))" "[]" ind lvl] size_dumps_ind [of j ind lvl]
  by (simp add: loads_def skip_ws_def)

end
