(* ===== verification/KeyFile.thy ===== *)
theory KeyFile
  imports MakeKey Indented Files
begin

text \<open>
  The key file itself: the text that \<^verbatim>\<open>scripts/make_key.py\<close> writes and that the script and
  \<^verbatim>\<open>app/api/auth.py\<close> read.
\<close>

section \<open>Entries as JSON\<close>

text \<open>
  The members of an entry, in the order in which the script writes those of a new one. An entry that
  a hand has put in another order is written back in this one, where \<^verbatim>\<open>json.dumps\<close> keeps its
  order; the entry read back is the same.
\<close>

definition opt_member :: "string \<Rightarrow> string option \<Rightarrow> (string \<times> json) list" where
  "opt_member k x = (case x of None \<Rightarrow> [] | Some s \<Rightarrow> [(k, JStr s)])"

definition entry_json :: "key_entry \<Rightarrow> json" where
  "entry_json e = JObj (opt_member ''name'' (k_name e) @ opt_member ''hash'' (k_hash e) @ opt_member ''role'' (k_role e) @
     opt_member ''created'' (k_created e))"

definition keys_text :: "key_entry list \<Rightarrow> string" where
  "keys_text es = dumps_ind 2 0 (JList (map entry_json es))"

text \<open>
  What \<open>loads\<close> gives, as entries. Files of another shape, which neither program writes, are
  \<open>None\<close>.
\<close>

definition str_member :: "(string \<times> json) list \<Rightarrow> string \<Rightarrow> string option option" where
  "str_member kvs k = (case dget kvs k of None \<Rightarrow> Some None | Some (JStr s) \<Rightarrow> Some (Some s) | Some _ \<Rightarrow> None)"

definition entry_of_json :: "json \<Rightarrow> key_entry option" where
  "entry_of_json j = (case j of
     JObj kvs \<Rightarrow>
       if list_all (\<lambda>p. fst p \<in> {''name'', ''hash'', ''role'', ''created''}) kvs then
         Option.bind (str_member kvs ''name'') (\<lambda>n. Option.bind (str_member kvs ''hash'') (\<lambda>h.
         Option.bind (str_member kvs ''role'') (\<lambda>r. Option.bind (str_member kvs ''created'') (\<lambda>c.
           Some \<lparr>k_name = n, k_hash = h, k_role = r, k_created = c\<rparr>))))
       else None
   | _ \<Rightarrow> None)"

fun entries_of :: "json list \<Rightarrow> key_entry list option" where
  "entries_of [] = Some []"
| "entries_of (j # js) = Option.bind (entry_of_json j) (\<lambda>e. map_option (\<lambda>es. e # es) (entries_of js))"

definition keys_of_text :: "string \<Rightarrow> keys_file option" where
  "keys_of_text s = (case loads s of None \<Rightarrow> Some Unreadable
     | Some (JList js) \<Rightarrow> map_option Keys (entries_of js) | Some _ \<Rightarrow> None)"

section \<open>The file\<close>

definition KEYS_FILE :: "path \<Rightarrow> path" where
  "KEYS_FILE base = path_join base ''api_keys.json''"

text \<open>A directory in its place is an \<open>OSError\<close>; bytes that are not UTF-8 are of no shape written here.\<close>

definition read_keys :: "path \<Rightarrow> fs \<Rightarrow> keys_file option" where
  "read_keys base fs = (case fs (KEYS_FILE base) of None \<Rightarrow> Some NoFile | Some Dir \<Rightarrow> Some Unreadable
     | Some (File bs) \<Rightarrow> if utf8_encode (utf8_decode bs) = bs then keys_of_text (utf8_decode bs) else None)"

definition save_keys :: "path \<Rightarrow> key_entry list \<Rightarrow> fs \<Rightarrow> exn + fs" where
  "save_keys base es fs =
     (case mkdir_parents (butlast (KEYS_FILE base)) True fs of Inl e \<Rightarrow> Inl e
      | Inr fs1 \<Rightarrow> write_bytes (KEYS_FILE base) (utf8_encode (keys_text es)) fs1)"

text \<open>
  The command over the file: \<open>mk_main\<close> saves exactly when it leaves other entries. An exception of the
  save ends it before it prints.
\<close>

definition mk_command ::
  "(string \<Rightarrow> string) \<Rightarrow> mk_args \<Rightarrow> string \<Rightarrow> string \<Rightarrow> path \<Rightarrow> fs \<Rightarrow> (mk_outcome \<times> fs) option" where
  "mk_command sha args token today base fs =
     map_option (\<lambda>f. case mk_main sha args token today f of (out, f') \<Rightarrow>
        if f' = f then (out, fs)
        else (case save_keys base (file_entries f') fs of Inl e \<Rightarrow> (Raised (exn_type e), fs) | Inr fs' \<Rightarrow> (out, fs')))
     (read_keys base fs)"

section \<open>Reading undoes writing\<close>

lemma entry_roundtrip: "entry_of_json (entry_json e) = Some e"
  by (cases e) (auto simp: entry_of_json_def entry_json_def opt_member_def str_member_def split: option.splits)

lemma entries_roundtrip: "entries_of (map entry_json es) = Some es"
  by (induction es) (simp_all add: entry_roundtrip)

lemma entry_json_wf: "wf_json (entry_json e)"
  by (auto simp: entry_json_def opt_member_def split: option.splits)

lemma keys_text_roundtrip: "keys_of_text (keys_text es) = Some (Keys es)"
  by (simp add: keys_of_text_def keys_text_def loads_dumps_ind list_all_iff entry_json_wf entries_roundtrip
      del: dumps_ind.simps)

lemma saved_keys_read: "save_keys base es fs = Inr fs' \<Longrightarrow> read_keys base fs' = Some (Keys es)"
  by (auto simp: save_keys_def read_keys_def write_bytes_def utf8_decode_encode keys_text_roundtrip
      split: sum.splits option.splits node.splits if_splits)

section \<open>Properties\<close>

text \<open>
  C31. A created key works from the file. When the command has printed a key, the file it left is read back, as
  text, by the service, and the printed key authenticates its owner under the name and role it was created
  with, unless the same key is also set in the environment; the keys that were there before are still there.
\<close>

theorem created_key_on_disk:
  assumes "read_keys base fs = Some f" and "keys_inv f"
    and "mk_command sha (create_args n r) token today base fs = Some (Exit 0 out, fs')"
    and "\<not> env_has sha env (out ! 1)"
  shows "\<exists>f'. read_keys base fs' = Some f' \<and>
    require_api_key sha f' env (Some (out ! 1)) = Inr \<lparr>id_name = n, authenticated = True, role = r\<rparr> \<and>
    prefix (file_entries f) (file_entries f')"
proof -
  obtain o1 f' where m: "mk_main sha (create_args n r) token today f = (o1, f')" by fastforce
  have "o1 = Exit 0 out \<and> (f' = f \<or> read_keys base fs' = Some (Keys (file_entries f')))"
    using assms(1,3) m by (auto simp: mk_command_def saved_keys_read split: if_splits sum.splits)
  then have o: "o1 = Exit 0 out" "f' = f \<or> read_keys base fs' = Some (Keys (file_entries f'))" by simp_all
  note c = create_file [OF m [unfolded o(1)] assms(2)]
  have "length (file_entries f') \<noteq> length (file_entries f)" using c(1) by (simp add: file_entries_def [of "Keys _"])
  then have ne: "f' \<noteq> f" by auto
  with o(2) have "read_keys base fs' = Some f'" by (simp add: c(1) file_entries_def)
  with created_key_works [OF assms(2) m [unfolded o(1)] assms(4)] c(1) show ?thesis
    by (simp add: file_entries_def)
qed

theorem created_key_on_disk_witness:
  "\<exists>out fs' f'. mk_command id (create_args ''bob'' ''admin'') ''t'' ''d'' [''r''] (\<lambda>p. None) = Some (Exit 0 out, fs') \<and>
     read_keys [''r''] fs' = Some f' \<and>
     require_api_key id f' [] (Some (out ! 1)) = Inr \<lparr>id_name = ''bob'', authenticated = True, role = ''admin''\<rparr>"
proof -
  let ?out = "[''API key for '' @ py_repr ''bob'' @ '' (role='' @ ''admin'' @ ''; shown once, store it now):'', ''sk_t'']"
  have m: "mk_main id (create_args ''bob'' ''admin'') ''t'' ''d'' NoFile =
      (Exit 0 ?out, Keys [new_entry id ''bob'' ''admin'' ''sk_t'' ''d''])"
    by (simp add: mk_main_def create_args_def mk_load_def Let_def)
  have p: "KEYS_FILE [''r''] = [''r'', ''api_keys.json'']" by (simp add: KEYS_FILE_def path_join_plain plain_segment_def)
  have r: "read_keys [''r''] (\<lambda>p. None) = Some NoFile" by (simp add: read_keys_def)
  have "\<exists>fs'. save_keys [''r''] es (\<lambda>p. None) = Inr fs'" for es
    by (simp add: save_keys_def p mkdir_parents_def write_bytes_def)
  then obtain fs' where "save_keys [''r''] [new_entry id ''bob'' ''admin'' ''sk_t'' ''d''] (\<lambda>p. None) = Inr fs'" by blast
  then have "mk_command id (create_args ''bob'' ''admin'') ''t'' ''d'' [''r''] (\<lambda>p. None) = Some (Exit 0 ?out, fs')"
    using m by (simp add: mk_command_def r file_entries_def)
  from created_key_on_disk [OF r _ this, of "[]"] this show ?thesis
    by (auto simp: keys_inv_def file_entries_def n_users_def env_has_def env_keys_def py_strip_def)
qed

end
