(* ===== verification/Bundle.thy ===== *)
theory Bundle
  imports Oci Indented
begin

text \<open>
  The bundle a container is launched from, read back: the text in \<^verbatim>\<open>config.json\<close> determines the
  whole configuration, so no text of a request can change a member it was not put into.
\<close>

section \<open>Reading a configuration\<close>

definition jmember :: "string \<Rightarrow> json \<Rightarrow> json option" where
  "jmember k j = (case j of JObj kvs \<Rightarrow> dget kvs k | _ \<Rightarrow> None)"

definition as_str :: "json \<Rightarrow> string option" where
  "as_str j = (case j of JStr s \<Rightarrow> Some s | _ \<Rightarrow> None)"

definition as_int :: "json \<Rightarrow> int option" where
  "as_int j = (case j of JInt i \<Rightarrow> Some i | _ \<Rightarrow> None)"

definition as_bool :: "json \<Rightarrow> bool option" where
  "as_bool j = (case j of JBool b \<Rightarrow> Some b | _ \<Rightarrow> None)"

fun all_some :: "('a \<Rightarrow> 'b option) \<Rightarrow> 'a list \<Rightarrow> 'b list option" where
  "all_some f [] = Some []"
| "all_some f (x # xs) = Option.bind (f x) (\<lambda>y. map_option (\<lambda>ys. y # ys) (all_some f xs))"

definition as_list :: "(json \<Rightarrow> 'a option) \<Rightarrow> json \<Rightarrow> 'a list option" where
  "as_list f j = (case j of JList xs \<Rightarrow> all_some f xs | _ \<Rightarrow> None)"

definition jfield :: "string \<Rightarrow> (json \<Rightarrow> 'a option) \<Rightarrow> json \<Rightarrow> 'a option" where
  "jfield k f j = Option.bind (jmember k j) f"

definition mount_of :: "json \<Rightarrow> mount option" where
  "mount_of j =
     Option.bind (jfield ''destination'' as_str j) (\<lambda>d. Option.bind (jfield ''type'' as_str j) (\<lambda>t.
     Option.bind (jfield ''source'' as_str j) (\<lambda>s.
     Option.bind (case jmember ''options'' j of None \<Rightarrow> Some None | Some os \<Rightarrow> map_option Some (as_list as_str os)) (\<lambda>os.
       Some \<lparr>destination = d, mount_type = t, mount_source = s, mount_options = os\<rparr>))))"

definition rlimit_of :: "json \<Rightarrow> rlimit option" where
  "rlimit_of j =
     Option.bind (jfield ''type'' as_str j) (\<lambda>t. Option.bind (jfield ''hard'' as_int j) (\<lambda>h.
     Option.bind (jfield ''soft'' as_int j) (\<lambda>s. Some \<lparr>rlimit_type = t, rlimit_hard = h, rlimit_soft = s\<rparr>)))"

definition capabilities_of :: "json \<Rightarrow> capability_sets option" where
  "capabilities_of j =
     Option.bind (jfield ''bounding'' (as_list as_str) j) (\<lambda>b. Option.bind (jfield ''effective'' (as_list as_str) j) (\<lambda>e.
     Option.bind (jfield ''inheritable'' (as_list as_str) j) (\<lambda>i. Option.bind (jfield ''permitted'' (as_list as_str) j) (\<lambda>p.
     Option.bind (jfield ''ambient'' (as_list as_str) j) (\<lambda>a.
       Some \<lparr>bounding = b, effective = e, inheritable = i, permitted = p, ambient = a\<rparr>)))))"

definition process_of :: "json \<Rightarrow> oci_process option" where
  "process_of j =
     Option.bind (jfield ''terminal'' as_bool j) (\<lambda>t.
     Option.bind (jfield ''user'' (jfield ''uid'' as_int) j) (\<lambda>u. Option.bind (jfield ''user'' (jfield ''gid'' as_int) j) (\<lambda>g.
     Option.bind (jfield ''args'' (as_list as_str) j) (\<lambda>as. Option.bind (jfield ''env'' (as_list as_str) j) (\<lambda>e.
     Option.bind (jfield ''cwd'' as_str j) (\<lambda>c. Option.bind (jfield ''capabilities'' capabilities_of j) (\<lambda>cs.
     Option.bind (jfield ''noNewPrivileges'' as_bool j) (\<lambda>n. Option.bind (jfield ''rlimits'' (as_list rlimit_of) j) (\<lambda>rs.
       Some \<lparr>proc_terminal = t, proc_uid = u, proc_gid = g, proc_args = as, proc_env = e, proc_cwd = c,
         proc_capabilities = cs, noNewPrivileges = n, proc_rlimits = rs\<rparr>)))))))))"

definition rule_of :: "json \<Rightarrow> seccomp_rule option" where
  "rule_of j =
     Option.bind (jfield ''names'' (as_list as_str) j) (\<lambda>n. Option.bind (jfield ''action'' as_str j) (\<lambda>a.
     Option.bind (jfield ''errnoRet'' as_int j) (\<lambda>e. Some \<lparr>syscall_names = n, syscall_action = a, errnoRet = e\<rparr>)))"

definition seccomp_of :: "json \<Rightarrow> seccomp_profile option" where
  "seccomp_of j =
     Option.bind (jfield ''defaultAction'' as_str j) (\<lambda>d. Option.bind (jfield ''architectures'' (as_list as_str) j) (\<lambda>a.
     Option.bind (jfield ''syscalls'' (as_list rule_of) j) (\<lambda>s.
       Some \<lparr>defaultAction = d, architectures = a, syscalls = s\<rparr>)))"

definition linux_of :: "json \<Rightarrow> oci_linux option" where
  "linux_of j =
     Option.bind (jfield ''namespaces'' (as_list (jfield ''type'' as_str)) j) (\<lambda>n.
     Option.bind (jfield ''maskedPaths'' (as_list as_str) j) (\<lambda>m. Option.bind (jfield ''readonlyPaths'' (as_list as_str) j) (\<lambda>r.
     Option.bind (jfield ''seccomp'' seccomp_of j) (\<lambda>s.
       Some \<lparr>namespaces = n, maskedPaths = m, readonlyPaths = r, linux_seccomp = s\<rparr>))))"

definition config_of :: "json \<Rightarrow> oci_config option" where
  "config_of j =
     Option.bind (jfield ''ociVersion'' as_str j) (\<lambda>v. Option.bind (jfield ''process'' process_of j) (\<lambda>p.
     Option.bind (jfield ''root'' (jfield ''path'' as_str) j) (\<lambda>rp. Option.bind (jfield ''root'' (jfield ''readonly'' as_bool) j) (\<lambda>ro.
     Option.bind (jfield ''hostname'' as_str j) (\<lambda>h. Option.bind (jfield ''mounts'' (as_list mount_of) j) (\<lambda>ms.
     Option.bind (jfield ''linux'' linux_of j) (\<lambda>l.
       Some \<lparr>ociVersion = v, oci_process = p, root_path = rp, root_readonly = ro, oci_hostname = h, mounts = ms,
         oci_linux = l\<rparr>)))))))"

section \<open>Reading undoes writing\<close>

lemma jfield_simps [simp]:
  "jfield k f (JObj kvs) = Option.bind (dget kvs k) f" "jmember k (JObj kvs) = dget kvs k"
  by (simp_all add: jfield_def jmember_def)

lemma as_simps [simp]:
  "as_str (JStr s) = Some s" "as_int (JInt i) = Some i" "as_bool (JBool b) = Some b" "as_list f (JList xs) = all_some f xs"
  by (simp_all add: as_str_def as_int_def as_bool_def as_list_def)

lemma all_some_map: "(\<And>x. f (g x) = Some x) \<Longrightarrow> all_some f (map g xs) = Some xs"
  by (induction xs) simp_all

lemma as_strs [simp]: "as_list as_str (json_strs ss) = Some ss"
  by (simp add: json_strs_def all_some_map)

lemma mount_roundtrip: "mount_of (mount_json m) = Some m"
  by (cases m) (simp add: mount_of_def mount_json_def split: option.splits)

lemma rlimit_roundtrip: "rlimit_of (rlimit_json r) = Some r"
  by (cases r) (simp add: rlimit_of_def rlimit_json_def)

lemma capabilities_roundtrip: "capabilities_of (capabilities_json c) = Some c"
  by (cases c) (simp add: capabilities_of_def capabilities_json_def)

lemma process_roundtrip: "process_of (process_json p) = Some p"
  by (cases p) (simp add: process_of_def process_json_def capabilities_roundtrip all_some_map rlimit_roundtrip)

lemma seccomp_roundtrip: "seccomp_of (seccomp_json s) = Some s"
proof -
  have "rule_of (JObj [(''names'', json_strs (syscall_names r)), (''action'', JStr (syscall_action r)),
      (''errnoRet'', JInt (errnoRet r))]) = Some r" for r
    by (cases r) (simp add: rule_of_def)
  then show ?thesis by (cases s) (simp add: seccomp_of_def seccomp_json_def all_some_map)
qed

lemma config_roundtrip: "config_of (config_json c) = Some c"
proof -
  have l: "linux_of (JObj [(''namespaces'', JList (map (\<lambda>t. JObj [(''type'', JStr t)]) (namespaces x))),
      (''maskedPaths'', json_strs (maskedPaths x)), (''readonlyPaths'', json_strs (readonlyPaths x)),
      (''seccomp'', seccomp_json (linux_seccomp x))]) = Some x" for x
    by (cases x) (simp add: linux_of_def seccomp_roundtrip all_some_map)
  show ?thesis
    by (cases c) (simp add: config_of_def config_json_def process_roundtrip all_some_map mount_roundtrip l)
qed

lemma config_json_wf: "wf_json (config_json c)"
  by (auto simp: config_json_def process_json_def capabilities_json_def rlimit_json_def mount_json_def seccomp_json_def
      json_strs_def list_all_iff split: option.splits)

section \<open>Properties\<close>

text \<open>
  C1. The runtime reads what was meant. The file a bundle is written to, decoded as UTF-8 and read as JSON,
  gives back exactly the configuration it was written from, whatever text the arguments, the
  environment and the paths hold; so the configuration that is read is the hardened one.
\<close>

theorem bundle_read_back:
  assumes "write_bundle d (build_config args src l rootfs env uid gid out rw cache term cwd) fs = Inr fs'"
  shows "\<exists>bs j cfg. fs' (path_join d ''config.json'') = Some (File bs) \<and> loads (utf8_decode bs) = Some j \<and> config_of j = Some cfg \<and>
    cfg = build_config args src l rootfs env uid gid out rw cache term cwd \<and> hardened cfg \<and>
    proc_args (oci_process cfg) = args \<and> proc_uid (oci_process cfg) = uid"
proof -
  let ?cfg = "build_config args src l rootfs env uid gid out rw cache term cwd"
  have "fs' (path_join d ''config.json'') = Some (File (utf8_encode (dumps_ind 1 0 (config_json ?cfg))))"
    using assms by (auto simp: write_bundle_def write_bytes_def split: option.splits node.splits if_splits)
  moreover have "loads (dumps_ind 1 0 (config_json ?cfg)) = Some (config_json ?cfg)"
    by (rule loads_dumps_ind [OF config_json_wf])
  moreover have "proc_args (oci_process ?cfg) = args" "proc_uid (oci_process ?cfg) = uid"
    by (simp_all add: build_config_def Let_def)
  ultimately show ?thesis
    using config_roundtrip [of ?cfg] hardened_build_config by (simp add: utf8_decode_encode)
qed

theorem bundle_read_back_witness:
  "\<exists>fs' bs j cfg. write_bundle [] (build_config [''p'', ''\"}''] [''s''] DEFAULT_LIMITS [''r''] None 0 0 None False None False ''/box'')
      (\<lambda>p. if p = [] then Some Dir else None) = Inr fs' \<and> fs' (path_join [] ''config.json'') = Some (File bs) \<and>
     loads (utf8_decode bs) = Some j \<and> config_of j = Some cfg \<and> proc_args (oci_process cfg) = [''p'', ''\"}'']"
proof -
  have "path_join [] ''config.json'' = [''config.json'']" by (simp add: path_join_plain plain_segment_def)
  then obtain fs' where w: "write_bundle [] (build_config [''p'', ''\"}''] [''s''] DEFAULT_LIMITS [''r''] None 0 0 None False None False ''/box'')
      (\<lambda>p. if p = [] then Some Dir else None) = Inr fs'"
    by (simp add: write_bundle_def write_bytes_Inr)
  from bundle_read_back [OF w] w show ?thesis by blast
qed

end
