(* ===== verification/Spec2Isabelle.thy ===== *)
theory Spec2Isabelle
  imports Registry Oci Ratelimit Abuse Schemas MakeKey Routes Recording Accounting App Sse Cli Backends Rootfs Draining Websocket
    StreamRoute Database Cancelling Config KeyFile Bundle
begin

text \<open>
  A model of SANBOSY, a service that runs untrusted programs in gVisor sandboxes: an HTTP API
  (\<^verbatim>\<open>app/api\<close>), an executor that stages, launches, collects and destroys one container per
  phase (\<^verbatim>\<open>app/executor\<close>), per-identity limits and abuse scoring, a history in SQLite, interactive
  terminals, a command line and a script for API keys. Each component is a theory that imports the
  components it calls; the definitions keep the names of the source.

  \<^bold>\<open>How the parts work together.\<close> A request is checked by pydantic's models (\<^theory_text>\<open>Schemas\<close>),
  authenticated (\<^theory_text>\<open>Auth\<close>), turned into an execution request (\<^theory_text>\<open>Routes.prepare\<close>, over the language
  table of \<^theory_text>\<open>Registry\<close>), admitted by the rate limiter (\<^theory_text>\<open>Ratelimit\<close>) and queued
  (\<^theory_text>\<open>Jobqueue\<close>), streamed (\<^theory_text>\<open>Streaming\<close>) or, for a terminal, exchanged for a ticket. The
  executor (\<^theory_text>\<open>Runner\<close>, \<^theory_text>\<open>Exec\<close>) writes the bundle (\<^theory_text>\<open>Oci\<close>), launches the containers
  and removes the run. Results are classified (\<^theory_text>\<open>Abuse\<close>) and stored (\<^theory_text>\<open>History\<close>). The application
  (\<^theory_text>\<open>App\<close>) builds the shared state, runs the janitor (\<^theory_text>\<open>Janitor\<close>) and shuts everything down.

  \<^bold>\<open>Theories.\<close>
  \<^item> \<^theory_text>\<open>Prelude\<close>, \<^theory_text>\<open>Text\<close>, \<^theory_text>\<open>Json\<close>, \<^theory_text>\<open>Indented\<close>, \<^theory_text>\<open>Files\<close>: dictionaries in insertion order, truth
    values of options, Python's string functions and UTF-8, JSON text, on one line and on several, with the
    proof that reading undoes writing, paths and the file map.
  \<^item> \<^theory_text>\<open>RunLimits\<close>, \<^theory_text>\<open>Registry\<close>, \<^theory_text>\<open>Oci\<close>, \<^theory_text>\<open>Results\<close>: \<^verbatim>\<open>limits.py\<close>,
    \<^verbatim>\<open>registry.py\<close>, \<^verbatim>\<open>oci.py\<close> and the data classes of \<^verbatim>\<open>runner.py\<close>. The lemmas show which
    part of a command line a user controls and that every configuration is hardened; \<^theory_text>\<open>Bundle\<close> reads
    the configuration back from the text of its file.
  \<^item> \<^theory_text>\<open>Window\<close>, \<^theory_text>\<open>Ratelimit\<close>, \<^theory_text>\<open>Abuse\<close>: the interface of a sliding window of time-stamped events
    as a locale, interpreted on the pruning loops of \<^verbatim>\<open>ratelimit.py\<close> and \<^verbatim>\<open>abuse.py\<close>; the contract
    of a slot limiter as a locale, interpreted on the limiter. Runs of operations give the rate cap,
    the slot cap and the agreement of the abuse score with the recorded history.
  \<^item> \<^theory_text>\<open>Backends\<close>: \<^verbatim>\<open>backends.py\<close>, the Lua scripts over a record of Redis commands with the laws
    \<^theory_text>\<open>redis_ok\<close>, and their refinement of the in-memory trackers.
  \<^item> \<^theory_text>\<open>Schemas\<close>, \<^theory_text>\<open>Auth\<close>, \<^theory_text>\<open>MakeKey\<close>, \<^theory_text>\<open>KeyFile\<close>: \<^verbatim>\<open>schemas.py\<close>, \<^verbatim>\<open>auth.py\<close> and
    \<^verbatim>\<open>scripts/make_key.py\<close>, with the key file as JSON text that the one writes and the other reads.
  \<^item> \<^theory_text>\<open>Runner\<close>, \<^theory_text>\<open>Exec\<close>, \<^theory_text>\<open>Streaming\<close>, \<^theory_text>\<open>Janitor\<close>: \<^verbatim>\<open>runner.py\<close>. A run is an action on a
    world of files and a log of what was done to containers; a host says what a launched process did.
    Frames (the locale \<^theory_text>\<open>step_frame\<close>, interpreted three times) carry what may change: files outside
    given directories stay, what is launched is hardened, what is launched is deleted. A stream reads an
    unending supply; its loop ends by its deadline (\<^theory_text>\<open>consume_count\<close>), and if it ends earlier it has
    yielded all that the pumps queued (\<^theory_text>\<open>stream_complete\<close>).
  \<^item> \<^theory_text>\<open>Cancelling\<close>: a run again, with the places where cancelling its worker cuts it off, and the
    proof that without them it is the run of \<^theory_text>\<open>Exec\<close>.
  \<^item> \<^theory_text>\<open>Scoping\<close>: the interface of a store whose entries belong to an identity, interpreted on the
    jobs and on the history.
  \<^item> \<^theory_text>\<open>Jobqueue\<close>, \<^theory_text>\<open>Terminal\<close>, \<^theory_text>\<open>History\<close>: \<^verbatim>\<open>jobqueue.py\<close> with jobs as shared objects in a
    store and the steps of workers, callers and shutdown interleaved; \<^verbatim>\<open>terminal.py\<close>, sessions, the
    handshake on their console socket and their manager; \<^verbatim>\<open>store.py\<close>, its rows.
  \<^item> \<^theory_text>\<open>Draining\<close>: the workers' steps use up a measure of the work left, so accepted jobs are finished.
  \<^item> \<^theory_text>\<open>Database\<close>: the schema of \<^verbatim>\<open>store.py\<close>, its migration and its SQL statements over tables of
    columns and tuples, which refine \<^theory_text>\<open>History\<close>.
  \<^item> \<^theory_text>\<open>Routes\<close>, \<^theory_text>\<open>Recording\<close>, \<^theory_text>\<open>Accounting\<close>, \<^theory_text>\<open>Sse\<close>: \<^verbatim>\<open>routes.py\<close>, each
    handler split at its await; what the components keep of a run, from the request to the run read back;
    the books of slots over all interleavings of the halves; the events of a stream as text.
  \<^item> \<^theory_text>\<open>StreamRoute\<close>, \<^theory_text>\<open>Websocket\<close>: one streamed request and one terminal connection from the
    first byte to the last, with the meaning of the client's frames, also when the client is lost
    on the way. To the manager a connection is a sequence of the events over which \<^theory_text>\<open>Terminal\<close> proves
    the caps (\<^theory_text>\<open>terminal_ws_events\<close>, \<^theory_text>\<open>ws_session_event\<close>).
  \<^item> \<^theory_text>\<open>App\<close>, \<^theory_text>\<open>Config\<close>, \<^theory_text>\<open>Cli\<close>: \<^verbatim>\<open>main.py\<close> and \<^verbatim>\<open>cli.py\<close>; what every
    module reads from the environment, and the start of the server with either backend.
  \<^item> \<^theory_text>\<open>Links\<close>, \<^theory_text>\<open>Rootfs\<close>: a file tree with symbolic links, how names are resolved in it and
    the calls that change it; \<^verbatim>\<open>scripts/build_rootfs.py\<close> over it. The lemmas show which actions stay
    below a directory, that the depth of a copy is bounded, and what the skeleton is.

  \<^bold>\<open>Parameters.\<close> What is not in the repository is an argument: the clock and random ids; SHA-256; what
  a container run by \<^verbatim>\<open>runsc\<close> writes and returns, and whether its control commands raise (the record
  \<^theory_text>\<open>host\<close>; that a container writes only to its writable mounts and its state directory is the named
  hypothesis \<^theory_text>\<open>confined\<close>); the order of directory listings; SQLite's order of rows; Redis. Each
  property with a hypothesis has a witness, where the parameters are concrete.

  \<^bold>\<open>Bounds and fuel.\<close> The JSON reader takes fuel and gets one more than the length of the text, which is
  enough because every step reads a character. Resolving a name follows at most the kernel's forty links,
  copying a directory goes as deep as names of \<^theory_text>\<open>PATH_MAX\<close> allow (\<^theory_text>\<open>copy_walk_fuel\<close>), and copying the
  target of a link nests as far as Python's thousand calls. Every other loop is structural or has a measure. The loop of
  a stream has the nanoseconds left before its deadline, at least one of which passes between two readings
  of the clock. Retries run over the number of attempts left. Numbers of the source are Python's unbounded ints; clock
  readings and durations are reals. Bytes are 8-bit words, the window size of a terminal is a pair of
  16-bit words.

  \<^bold>\<open>Text.\<close> Strings are lists of 8-bit characters, so a code point above 255 cannot be written; what a
  decoder would yield there, the replacement character included, is the one character \<^theory_text>\<open>SUB\<close>.
  Surrogates do not occur.

  \<^bold>\<open>Key files.\<close> A key file is taken to hold entries of the kind the script writes: one with
  \<^verbatim>\<open>null\<close> members, or with a digest that is not ASCII, at which the comparison raises, is outside
  the model, and an entry is written back with its members in the script's order.

  \<^bold>\<open>Not modelled.\<close> FastAPI and pydantic themselves (dispatch, parsing, status lines) and the constant
  answer of \<^verbatim>\<open>healthz\<close>; what SQLite makes of a text in a column of integers, and its journal; how a float prints and
  rounds, which with the whole part of it is the argument \<^theory_text>\<open>float_text\<close>, and Python's bound on the
  digits of a number read from text; a run that is cancelled elsewhere than while it waits for a container;
  keys of Redis that expire on their own; file modes, owners and times; the static UI, the shell scripts and the
  tests.
\<close>

end
